(* ===== verification/Prelude.thy ===== *)
theory Prelude
  imports Main "HOL-Library.Word" "HOL-Library.Monad_Syntax"
begin

text \<open>
  What the component theories share: the machine types of the C code, the C operations whose
  failure HOL would hide (array accesses out of bounds, \<^verbatim>\<open>%\<close> by zero, taking a lock that is
  held), and the generic lemmas about lists, words and options that the proofs rest on.

  Every operation of the models that can have no defined result in C returns an \<open>option\<close>:
  \<open>None\<close> is ``undefined behaviour, a failed assertion, or a call that never returns'', and the
  \<open>do\<close> blocks of HOL-Library.Monad-Syntax thread it. Theorems therefore always say
  \<open>= Some \<dots>\<close> where they claim that the code returns.
\<close>

unbundle bit_operations_syntax

section \<open>Types\<close>

type_synonym u8 = "8 word"
type_synonym u16 = "16 word"
type_synonym u32 = "32 word"
type_synonym u64 = "64 word"

text \<open>
  \<^verbatim>\<open>BIT(n)\<close> is the \<^verbatim>\<open>1 << n\<close> macro of seL4's utility headers; \<^verbatim>\<open>mcp2515.h\<close> uses it for
  the bit numbers that its comments and the data sheet give.
\<close>

definition BIT :: "nat \<Rightarrow> 'a::len word" where
  "BIT n = push_bit n 1"

lemma bit_BIT: "bit (BIT n :: 'a::len word) m \<longleftrightarrow> m = n \<and> n < LENGTH('a)"
  by (auto simp: BIT_def push_bit_of_1 bit_exp_iff)

section \<open>Collections of facts\<close>

named_theorems layout \<open>facts about where the fields of a register or a buffer lie\<close>
named_theorems frame_simps \<open>which parts of a state an operation leaves alone\<close>
named_theorems bit_layout \<open>bit-wise characterisations used to compare words\<close>

lemmas bind_splits = Option.bind_eq_Some_conv Option.bind_eq_None_conv

section \<open>Partial operations of C\<close>

definition array_get :: "'a list \<Rightarrow> nat \<Rightarrow> 'a option" where
  "array_get xs i = (if i < length xs then Some (xs ! i) else None)"

definition array_set :: "'a list \<Rightarrow> nat \<Rightarrow> 'a \<Rightarrow> 'a list option" where
  "array_set xs i x = (if i < length xs then Some (xs[i := x]) else None)"

text \<open>\<^verbatim>\<open>memcpy(dst + off, src, n)\<close>: both ranges have to lie inside their arrays.\<close>

definition memcpy :: "'a list \<Rightarrow> nat \<Rightarrow> 'a list \<Rightarrow> nat \<Rightarrow> 'a list option" where
  "memcpy dst off src n =
     (if n \<le> length src \<and> off + n \<le> length dst
      then Some (take off dst @ take n src @ drop (off + n) dst) else None)"

text \<open>A condition without which the code has no defined result: an \<^verbatim>\<open>assert\<close>, a bound.\<close>

definition c_assert :: "bool \<Rightarrow> unit option" where
  "c_assert b = (if b then Some () else None)"

definition c_mod :: "nat \<Rightarrow> nat \<Rightarrow> nat option" where
  "c_mod a b = (if b = 0 then None else Some (a mod b))"

text \<open>
  A lock (the spinlocks of libsync, the CAmkES mutexes) seen from one thread: taking it while it
  is held never returns, unless another thread releases it.
\<close>

definition lock_take :: "bool \<Rightarrow> bool option" where
  "lock_take held = (if held then None else Some True)"

definition lock_release :: "bool \<Rightarrow> bool" where
  "lock_release held = False"

lemma array_get_in [simp]: "i < length xs \<Longrightarrow> array_get xs i = Some (xs ! i)"
  by (simp add: array_get_def)

lemma array_set_in [simp]: "i < length xs \<Longrightarrow> array_set xs i x = Some (xs[i := x])"
  by (simp add: array_set_def)

lemma array_get_Some_iff: "array_get xs i = Some x \<longleftrightarrow> i < length xs \<and> x = xs ! i"
  by (auto simp: array_get_def)

lemma array_set_Some_iff: "array_set xs i x = Some ys \<longleftrightarrow> i < length xs \<and> ys = xs[i := x]"
  by (auto simp: array_set_def)

lemma c_assert_simps [simp]: "c_assert True = Some ()" "c_assert False = None"
  by (simp_all add: c_assert_def)

lemma c_mod_pos [simp]: "0 < b \<Longrightarrow> c_mod a b = Some (a mod b)"
  by (simp add: c_mod_def)

lemma lock_take_free [simp]: "lock_take False = Some True"
  by (simp add: lock_take_def)

lemma lock_take_held [simp]: "lock_take True = None"
  by (simp add: lock_take_def)

lemma lock_release_free [simp]: "lock_release b = False"
  by (simp add: lock_release_def)

lemma memcpy_in [simp]:
  "n \<le> length src \<Longrightarrow> off + n \<le> length dst \<Longrightarrow>
   memcpy dst off src n = Some (take off dst @ take n src @ drop (off + n) dst)"
  by (simp add: memcpy_def)

lemma memcpy_out: "length src < n \<or> length dst < off + n \<Longrightarrow> memcpy dst off src n = None"
  by (auto simp: memcpy_def)

lemma memcpy_length: "memcpy dst off src n = Some xs \<Longrightarrow> length xs = length dst"
  by (auto simp: memcpy_def split: if_splits)

section \<open>Lists and indices\<close>

lemma mod_Suc_neq:
  "i < n \<Longrightarrow> j < n \<Longrightarrow> (i + 1) mod n = (j + 1) mod n \<longleftrightarrow> i = (j::nat)"
  by (auto simp: mod_Suc)

lemma mod_add_lt_inj:
  fixes h :: nat
  assumes "i < n" "j < n" "(h + i) mod n = (h + j) mod n"
  shows "i = j"
proof -
  have "(int h + int i) mod int n = (int h + int j) mod int n"
    using assms(3) by (metis of_nat_add zmod_int)
  then have "int n dvd int i - int j"
    by (simp add: mod_eq_dvd_iff)
  with assms(1,2) have "int i - int j = 0"
    using zdvd_not_zless [of "\<bar>int i - int j\<bar>" "int n"] by fastforce
  then show ?thesis by simp
qed

section \<open>Runs of operations\<close>

text \<open>A sequence of operations on a state, each with a result; it stops where one has none.\<close>

fun run_ops :: "('o \<Rightarrow> 's \<Rightarrow> ('r \<times> 's) option) \<Rightarrow> 'o list \<Rightarrow> 's \<Rightarrow> ('r list \<times> 's) option" where
  "run_ops step [] s = Some ([], s)"
| "run_ops step (x # xs) s = do {
     (r, s) \<leftarrow> step x s;
     (rs, s) \<leftarrow> run_ops step xs s;
     Some (r # rs, s)
   }"

text \<open>
  The simulation lemma for such runs: if every step of the concrete operations succeeds in states
  that satisfy \<open>I\<close>, keeps \<open>I\<close> and does what the total abstract step does to the abstraction of
  the state, then so does every run.
\<close>

fun spec_run :: "('o \<Rightarrow> 'a \<Rightarrow> 'r \<times> 'a) \<Rightarrow> 'o list \<Rightarrow> 'a \<Rightarrow> 'r list \<times> 'a" where
  "spec_run astep [] a = ([], a)"
| "spec_run astep (x # xs) a =
     (let (r, a) = astep x a; (rs, a) = spec_run astep xs a in (r # rs, a))"

lemma run_ops_refines:
  assumes step: "\<And>x s. I s \<Longrightarrow> \<exists>s'. step x s = Some (fst (astep x (abstr s)), s') \<and> I s' \<and>
                          abstr s' = snd (astep x (abstr s))"
    and "I s"
  shows "\<exists>s'. run_ops step xs s = Some (fst (spec_run astep xs (abstr s)), s') \<and> I s' \<and>
              abstr s' = snd (spec_run astep xs (abstr s))"
  using \<open>I s\<close>
proof (induction xs arbitrary: s)
  case Nil
  then show ?case by simp
next
  case (Cons x xs)
  obtain s1 where s1: "step x s = Some (fst (astep x (abstr s)), s1)" "I s1"
      "abstr s1 = snd (astep x (abstr s))"
    using step [OF Cons.prems] by blast
  with Cons.IH [OF s1(2)] show ?case
    by (auto simp: split_beta)
qed

section \<open>Total correctness of partial operations\<close>

text \<open>
  \<open>ok m P\<close>: the operation \<open>m\<close> returns, and its result satisfies \<open>P\<close>. The simp rules push \<open>ok\<close>
  through the \<open>do\<close> blocks; the components add one introduction rule per operation to the
  collection \<open>wp\<close>, so that a proof about a handler goes through it statement by statement.
\<close>

named_theorems wp \<open>introduction rules for the operations of a component\<close>

definition ok :: "'a option \<Rightarrow> ('a \<Rightarrow> bool) \<Rightarrow> bool" where
  "ok m P \<longleftrightarrow> (\<exists>x. m = Some x \<and> P x)"

lemma ok_Some [simp]: "ok (Some x) P = P x"
  by (simp add: ok_def)

lemma ok_None [simp]: "\<not> ok None P"
  by (simp add: ok_def)

lemma ok_assert [simp]: "ok (c_assert b) P \<longleftrightarrow> b \<and> P ()"
  by (cases b) simp_all

lemma ok_bind [simp]: "ok (Option.bind m f) P = ok m (\<lambda>x. ok (f x) P)"
  by (cases m) simp_all

lemma ok_if [simp]: "ok (if b then m else n) P = (if b then ok m P else ok n P)"
  by simp

lemma ok_Let [simp]: "ok (Let x f) P = ok (f x) P"
  by simp

lemma ok_case_prod [simp]: "ok (case p of (x, y) \<Rightarrow> f x y) P = ok (f (fst p) (snd p)) P"
  by (cases p) simp

lemma ok_mono: "ok m P \<Longrightarrow> (\<And>x. P x \<Longrightarrow> Q x) \<Longrightarrow> ok m Q"
  by (auto simp: ok_def)

lemma ok_conj: "ok m P \<Longrightarrow> ok m Q \<Longrightarrow> ok m (\<lambda>x. P x \<and> Q x)"
  by (auto simp: ok_def)

lemma ok_eq: "m = Some x \<Longrightarrow> ok m P = P x"
  by simp

end
