(* ===== verification/Can_Types.thy ===== *)
theory Can_Types
  imports Prelude
begin

text \<open>
  The data of the CAN interface (\<^verbatim>\<open>include/can_inf.h\<close>, \<^verbatim>\<open>include/spi_inf.h\<close>) with the widths
  of the C bit fields: an identifier of 29 bits, one-bit flags, a two-bit priority, a four-bit
  data length code.
\<close>

abbreviation (input) CAN_SID_BITS :: nat where "CAN_SID_BITS \<equiv> 11"
abbreviation (input) CAN_EID_BITS :: nat where "CAN_EID_BITS \<equiv> 18"
abbreviation (input) CAN_EID_MASK :: u32 where "CAN_EID_MASK \<equiv> 0x3FFFF"
abbreviation (input) CAN_MAX_DLC :: nat where "CAN_MAX_DLC \<equiv> 8"

datatype can_txb_status = IDLE | PENDING | LOST | ERR | ABORT

text \<open>The enum's values, as the C code stores them in integers.\<close>

fun txb_status_code :: "can_txb_status \<Rightarrow> u8" where
  "txb_status_code IDLE = 0"
| "txb_status_code PENDING = 1"
| "txb_status_code LOST = 2"
| "txb_status_code ERR = 3"
| "txb_status_code ABORT = 4"

record can_id =
  id_num :: "29 word"
  exide :: "1 word"
  rtr :: "1 word"
  err :: "1 word"

record can_frame =
  ident :: can_id
  prio :: "2 word"
  dlc :: "4 word"
  payload :: "u8 list"

text \<open>\<open>payload\<close> is the array \<^verbatim>\<open>data[CAN_MAX_DLC]\<close>: a frame of the code always holds 8 bytes.\<close>

definition frame_ok :: "can_frame \<Rightarrow> bool" where
  "frame_ok f \<longleftrightarrow> length (payload f) = CAN_MAX_DLC"

abbreviation (input) SPI_TRANS_MAX_SIZE :: nat where "SPI_TRANS_MAX_SIZE \<equiv> 255"
abbreviation (input) CLIENT_APP_ID :: int where "CLIENT_APP_ID \<equiv> 0"
abbreviation (input) CAN_APP_ID :: int where "CAN_APP_ID \<equiv> 1"

end
