(* ===== verification/Can_Queue.thy ===== *)
theory Can_Queue
  imports Can_Types
begin

text \<open>
  The message queues of the CAN driver, \<^verbatim>\<open>components/can/src/queue.c\<close>: two ring buffers that
  share one allocation. The frames live in a pool of \<open>2 * sz\<close> slots, the transmit ring in the
  first half and the receive ring in the second (\<^verbatim>\<open>rxq->frames = txq->frames + size\<close>); a control
  block holds the offset of its ring in the pool, so the model can state that neither ring ever
  touches the other.

  The second part states what a bounded first-in first-out channel promises (locale
  \<open>bounded_fifo\<close>) and proves it for both queues; the interrupt handler and the RPC entry points
  of the driver rest on these interpretations.
\<close>

section \<open>Control blocks\<close>

record mq_cb =
  frames :: nat
  head :: nat
  tail :: nat
  qsize :: nat
  qlock :: bool

record mq_mem =
  pool :: "can_frame list"
  txq :: mq_cb
  rxq :: mq_cb

definition mq_is_full :: "mq_cb \<Rightarrow> bool option" where
  "mq_is_full cb = do {
     t \<leftarrow> c_mod (tail cb + 1) (qsize cb);
     Some (t = head cb)
   }"

definition mq_is_empty :: "mq_cb \<Rightarrow> bool" where
  "mq_is_empty cb \<longleftrightarrow> tail cb = head cb"

definition mq_append_msg ::
  "can_frame list \<Rightarrow> mq_cb \<Rightarrow> can_frame \<Rightarrow> (can_frame list \<times> mq_cb) option" where
  "mq_append_msg mem cb frame = do {
     mem \<leftarrow> array_set mem (frames cb + tail cb) frame;
     t \<leftarrow> c_mod (tail cb + 1) (qsize cb);
     Some (mem, cb\<lparr>tail := t\<rparr>)
   }"

definition mq_remove_msg :: "can_frame list \<Rightarrow> mq_cb \<Rightarrow> (can_frame \<times> mq_cb) option" where
  "mq_remove_msg mem cb = do {
     frame \<leftarrow> array_get mem (frames cb + head cb);
     h \<leftarrow> c_mod (head cb + 1) (qsize cb);
     Some (frame, cb\<lparr>head := h\<rparr>)
   }"

text \<open>
  \<open>mq_init sz got_cbs fresh\<close>: \<open>got_cbs\<close> says whether the first \<^verbatim>\<open>malloc\<close> gave the control
  blocks, \<open>fresh\<close> is the memory of the second (its contents are whatever the heap held, hence an
  argument). The result \<open>None\<close> in the pair of a failed allocation stands for control blocks that
  are null or freed: the function returns, but no queue can be used.
\<close>

definition mq_init :: "nat \<Rightarrow> bool \<Rightarrow> can_frame list option \<Rightarrow> mq_mem option" where
  "mq_init sz got_cbs fresh =
     (if \<not> got_cbs then None
      else case fresh of None \<Rightarrow> None
      | Some mem \<Rightarrow> Some
          \<lparr>pool = mem,
           txq = \<lparr>frames = 0, head = 0, tail = 0, qsize = sz, qlock = False\<rparr>,
           rxq = \<lparr>frames = sz, head = 0, tail = 0, qsize = sz, qlock = False\<rparr>\<rparr>)"

section \<open>The four queue operations\<close>

text \<open>Taking and releasing the spinlock of one control block.\<close>

definition cb_lock :: "mq_cb \<Rightarrow> mq_cb option" where
  "cb_lock cb = do { l \<leftarrow> lock_take (qlock cb); Some (cb\<lparr>qlock := l\<rparr>) }"

definition cb_unlock :: "mq_cb \<Rightarrow> mq_cb" where
  "cb_unlock cb = cb\<lparr>qlock := lock_release (qlock cb)\<rparr>"

definition tx_queue_push :: "can_frame \<Rightarrow> mq_mem \<Rightarrow> (int \<times> mq_mem) option" where
  "tx_queue_push frame m = do {
     full \<leftarrow> mq_is_full (txq m);
     if \<not> full then do {
       cb \<leftarrow> cb_lock (txq m);
       (mem, cb) \<leftarrow> mq_append_msg (pool m) cb frame;
       let cb = cb_unlock cb;
       Some (0, m\<lparr>pool := mem, txq := cb\<rparr>)
     } else Some (-1, m)
   }"

definition tx_queue_pop :: "mq_mem \<Rightarrow> (can_frame option \<times> mq_mem) option" where
  "tx_queue_pop m =
     (if \<not> mq_is_empty (txq m) then do {
        cb \<leftarrow> cb_lock (txq m);
        (frame, cb) \<leftarrow> mq_remove_msg (pool m) cb;
        let cb = cb_unlock cb;
        Some (Some frame, m\<lparr>txq := cb\<rparr>)
      } else Some (None, m))"

definition rx_queue_push :: "can_frame \<Rightarrow> mq_mem \<Rightarrow> (int \<times> mq_mem) option" where
  "rx_queue_push frame m = do {
     full \<leftarrow> mq_is_full (rxq m);
     if \<not> full then do {
       cb \<leftarrow> cb_lock (rxq m);
       (mem, cb) \<leftarrow> mq_append_msg (pool m) cb frame;
       let cb = cb_unlock cb;
       Some (0, m\<lparr>pool := mem, rxq := cb\<rparr>)
     } else Some (-1, m)
   }"

definition rx_queue_pop :: "mq_mem \<Rightarrow> (can_frame option \<times> mq_mem) option" where
  "rx_queue_pop m =
     (if \<not> mq_is_empty (rxq m) then do {
        cb \<leftarrow> cb_lock (rxq m);
        (frame, cb) \<leftarrow> mq_remove_msg (pool m) cb;
        let cb = cb_unlock cb;
        Some (Some frame, m\<lparr>rxq := cb\<rparr>)
      } else Some (None, m))"

section \<open>What a ring holds\<close>

definition mq_count :: "mq_cb \<Rightarrow> nat" where
  "mq_count cb = (if head cb \<le> tail cb then tail cb - head cb
                  else qsize cb - head cb + tail cb)"

definition mq_slot :: "mq_cb \<Rightarrow> nat \<Rightarrow> nat" where
  "mq_slot cb i = frames cb + (head cb + i) mod qsize cb"

definition mq_contents :: "can_frame list \<Rightarrow> mq_cb \<Rightarrow> can_frame list" where
  "mq_contents mem cb = map (\<lambda>i. mem ! mq_slot cb i) [0..<mq_count cb]"

definition cb_wf :: "can_frame list \<Rightarrow> mq_cb \<Rightarrow> bool" where
  "cb_wf mem cb \<longleftrightarrow> head cb < qsize cb \<and> tail cb < qsize cb \<and>
     frames cb + qsize cb \<le> length mem"

definition mq_wf :: "mq_mem \<Rightarrow> bool" where
  "mq_wf m \<longleftrightarrow> cb_wf (pool m) (txq m) \<and> cb_wf (pool m) (rxq m) \<and>
     frames (txq m) + qsize (txq m) \<le> frames (rxq m) \<and>
     \<not> qlock (txq m) \<and> \<not> qlock (rxq m)"

definition tx_contents :: "mq_mem \<Rightarrow> can_frame list" where
  "tx_contents m = mq_contents (pool m) (txq m)"

definition rx_contents :: "mq_mem \<Rightarrow> can_frame list" where
  "rx_contents m = mq_contents (pool m) (rxq m)"

text \<open>The sizes never change after \<open>mq_init\<close>.\<close>

definition tx_capacity :: "mq_mem \<Rightarrow> nat" where
  "tx_capacity m = qsize (txq m) - 1"

definition rx_capacity :: "mq_mem \<Rightarrow> nat" where
  "rx_capacity m = qsize (rxq m) - 1"

subsection \<open>One ring\<close>

lemma length_mq_contents [simp]: "length (mq_contents mem cb) = mq_count cb"
  by (simp add: mq_contents_def)

lemma mq_count_less: "cb_wf mem cb \<Longrightarrow> mq_count cb < qsize cb"
  by (auto simp: mq_count_def cb_wf_def)

lemma mq_slot_bounds:
  "cb_wf mem cb \<Longrightarrow> frames cb \<le> mq_slot cb i \<and> mq_slot cb i < frames cb + qsize cb"
  by (simp add: mq_slot_def cb_wf_def)

lemma mq_slot_count: "cb_wf mem cb \<Longrightarrow> mq_slot cb (mq_count cb) = frames cb + tail cb"
  by (auto simp: mq_slot_def mq_count_def cb_wf_def)

lemma mq_is_full_iff:
  "cb_wf mem cb \<Longrightarrow> mq_is_full cb = Some (mq_count cb = qsize cb - 1)"
  by (auto simp: mq_is_full_def mq_count_def cb_wf_def mod_Suc)

lemma mq_is_empty_iff: "cb_wf mem cb \<Longrightarrow> mq_is_empty cb \<longleftrightarrow> mq_count cb = 0"
  by (auto simp: mq_is_empty_def mq_count_def cb_wf_def)

lemma mq_count_append:
  "cb_wf mem cb \<Longrightarrow> mq_count cb \<noteq> qsize cb - 1 \<Longrightarrow>
   mq_count (cb\<lparr>tail := Suc (tail cb) mod qsize cb\<rparr>) = Suc (mq_count cb)"
  by (auto simp: mq_count_def cb_wf_def mod_Suc)

lemma mq_count_remove:
  "cb_wf mem cb \<Longrightarrow> mq_count cb = Suc n \<Longrightarrow>
   mq_count (cb\<lparr>head := Suc (head cb) mod qsize cb\<rparr>) = n"
  by (auto simp: mq_count_def cb_wf_def mod_Suc split: if_splits)

lemma mq_contents_outside:
  assumes "cb_wf mem cb" "i < frames cb \<or> frames cb + qsize cb \<le> i"
  shows "mq_contents (mem[i := x]) cb = mq_contents mem cb"
proof -
  have "i \<noteq> mq_slot cb k" for k
    using mq_slot_bounds [OF assms(1), of k] assms(2) by auto
  then show ?thesis
    by (simp add: mq_contents_def)
qed

lemma mq_contents_lock [simp]: "mq_contents mem (cb\<lparr>qlock := b\<rparr>) = mq_contents mem cb"
  by (simp add: mq_contents_def mq_slot_def mq_count_def)

lemma mq_contents_append:
  assumes wf: "cb_wf mem cb" and room: "mq_count cb \<noteq> qsize cb - 1"
  shows "mq_contents (mem[frames cb + tail cb := x]) (cb\<lparr>tail := Suc (tail cb) mod qsize cb\<rparr>)
         = mq_contents mem cb @ [x]"
proof -
  let ?cb = "cb\<lparr>tail := Suc (tail cb) mod qsize cb\<rparr>"
  let ?mem = "mem[frames cb + tail cb := x]"
  have slot [simp]: "mq_slot ?cb = mq_slot cb"
    by (simp add: mq_slot_def fun_eq_iff)
  have other: "frames cb + tail cb \<noteq> mq_slot cb i" if "i < mq_count cb" for i
    using that mq_slot_count [OF wf] mq_count_less [OF wf]
      mod_add_lt_inj [of i "qsize cb" "mq_count cb" "head cb"]
    by (auto simp: mq_slot_def)
  have "?mem ! mq_slot cb i = mem ! mq_slot cb i" if "i < mq_count cb" for i
    using other [OF that] by simp
  moreover have "?mem ! mq_slot cb (mq_count cb) = x"
    using wf by (simp add: mq_slot_count [OF wf]) (simp add: cb_wf_def)
  ultimately show ?thesis
    by (simp add: mq_contents_def mq_count_append [OF wf room])
qed

lemma mq_contents_remove:
  assumes wf: "cb_wf mem cb" and some: "mq_count cb = Suc n"
  shows "mq_contents mem cb =
         mem ! (frames cb + head cb) # mq_contents mem (cb\<lparr>head := Suc (head cb) mod qsize cb\<rparr>)"
proof -
  let ?cb = "cb\<lparr>head := Suc (head cb) mod qsize cb\<rparr>"
  have slot: "mq_slot ?cb i = mq_slot cb (Suc i)" for i
    by (simp add: mq_slot_def mod_add_left_eq)
  have "mq_slot cb 0 = frames cb + head cb"
    using wf by (simp add: mq_slot_def cb_wf_def)
  moreover have "[0..<mq_count cb] = 0 # map Suc [0..<n]"
    by (simp add: some map_Suc_upt upt_conv_Cons del: upt_Suc)
  ultimately show ?thesis
    by (simp add: mq_contents_def mq_count_remove [OF wf some] slot comp_def del: upt_Suc)
qed

section \<open>The four operations on the pair of rings\<close>

lemma tx_queue_push_room:
  assumes wf: "mq_wf m" and room: "length (tx_contents m) < tx_capacity m"
  shows "\<exists>m'. tx_queue_push f m = Some (0, m') \<and> mq_wf m' \<and>
     tx_contents m' = tx_contents m @ [f] \<and> rx_contents m' = rx_contents m \<and>
     tx_capacity m' = tx_capacity m \<and> rx_capacity m' = rx_capacity m"
proof -
  have tx: "cb_wf (pool m) (txq m)" and rx: "cb_wf (pool m) (rxq m)"
    using wf by (simp_all add: mq_wf_def)
  have cnt: "mq_count (txq m) \<noteq> qsize (txq m) - 1"
    using room by (simp add: tx_contents_def tx_capacity_def)
  have slot: "frames (txq m) + tail (txq m) < length (pool m)"
    using tx by (simp add: cb_wf_def)
  have apart: "frames (txq m) + tail (txq m) < frames (rxq m)"
    using wf by (simp add: mq_wf_def cb_wf_def)
  have q: "0 < qsize (txq m)"
    using tx by (simp add: cb_wf_def)
  show ?thesis
    using wf cnt slot q
    by (simp add: tx_queue_push_def mq_is_full_iff [OF tx] cb_lock_def cb_unlock_def
        mq_append_msg_def mq_wf_def tx_contents_def rx_contents_def tx_capacity_def
        rx_capacity_def mq_contents_append [OF tx cnt, simplified]
        mq_contents_outside [OF rx disjI1 [OF apart]])
      (simp add: cb_wf_def)
qed

lemma rx_queue_push_room:
  assumes wf: "mq_wf m" and room: "length (rx_contents m) < rx_capacity m"
  shows "\<exists>m'. rx_queue_push f m = Some (0, m') \<and> mq_wf m' \<and>
     rx_contents m' = rx_contents m @ [f] \<and> tx_contents m' = tx_contents m \<and>
     tx_capacity m' = tx_capacity m \<and> rx_capacity m' = rx_capacity m"
proof -
  have tx: "cb_wf (pool m) (txq m)" and rx: "cb_wf (pool m) (rxq m)"
    using wf by (simp_all add: mq_wf_def)
  have cnt: "mq_count (rxq m) \<noteq> qsize (rxq m) - 1"
    using room by (simp add: rx_contents_def rx_capacity_def)
  have slot: "frames (rxq m) + tail (rxq m) < length (pool m)"
    using rx by (simp add: cb_wf_def)
  have apart: "frames (txq m) + qsize (txq m) \<le> frames (rxq m) + tail (rxq m)"
    using wf by (simp add: mq_wf_def)
  have q: "0 < qsize (rxq m)"
    using rx by (simp add: cb_wf_def)
  show ?thesis
    using wf cnt slot q
    by (simp add: rx_queue_push_def mq_is_full_iff [OF rx] cb_lock_def cb_unlock_def
        mq_append_msg_def mq_wf_def tx_contents_def rx_contents_def tx_capacity_def
        rx_capacity_def mq_contents_append [OF rx cnt, simplified]
        mq_contents_outside [OF tx disjI2 [OF apart]])
      (simp add: cb_wf_def)
qed

lemma tx_queue_push_full:
  "mq_wf m \<Longrightarrow> tx_capacity m \<le> length (tx_contents m) \<Longrightarrow> tx_queue_push f m = Some (-1, m)"
  using mq_count_less [of "pool m" "txq m"]
  by (auto simp: tx_queue_push_def mq_is_full_iff [of "pool m"] mq_wf_def tx_contents_def
      tx_capacity_def)

lemma rx_queue_push_full:
  "mq_wf m \<Longrightarrow> rx_capacity m \<le> length (rx_contents m) \<Longrightarrow> rx_queue_push f m = Some (-1, m)"
  using mq_count_less [of "pool m" "rxq m"]
  by (auto simp: rx_queue_push_def mq_is_full_iff [of "pool m"] mq_wf_def rx_contents_def
      rx_capacity_def)

lemma tx_queue_pop_some:
  assumes wf: "mq_wf m" and some: "tx_contents m = f # fs"
  shows "\<exists>m'. tx_queue_pop m = Some (Some f, m') \<and> mq_wf m' \<and>
     tx_contents m' = fs \<and> rx_contents m' = rx_contents m \<and>
     tx_capacity m' = tx_capacity m \<and> rx_capacity m' = rx_capacity m"
proof -
  have tx: "cb_wf (pool m) (txq m)"
    using wf by (simp add: mq_wf_def)
  have cnt: "mq_count (txq m) = Suc (length fs)"
    using arg_cong [OF some, of length] by (simp add: tx_contents_def)
  have slot: "frames (txq m) + head (txq m) < length (pool m)" and q: "0 < qsize (txq m)"
    using tx by (simp_all add: cb_wf_def)
  show ?thesis
    using wf cnt slot q some
    by (simp add: tx_queue_pop_def mq_is_empty_iff [OF tx] cb_lock_def cb_unlock_def
        mq_remove_msg_def mq_wf_def tx_contents_def rx_contents_def tx_capacity_def
        rx_capacity_def mq_contents_remove [OF tx cnt, simplified])
      (simp add: cb_wf_def)
qed

lemma rx_queue_pop_some:
  assumes wf: "mq_wf m" and some: "rx_contents m = f # fs"
  shows "\<exists>m'. rx_queue_pop m = Some (Some f, m') \<and> mq_wf m' \<and>
     rx_contents m' = fs \<and> tx_contents m' = tx_contents m \<and>
     tx_capacity m' = tx_capacity m \<and> rx_capacity m' = rx_capacity m"
proof -
  have rx: "cb_wf (pool m) (rxq m)"
    using wf by (simp add: mq_wf_def)
  have cnt: "mq_count (rxq m) = Suc (length fs)"
    using arg_cong [OF some, of length] by (simp add: rx_contents_def)
  have slot: "frames (rxq m) + head (rxq m) < length (pool m)" and q: "0 < qsize (rxq m)"
    using rx by (simp_all add: cb_wf_def)
  show ?thesis
    using wf cnt slot q some
    by (simp add: rx_queue_pop_def mq_is_empty_iff [OF rx] cb_lock_def cb_unlock_def
        mq_remove_msg_def mq_wf_def tx_contents_def rx_contents_def tx_capacity_def
        rx_capacity_def mq_contents_remove [OF rx cnt, simplified])
      (simp add: cb_wf_def)
qed

lemma tx_queue_pop_none: "mq_wf m \<Longrightarrow> tx_contents m = [] \<Longrightarrow> tx_queue_pop m = Some (None, m)"
  using mq_is_empty_iff [of "pool m" "txq m"] length_mq_contents [of "pool m" "txq m"]
  by (auto simp: tx_queue_pop_def mq_wf_def tx_contents_def)

lemma rx_queue_pop_none: "mq_wf m \<Longrightarrow> rx_contents m = [] \<Longrightarrow> rx_queue_pop m = Some (None, m)"
  using mq_is_empty_iff [of "pool m" "rxq m"] length_mq_contents [of "pool m" "rxq m"]
  by (auto simp: rx_queue_pop_def mq_wf_def rx_contents_def)

lemma tx_contents_bounded: "mq_wf m \<Longrightarrow> length (tx_contents m) \<le> tx_capacity m"
  using mq_count_less [of "pool m" "txq m"]
  by (simp add: mq_wf_def tx_contents_def tx_capacity_def)

lemma rx_contents_bounded: "mq_wf m \<Longrightarrow> length (rx_contents m) \<le> rx_capacity m"
  using mq_count_less [of "pool m" "rxq m"]
  by (simp add: mq_wf_def rx_contents_def rx_capacity_def)

lemma mq_init_wf:
  assumes "0 < sz" "length mem = 2 * sz"
  shows "\<exists>m. mq_init sz True (Some mem) = Some m \<and> mq_wf m \<and> tx_contents m = [] \<and>
     rx_contents m = [] \<and> tx_capacity m = sz - 1 \<and> rx_capacity m = sz - 1"
  using assms
  by (simp add: mq_init_def mq_wf_def cb_wf_def tx_contents_def rx_contents_def
      tx_capacity_def rx_capacity_def mq_contents_def mq_count_def)

section \<open>The interface: bounded first-in first-out channels\<close>

text \<open>
  What the driver relies on: a push either appends or, when the channel is full, reports \<open>-1\<close> and
  changes nothing; a pop takes the oldest element or reports an empty channel; neither touches
  the \<open>rest\<close> of the state.
\<close>

datatype 'a chan_op = Push 'a | Pop
datatype 'a chan_res = Pushed int | Popped "'a option"

definition chan_step ::
  "('a \<Rightarrow> 'm \<Rightarrow> (int \<times> 'm) option) \<Rightarrow> ('m \<Rightarrow> ('a option \<times> 'm) option) \<Rightarrow>
   'a chan_op \<Rightarrow> 'm \<Rightarrow> ('a chan_res \<times> 'm) option" where
  "chan_step push pop x m =
     (case x of Push a \<Rightarrow> do { (r, m) \<leftarrow> push a m; Some (Pushed r, m) }
      | Pop \<Rightarrow> do { (r, m) \<leftarrow> pop m; Some (Popped r, m) })"

fun chan_spec :: "nat \<Rightarrow> 'a chan_op \<Rightarrow> 'a list \<Rightarrow> 'a chan_res \<times> 'a list" where
  "chan_spec c (Push a) xs = (if length xs < c then (Pushed 0, xs @ [a]) else (Pushed (-1), xs))"
| "chan_spec c Pop [] = (Popped None, [])"
| "chan_spec c Pop (x # xs) = (Popped (Some x), xs)"

text \<open>Elements that a run accepted, and elements that it handed out.\<close>

fun accepted :: "'a chan_op list \<Rightarrow> 'a chan_res list \<Rightarrow> 'a list" where
  "accepted (Push a # xs) (Pushed r # rs) = (if r = 0 then a # accepted xs rs else accepted xs rs)"
| "accepted (_ # xs) (_ # rs) = accepted xs rs"
| "accepted _ _ = []"

fun delivered :: "'a chan_res list \<Rightarrow> 'a list" where
  "delivered (Popped (Some a) # rs) = a # delivered rs"
| "delivered (_ # rs) = delivered rs"
| "delivered [] = []"

locale bounded_fifo =
  fixes push :: "'a \<Rightarrow> 'm \<Rightarrow> (int \<times> 'm) option"
    and pop :: "'m \<Rightarrow> ('a option \<times> 'm) option"
    and contents :: "'m \<Rightarrow> 'a list"
    and ok :: "'m \<Rightarrow> bool"
    and capacity :: "'m \<Rightarrow> nat"
    and rest :: "'m \<Rightarrow> 'r"
  assumes push_room: "ok m \<Longrightarrow> length (contents m) < capacity m \<Longrightarrow>
      \<exists>m'. push a m = Some (0, m') \<and> ok m' \<and> contents m' = contents m @ [a] \<and>
           capacity m' = capacity m \<and> rest m' = rest m"
    and push_full: "ok m \<Longrightarrow> capacity m \<le> length (contents m) \<Longrightarrow> push a m = Some (-1, m)"
    and pop_some: "ok m \<Longrightarrow> contents m = a # as \<Longrightarrow>
      \<exists>m'. pop m = Some (Some a, m') \<and> ok m' \<and> contents m' = as \<and>
           capacity m' = capacity m \<and> rest m' = rest m"
    and pop_none: "ok m \<Longrightarrow> contents m = [] \<Longrightarrow> pop m = Some (None, m)"
begin

lemma push_cases:
  assumes "ok m"
  obtains (room) m' where "length (contents m) < capacity m" "push a m = Some (0, m')" "ok m'"
      "contents m' = contents m @ [a]" "capacity m' = capacity m" "rest m' = rest m"
  | (full) "capacity m \<le> length (contents m)" "push a m = Some (-1, m)"
  using push_room [OF assms, of a] push_full [OF assms, of a] by (meson not_le)

lemma pop_cases:
  assumes "ok m"
  obtains (some) a as m' where "contents m = a # as" "pop m = Some (Some a, m')" "ok m'"
      "contents m' = as" "capacity m' = capacity m" "rest m' = rest m"
  | (none) "contents m = []" "pop m = Some (None, m)"
  using pop_some [OF assms] pop_none [OF assms] by (cases "contents m") blast+

lemma step_refines:
  assumes "ok m"
  shows "\<exists>m'. chan_step push pop x m = Some (fst (chan_spec (capacity m) x (contents m)), m') \<and>
     ok m' \<and> contents m' = snd (chan_spec (capacity m) x (contents m)) \<and>
     capacity m' = capacity m \<and> rest m' = rest m"
proof (cases x)
  case (Push a)
  with assms show ?thesis
    by (cases rule: push_cases [of m a]) (auto simp: chan_step_def assms)
next
  case Pop
  with assms show ?thesis
    by (cases rule: pop_cases [of m]) (auto simp: chan_step_def assms)
qed

lemma run_fifo:
  assumes "ok m"
  shows "\<exists>rs m'. run_ops (chan_step push pop) xs m = Some (rs, m') \<and> ok m' \<and>
     contents m @ accepted xs rs = delivered rs @ contents m' \<and>
     capacity m' = capacity m \<and> rest m' = rest m"
  using assms
proof (induction xs arbitrary: m)
  case Nil
  then show ?case by simp
next
  case (Cons x xs)
  obtain m1 where m1: "chan_step push pop x m = Some (fst (chan_spec (capacity m) x (contents m)), m1)"
      "ok m1" "contents m1 = snd (chan_spec (capacity m) x (contents m))"
      "capacity m1 = capacity m" "rest m1 = rest m"
    using step_refines [OF Cons.prems] by blast
  from Cons.IH [OF m1(2)] obtain rs m' where
    "run_ops (chan_step push pop) xs m1 = Some (rs, m')" "ok m'"
    "contents m1 @ accepted xs rs = delivered rs @ contents m'"
    "capacity m' = capacity m" "rest m' = rest m"
    using m1(4,5) by auto
  with m1 show ?case
    by (cases "(capacity m, x, contents m)" rule: chan_spec.cases) auto
qed

end

section \<open>Both queues are such channels\<close>

interpretation tx: bounded_fifo tx_queue_push tx_queue_pop tx_contents mq_wf tx_capacity
  "\<lambda>m. (rx_contents m, rx_capacity m)"
  by unfold_locales
    (metis tx_queue_push_room tx_queue_push_full tx_queue_pop_some tx_queue_pop_none)+

interpretation rx: bounded_fifo rx_queue_push rx_queue_pop rx_contents mq_wf rx_capacity
  "\<lambda>m. (tx_contents m, tx_capacity m)"
  by unfold_locales
    (metis rx_queue_push_room rx_queue_push_full rx_queue_pop_some rx_queue_pop_none)+

text \<open>The two channels together, as the driver uses them: operations on both, in any order.\<close>

datatype mq_op = TxOp "can_frame chan_op" | RxOp "can_frame chan_op"

fun mq_step :: "mq_op \<Rightarrow> mq_mem \<Rightarrow> (can_frame chan_res \<times> mq_mem) option" where
  "mq_step (TxOp x) m = chan_step tx_queue_push tx_queue_pop x m"
| "mq_step (RxOp x) m = chan_step rx_queue_push rx_queue_pop x m"

fun mq_spec :: "nat \<Rightarrow> mq_op \<Rightarrow> can_frame list \<times> can_frame list \<Rightarrow>
    can_frame chan_res \<times> can_frame list \<times> can_frame list" where
  "mq_spec c (TxOp x) (ts, rs) = (let (r, ts) = chan_spec c x ts in (r, ts, rs))"
| "mq_spec c (RxOp x) (ts, rs) = (let (r, rs) = chan_spec c x rs in (r, ts, rs))"

lemma mq_step_refines:
  assumes "mq_wf m" "tx_capacity m = c" "rx_capacity m = c"
  shows "\<exists>m'. mq_step x m = Some (fst (mq_spec c x (tx_contents m, rx_contents m)), m') \<and>
     (mq_wf m' \<and> tx_capacity m' = c \<and> rx_capacity m' = c) \<and>
     (tx_contents m', rx_contents m') = snd (mq_spec c x (tx_contents m, rx_contents m))"
proof (cases x)
  case (TxOp y)
  with tx.step_refines [OF assms(1), of y] assms show ?thesis
    by (auto simp: split_beta)
next
  case (RxOp y)
  with rx.step_refines [OF assms(1), of y] assms show ?thesis
    by (auto simp: split_beta)
qed

lemmas mq_run_refines =
  run_ops_refines [where step = mq_step and abstr = "\<lambda>m. (tx_contents m, rx_contents m)"
    and I = "\<lambda>m. mq_wf m \<and> tx_capacity m = c \<and> rx_capacity m = c" and astep = "mq_spec c" for c]

text \<open>
  C1: after \<^verbatim>\<open>mq_init(size)\<close>, any sequence of pushes and pops on the two queues returns what a
  pair of bounded lists of capacity \<^verbatim>\<open>size - 1\<close> returns, and leaves the rings holding exactly
  those lists: order is kept, a full queue refuses with -1 and loses nothing, and the rings, which
  share one allocation, never disturb each other. No operation accesses memory out of bounds or
  waits on its own lock.
\<close>

theorem mq_refines_bounded_lists:
  assumes "0 < sz" and "length mem = 2 * sz" and "mq_init sz True (Some mem) = Some m"
  shows "\<exists>m'. run_ops mq_step xs m = Some (fst (spec_run (mq_spec (sz - 1)) xs ([], [])), m') \<and>
     (tx_contents m', rx_contents m') = snd (spec_run (mq_spec (sz - 1)) xs ([], []))"
proof -
  have m: "mq_wf m" "tx_contents m = []" "rx_contents m = []"
      "tx_capacity m = sz - 1" "rx_capacity m = sz - 1"
    using mq_init_wf [OF assms(1,2)] assms(3) by auto
  have "\<exists>m'. run_ops mq_step xs m =
        Some (fst (spec_run (mq_spec (sz - 1)) xs (tx_contents m, rx_contents m)), m') \<and>
      (mq_wf m' \<and> tx_capacity m' = sz - 1 \<and> rx_capacity m' = sz - 1) \<and>
      (tx_contents m', rx_contents m') =
        snd (spec_run (mq_spec (sz - 1)) xs (tx_contents m, rx_contents m))"
    by (rule mq_run_refines) (use mq_step_refines m in \<open>auto\<close>)
  then show ?thesis
    by (simp only: m(2,3)) blast
qed

text \<open>Two rings of two slots: each holds one frame, the second push is refused.\<close>

definition sample_frame :: "u8 \<Rightarrow> can_frame" where
  "sample_frame n = \<lparr>ident = \<lparr>id_num = ucast n, exide = 0, rtr = 0, err = 0\<rparr>, prio = 0, dlc = 1,
     payload = [n, 0, 0, 0, 0, 0, 0, 0]\<rparr>"

definition sample_mq :: mq_mem where
  "sample_mq = \<lparr>pool = replicate 4 (sample_frame 0),
     txq = \<lparr>frames = 0, head = 0, tail = 0, qsize = 2, qlock = False\<rparr>,
     rxq = \<lparr>frames = 2, head = 0, tail = 0, qsize = 2, qlock = False\<rparr>\<rparr>"

lemma sample_mq_init: "mq_init 2 True (Some (replicate 4 (sample_frame 0))) = Some sample_mq"
  by (simp add: mq_init_def sample_mq_def)

theorem mq_refines_bounded_lists_witness:
  "\<exists>m'. run_ops mq_step [TxOp (Push (sample_frame 1)), TxOp (Push (sample_frame 2)),
           RxOp Pop, TxOp Pop, TxOp Pop] sample_mq =
     Some ([Pushed 0, Pushed (-1), Popped None, Popped (Some (sample_frame 1)), Popped None], m') \<and>
     (tx_contents m', rx_contents m') = ([], [])"
  using mq_refines_bounded_lists [OF _ _ sample_mq_init, of
      "[TxOp (Push (sample_frame 1)), TxOp (Push (sample_frame 2)), RxOp Pop, TxOp Pop, TxOp Pop]"]
  by simp

end
