(* ===== verification/Spi_Cmd.thy ===== *)
theory Spi_Cmd
  imports Can_Types
begin

text \<open>
  The SPI instruction set of the MCP2515 controller, \<^verbatim>\<open>components/can/src/spi_cmd.c\<close>. Each command
  fills the transmit buffer of the shared dataport under \<open>spi_lock\<close>, calls \<^verbatim>\<open>spi_transfer\<close> and picks
  its answer out of the receive buffer. \<^verbatim>\<open>spi_transfer\<close> is the RPC to the SPI component: the
  \<open>bus\<close> argument stands for it and for the controller behind it, whose state is \<open>dev\<close>. It gets the
  application id, the bytes clocked out and the number of further bytes clocked in, and returns
  the bytes that the transfer puts at the start of the receive buffer.

  The lemmas reduce every command to the one transaction it makes: the bytes sent, and which
  received byte is its result.
\<close>

section \<open>The dataport\<close>

record 'd spi_port =
  txbuf :: "u8 list"
  rxbuf :: "u8 list"
  spi_lock :: bool
  dev :: 'd

type_synonym 'd bus = "int \<Rightarrow> u8 list \<Rightarrow> nat \<Rightarrow> 'd \<Rightarrow> u8 list \<times> 'd"

definition spi_lock_lock :: "('d, 'm) spi_port_scheme \<Rightarrow> ('d, 'm) spi_port_scheme option" where
  "spi_lock_lock s = do { l \<leftarrow> lock_take (spi_lock s); Some (s\<lparr>spi_lock := l\<rparr>) }"

definition spi_lock_unlock :: "('d, 'm) spi_port_scheme \<Rightarrow> ('d, 'm) spi_port_scheme" where
  "spi_lock_unlock s = s\<lparr>spi_lock := lock_release (spi_lock s)\<rparr>"

definition tx_put :: "nat \<Rightarrow> u8 \<Rightarrow> ('d, 'm) spi_port_scheme \<Rightarrow> ('d, 'm) spi_port_scheme option" where
  "tx_put i v s = do { b \<leftarrow> array_set (txbuf s) i v; Some (s\<lparr>txbuf := b\<rparr>) }"

definition spi_transfer ::
  "'d bus \<Rightarrow> int \<Rightarrow> nat \<Rightarrow> nat \<Rightarrow> ('d, 'm) spi_port_scheme \<Rightarrow> ('d, 'm) spi_port_scheme" where
  "spi_transfer bus app w r s =
     (let (ins, d) = bus app (take w (txbuf s)) r (dev s)
      in s\<lparr>rxbuf := take SPI_TRANS_MAX_SIZE (ins @ drop (length ins) (rxbuf s)), dev := d\<rparr>)"

section \<open>Instructions\<close>

abbreviation (input) CMD_RESET :: u8 where "CMD_RESET \<equiv> 0xC0"
abbreviation (input) CMD_READ :: u8 where "CMD_READ \<equiv> 0x03"
abbreviation (input) CMD_READ_RXB :: u8 where "CMD_READ_RXB \<equiv> 0x90"
abbreviation (input) CMD_WRITE :: u8 where "CMD_WRITE \<equiv> 0x02"
abbreviation (input) CMD_LOAD_TXB :: u8 where "CMD_LOAD_TXB \<equiv> 0x40"
abbreviation (input) CMD_RTS :: u8 where "CMD_RTS \<equiv> 0x80"
abbreviation (input) CMD_READ_STATUS :: u8 where "CMD_READ_STATUS \<equiv> 0xA0"
abbreviation (input) CMD_RX_STATUS :: u8 where "CMD_RX_STATUS \<equiv> 0xB0"
abbreviation (input) CMD_BIT_MODIFY :: u8 where "CMD_BIT_MODIFY \<equiv> 0x05"

abbreviation (input) DEV_ID :: int where "DEV_ID \<equiv> CAN_APP_ID"

definition mcp2515_reset :: "'d bus \<Rightarrow> ('d, 'm) spi_port_scheme \<Rightarrow> ('d, 'm) spi_port_scheme option" where
  "mcp2515_reset bus s = do {
     s \<leftarrow> spi_lock_lock s;
     s \<leftarrow> tx_put 0 CMD_RESET s;
     let s = spi_transfer bus DEV_ID 1 0 s;
     Some (spi_lock_unlock s)
   }"

definition mcp2515_read_reg ::
  "'d bus \<Rightarrow> u8 \<Rightarrow> ('d, 'm) spi_port_scheme \<Rightarrow> (u8 \<times> ('d, 'm) spi_port_scheme) option" where
  "mcp2515_read_reg bus reg s = do {
     s \<leftarrow> spi_lock_lock s;
     s \<leftarrow> tx_put 0 CMD_READ s;
     s \<leftarrow> tx_put 1 reg s;
     let s = spi_transfer bus DEV_ID 2 1 s;
     ret \<leftarrow> array_get (rxbuf s) 2;
     Some (ret, spi_lock_unlock s)
   }"

text \<open>
  The callers of the two multi-register commands pass local arrays, so their null tests never
  fire; \<open>buf\<close> is the array the answer is copied into.
\<close>

definition mcp2515_read_nregs ::
  "'d bus \<Rightarrow> u8 \<Rightarrow> nat \<Rightarrow> u8 list \<Rightarrow> ('d, 'm) spi_port_scheme \<Rightarrow>
   (u8 list \<times> ('d, 'm) spi_port_scheme) option" where
  "mcp2515_read_nregs bus reg count buf s = do {
     s \<leftarrow> spi_lock_lock s;
     s \<leftarrow> tx_put 0 CMD_READ s;
     s \<leftarrow> tx_put 1 reg s;
     let s = spi_transfer bus DEV_ID 2 count s;
     buf \<leftarrow> memcpy buf 0 (drop 2 (rxbuf s)) count;
     Some (buf, spi_lock_unlock s)
   }"

definition mcp2515_write_reg ::
  "'d bus \<Rightarrow> u8 \<Rightarrow> u8 \<Rightarrow> ('d, 'm) spi_port_scheme \<Rightarrow> ('d, 'm) spi_port_scheme option" where
  "mcp2515_write_reg bus reg val s = do {
     s \<leftarrow> spi_lock_lock s;
     s \<leftarrow> tx_put 0 CMD_WRITE s;
     s \<leftarrow> tx_put 1 reg s;
     s \<leftarrow> tx_put 2 val s;
     let s = spi_transfer bus DEV_ID 3 0 s;
     Some (spi_lock_unlock s)
   }"

definition mcp2515_write_nregs ::
  "'d bus \<Rightarrow> u8 \<Rightarrow> u8 list \<Rightarrow> nat \<Rightarrow> ('d, 'm) spi_port_scheme \<Rightarrow> ('d, 'm) spi_port_scheme option" where
  "mcp2515_write_nregs bus reg buf count s = do {
     s \<leftarrow> spi_lock_lock s;
     s \<leftarrow> tx_put 0 CMD_WRITE s;
     s \<leftarrow> tx_put 1 reg s;
     b \<leftarrow> memcpy (txbuf s) 2 buf count;
     let s = spi_transfer bus DEV_ID (2 + count) 0 (s\<lparr>txbuf := b\<rparr>);
     Some (spi_lock_unlock s)
   }"

definition mcp2515_bit_modify ::
  "'d bus \<Rightarrow> u8 \<Rightarrow> u8 \<Rightarrow> u8 \<Rightarrow> ('d, 'm) spi_port_scheme \<Rightarrow> ('d, 'm) spi_port_scheme option" where
  "mcp2515_bit_modify bus reg msk val s = do {
     s \<leftarrow> spi_lock_lock s;
     s \<leftarrow> tx_put 0 CMD_BIT_MODIFY s;
     s \<leftarrow> tx_put 1 reg s;
     s \<leftarrow> tx_put 2 msk s;
     s \<leftarrow> tx_put 3 val s;
     let s = spi_transfer bus DEV_ID 4 0 s;
     Some (spi_lock_unlock s)
   }"

definition mcp2515_read_status ::
  "'d bus \<Rightarrow> ('d, 'm) spi_port_scheme \<Rightarrow> (u8 \<times> ('d, 'm) spi_port_scheme) option" where
  "mcp2515_read_status bus s = do {
     s \<leftarrow> spi_lock_lock s;
     s \<leftarrow> tx_put 0 CMD_READ_STATUS s;
     let s = spi_transfer bus DEV_ID 1 1 s;
     ret \<leftarrow> array_get (rxbuf s) 1;
     Some (ret, spi_lock_unlock s)
   }"

definition mcp2515_rx_status ::
  "'d bus \<Rightarrow> ('d, 'm) spi_port_scheme \<Rightarrow> (u8 \<times> ('d, 'm) spi_port_scheme) option" where
  "mcp2515_rx_status bus s = do {
     s \<leftarrow> spi_lock_lock s;
     s \<leftarrow> tx_put 0 CMD_RX_STATUS s;
     let s = spi_transfer bus DEV_ID 1 1 s;
     ret \<leftarrow> array_get (rxbuf s) 1;
     Some (ret, spi_lock_unlock s)
   }"

definition mcp2515_rts ::
  "'d bus \<Rightarrow> u8 \<Rightarrow> ('d, 'm) spi_port_scheme \<Rightarrow> ('d, 'm) spi_port_scheme option" where
  "mcp2515_rts bus msk s = do {
     s \<leftarrow> spi_lock_lock s;
     s \<leftarrow> tx_put 0 (CMD_RTS OR msk) s;
     let s = spi_transfer bus DEV_ID 1 0 s;
     Some (spi_lock_unlock s)
   }"

definition mcp2515_load_txb ::
  "'d bus \<Rightarrow> u8 list \<Rightarrow> u8 \<Rightarrow> u8 \<Rightarrow> u8 \<Rightarrow> ('d, 'm) spi_port_scheme \<Rightarrow>
   ('d, 'm) spi_port_scheme option" where
  "mcp2515_load_txb bus buf len idx flag s = do {
     let msk = (idx * 2) OR flag;
     s \<leftarrow> spi_lock_lock s;
     s \<leftarrow> tx_put 0 (CMD_LOAD_TXB OR msk) s;
     b \<leftarrow> memcpy (txbuf s) 1 buf (unat len);
     let s = spi_transfer bus DEV_ID (unat len + 1) 0 (s\<lparr>txbuf := b\<rparr>);
     Some (spi_lock_unlock s)
   }"

text \<open>The arguments \<open>idx\<close> and \<open>flag\<close> are there in the source, and unused there.\<close>

definition mcp2515_read_rxb ::
  "'d bus \<Rightarrow> u8 list \<Rightarrow> u8 \<Rightarrow> u8 \<Rightarrow> u8 \<Rightarrow> ('d, 'm) spi_port_scheme \<Rightarrow>
   (u8 list \<times> ('d, 'm) spi_port_scheme) option" where
  "mcp2515_read_rxb bus buf len idx flag s = do {
     let msk = 0;
     s \<leftarrow> spi_lock_lock s;
     s \<leftarrow> tx_put 0 (CMD_READ_RXB OR msk) s;
     let s = spi_transfer bus DEV_ID 1 (unat len) s;
     buf \<leftarrow> memcpy buf 0 (drop 1 (rxbuf s)) (unat len);
     Some (buf, spi_lock_unlock s)
   }"

section \<open>Each command is one transaction\<close>

definition port_wf :: "('d, 'm) spi_port_scheme \<Rightarrow> bool" where
  "port_wf s \<longleftrightarrow> length (txbuf s) = SPI_TRANS_MAX_SIZE \<and> length (rxbuf s) = SPI_TRANS_MAX_SIZE \<and>
     \<not> spi_lock s"

text \<open>
  \<open>moved s d s'\<close>: from \<open>s\<close> to \<open>s'\<close> the device went to state \<open>d\<close>, the lock is free again, and
  nothing but the transfer buffers changed besides.
\<close>

definition moved :: "('d, 'm) spi_port_scheme \<Rightarrow> 'd \<Rightarrow> ('d, 'm) spi_port_scheme \<Rightarrow> bool" where
  "moved s d s' \<longleftrightarrow> port_wf s' \<and> dev s' = d \<and> spi_port.more s' = spi_port.more s"

text \<open>
  What the code relies on of \<^verbatim>\<open>spi_transfer\<close>: the transfer is full duplex, so the bytes received are
  as many as the bytes clocked (the code reads its answer behind the bytes it sent).
\<close>

definition full_duplex :: "'d bus \<Rightarrow> bool" where
  "full_duplex bus \<longleftrightarrow> (\<forall>app out r d. length (fst (bus app out r d)) = length out + r)"

definition sends :: "'d bus \<Rightarrow> u8 list \<Rightarrow> nat \<Rightarrow> 'd \<Rightarrow> 'd" where
  "sends bus out r d = snd (bus DEV_ID out r d)"

definition answer :: "'d bus \<Rightarrow> u8 list \<Rightarrow> nat \<Rightarrow> 'd \<Rightarrow> u8 list" where
  "answer bus out r d = drop (length out) (fst (bus DEV_ID out r d))"

lemma length_answer: "full_duplex bus \<Longrightarrow> length (answer bus out r d) = r"
  by (simp add: answer_def full_duplex_def)

lemma movedD [dest]: "moved s d s' \<Longrightarrow> port_wf s'"
  by (simp add: moved_def)

lemma moved_dev: "moved s d s' \<Longrightarrow> dev s' = d"
  by (simp add: moved_def)

lemma moved_refl: "port_wf s \<Longrightarrow> moved s (dev s) s"
  by (simp add: moved_def)

lemma moved_trans: "moved s d s' \<Longrightarrow> moved s' d' s'' \<Longrightarrow> moved s d' s''"
  by (simp add: moved_def)

lemma tx_put_in: "i < length (txbuf s) \<Longrightarrow> tx_put i v s = Some (s\<lparr>txbuf := (txbuf s)[i := v]\<rparr>)"
  by (simp add: tx_put_def)

lemma take_rxbuf:
  assumes "full_duplex bus" "length out + r \<le> 255" "length rb = 255"
  shows "take 255 (fst (bus app out r d) @ drop (length (fst (bus app out r d))) rb)
       = fst (bus app out r d) @ drop (length out + r) rb"
  using assms by (simp add: full_duplex_def)

lemmas cmd_defs = spi_lock_lock_def spi_lock_unlock_def spi_transfer_def tx_put_def
  port_wf_def moved_def sends_def answer_def split_beta

text \<open>The first bytes of the transmit buffer after the command has filled them in.\<close>

lemma take_filled [simp]:
  "1 \<le> length b \<Longrightarrow> take (Suc 0) (b[0 := x0]) = [x0]"
  "2 \<le> length b \<Longrightarrow> take 2 (b[0 := x0, Suc 0 := x1]) = [x0, x1]"
  "3 \<le> length b \<Longrightarrow> take 3 (b[0 := x0, Suc 0 := x1, 2 := x2]) = [x0, x1, x2]"
  "4 \<le> length b \<Longrightarrow> take 4 (b[0 := x0, Suc 0 := x1, 2 := x2, 3 := x3]) = [x0, x1, x2, x3]"
  by (cases b; simp; cases "tl b"; simp; cases "tl (tl b)"; simp; cases "tl (tl (tl b))";
      simp add: take_Suc numeral_nat)+

lemma reset_wp [wp]:
  assumes "port_wf s" "\<And>s'. moved s (sends bus [CMD_RESET] 0 (dev s)) s' \<Longrightarrow> P s'"
  shows "ok (mcp2515_reset bus s) P"
  using assms by (simp add: mcp2515_reset_def cmd_defs)

lemma write_reg_wp [wp]:
  assumes "port_wf s" "\<And>s'. moved s (sends bus [CMD_WRITE, r, v] 0 (dev s)) s' \<Longrightarrow> P s'"
  shows "ok (mcp2515_write_reg bus r v s) P"
  using assms by (simp add: mcp2515_write_reg_def cmd_defs)

lemma bit_modify_wp [wp]:
  assumes "port_wf s" "\<And>s'. moved s (sends bus [CMD_BIT_MODIFY, r, m, v] 0 (dev s)) s' \<Longrightarrow> P s'"
  shows "ok (mcp2515_bit_modify bus r m v s) P"
  using assms by (simp add: mcp2515_bit_modify_def cmd_defs)

lemma rts_wp [wp]:
  assumes "port_wf s" "\<And>s'. moved s (sends bus [CMD_RTS OR m] 0 (dev s)) s' \<Longrightarrow> P s'"
  shows "ok (mcp2515_rts bus m s) P"
  using assms by (simp add: mcp2515_rts_def cmd_defs)

text \<open>The receive buffer after a transfer: the bytes received, then what was there before.\<close>

lemma spi_transfer_rxbuf:
  assumes "full_duplex bus" "length rb = 255" "length out + r \<le> 255"
  shows "take 255 (fst (bus app out r d) @ drop (length (fst (bus app out r d))) rb) =
         take (length out) (fst (bus app out r d)) @ drop (length out) (fst (bus app out r d)) @
         drop (length out + r) rb"
  using take_rxbuf [OF assms(1,3,2)] by (simp add: append.assoc [symmetric] del: append.assoc)

lemma read_reg_wp [wp]:
  assumes "port_wf s" "full_duplex bus"
    "\<And>s'. moved s (sends bus [CMD_READ, r] 1 (dev s)) s' \<Longrightarrow> P (answer bus [CMD_READ, r] 1 (dev s) ! 0, s')"
  shows "ok (mcp2515_read_reg bus r s) P"
proof -
  let ?in = "fst (bus 1 [CMD_READ, r] 1 (dev s))"
  have len: "length ?in = 3"
    using assms(2) by (simp add: full_duplex_def)
  have "?in ! 2 = answer bus [CMD_READ, r] 1 (dev s) ! 0"
    using len by (simp add: answer_def numeral_2_eq_2)
  with assms len show ?thesis
    by (simp add: mcp2515_read_reg_def cmd_defs nth_append)
qed

lemma read_nregs_wp [wp]:
  assumes "port_wf s" "full_duplex bus" "length b = n" "n \<le> 253"
    "\<And>s'. moved s (sends bus [CMD_READ, r] n (dev s)) s' \<Longrightarrow> P (answer bus [CMD_READ, r] n (dev s), s')"
  shows "ok (mcp2515_read_nregs bus r n b s) P"
proof -
  let ?in = "fst (bus 1 [CMD_READ, r] n (dev s))"
  have len: "length ?in = n + 2"
    using assms(2) by (simp add: full_duplex_def)
  have "take n (drop 2 (take 255 (?in @ drop (length ?in) (rxbuf s)))) = drop 2 ?in"
    using len assms(4) by simp
  moreover have "answer bus [CMD_READ, r] n (dev s) = drop 2 ?in"
    by (simp add: answer_def numeral_2_eq_2)
  ultimately show ?thesis
    using assms(1,3,4) len assms(5) [unfolded \<open>answer bus _ n _ = _\<close>]
    by (simp add: mcp2515_read_nregs_def cmd_defs)
qed

lemma read_rxb_wp [wp]:
  assumes "port_wf s" "full_duplex bus" "length b = unat n" "unat n \<le> 254"
    "\<And>s'. moved s (sends bus [CMD_READ_RXB] (unat n) (dev s)) s' \<Longrightarrow>
          P (answer bus [CMD_READ_RXB] (unat n) (dev s), s')"
  shows "ok (mcp2515_read_rxb bus b n idx flag s) P"
proof -
  let ?in = "fst (bus 1 [CMD_READ_RXB] (unat n) (dev s))"
  have len: "length ?in = unat n + 1"
    using assms(2) by (simp add: full_duplex_def)
  have "take (unat n) (drop (Suc 0) (take 255 (?in @ drop (length ?in) (rxbuf s)))) = drop (Suc 0) ?in"
    using len assms(4) by simp
  with assms len show ?thesis
    by (simp add: mcp2515_read_rxb_def cmd_defs)
qed

lemma status_wp [wp]:
  assumes "port_wf s" "full_duplex bus"
  shows "(\<And>s'. moved s (sends bus [CMD_READ_STATUS] 1 (dev s)) s' \<Longrightarrow>
      P (answer bus [CMD_READ_STATUS] 1 (dev s) ! 0, s')) \<Longrightarrow> ok (mcp2515_read_status bus s) P"
    and "(\<And>s'. moved s (sends bus [CMD_RX_STATUS] 1 (dev s)) s' \<Longrightarrow>
      P (answer bus [CMD_RX_STATUS] 1 (dev s) ! 0, s')) \<Longrightarrow> ok (mcp2515_rx_status bus s) P"
proof -
  have len: "length (fst (bus 1 [c] 1 (dev s))) = 2" for c
    using assms(2) by (simp add: full_duplex_def)
  have "fst (bus 1 [c] 1 (dev s)) ! 1 = answer bus [c] 1 (dev s) ! 0" for c
    using len [of c] by (simp add: answer_def)
  with assms len
  show "(\<And>s'. moved s (sends bus [CMD_READ_STATUS] 1 (dev s)) s' \<Longrightarrow>
      P (answer bus [CMD_READ_STATUS] 1 (dev s) ! 0, s')) \<Longrightarrow> ok (mcp2515_read_status bus s) P"
    and "(\<And>s'. moved s (sends bus [CMD_RX_STATUS] 1 (dev s)) s' \<Longrightarrow>
      P (answer bus [CMD_RX_STATUS] 1 (dev s) ! 0, s')) \<Longrightarrow> ok (mcp2515_rx_status bus s) P"
    by (simp_all add: mcp2515_read_status_def mcp2515_rx_status_def cmd_defs nth_append)
qed

lemma write_nregs_wp [wp]:
  assumes "port_wf s" "n \<le> length b" "n \<le> 253"
    "\<And>s'. moved s (sends bus (CMD_WRITE # r # take n b) 0 (dev s)) s' \<Longrightarrow> P s'"
  shows "ok (mcp2515_write_nregs bus r b n s) P"
proof -
  have "take (2 + n) (take 2 ((txbuf s)[0 := CMD_WRITE, Suc 0 := r]) @ take n b @ x) =
      CMD_WRITE # r # take n b" for x
    using assms(1,2) by (simp add: port_wf_def)
  with assms show ?thesis
    by (simp add: mcp2515_write_nregs_def cmd_defs)
qed

lemma load_txb_wp [wp]:
  assumes "port_wf s" "unat n \<le> length b" "unat n \<le> 254"
    "\<And>s'. moved s (sends bus ((CMD_LOAD_TXB OR (idx * 2 OR flag)) # take (unat n) b) 0 (dev s)) s' \<Longrightarrow> P s'"
  shows "ok (mcp2515_load_txb bus b n idx flag s) P"
proof -
  have "take (Suc (unat n)) (take (Suc 0) ((txbuf s)[0 := c]) @ take (unat n) b @ x) =
      c # take (unat n) b" for x c
    using assms(1,2) by (simp add: port_wf_def)
  with assms show ?thesis
    by (simp add: mcp2515_load_txb_def cmd_defs)
qed

section \<open>A bus that records\<close>

text \<open>
  The concrete bus of the closed examples: it records the bytes of every transaction and answers
  with the bytes of a given list, which it uses up, or with zeros.
\<close>

record bench =
  sent_cmds :: "u8 list list"
  replies :: "u8 list list"

definition bench_bus :: "bench bus" where
  "bench_bus app out r d =
     (let a = (case replies d of [] \<Rightarrow> [] | x # _ \<Rightarrow> x)
      in (replicate (length out) 0 @ take r (a @ replicate r 0),
          \<lparr>sent_cmds = sent_cmds d @ [out], replies = (if r = 0 then replies d else tl (replies d))\<rparr>))"

lemma bench_full_duplex: "full_duplex bench_bus"
  by (auto simp: full_duplex_def bench_bus_def Let_def)

lemma bench_sends [simp]:
  "sends bench_bus out 0 d = d\<lparr>sent_cmds := sent_cmds d @ [out]\<rparr>"
  by (cases d) (simp add: sends_def bench_bus_def Let_def)

definition bench_port :: "u8 list list \<Rightarrow> bench spi_port" where
  "bench_port rs = \<lparr>txbuf = replicate 255 0, rxbuf = replicate 255 0, spi_lock = False,
     dev = \<lparr>sent_cmds = [], replies = rs\<rparr>\<rparr>"

end
