(* ===== verification/Can_State.thy ===== *)
theory Can_State
  imports Can_Queue Spi_Cmd
begin

text \<open>
  The state of the CAN component: the dataport and lock of \<^verbatim>\<open>spi_cmd.c\<close> extended with the static
  variables of \<^verbatim>\<open>prio.c\<close>, \<^verbatim>\<open>irq.c\<close> and \<^verbatim>\<open>queue.c\<close>, the semaphore that \<^verbatim>\<open>can_recv\<close> waits on, and a
  log of the notifications emitted to other components. Then the register map of the controller,
  \<^verbatim>\<open>components/can/include/mcp2515.h\<close>.
\<close>

record canid_cache =
  canid :: "29 word"
  cexide :: "1 word"
  priority :: "2 word"

datatype can_event = Txb_Ack nat | Int_Reg_Callback | Int_Ack

record 'd can_state = "'d spi_port" +
  txb_cache :: "canid_cache list"
  queues :: "mq_mem option"
  xmit_stopped :: u8
  txb_lock :: bool
  queue_sem :: nat
  emitted :: "can_event list"

lemma moved_fields [frame_simps]:
  fixes s :: "'d can_state"
  assumes "moved s d s'"
  shows "txb_cache s' = txb_cache s" "queues s' = queues s" "xmit_stopped s' = xmit_stopped s"
    "txb_lock s' = txb_lock s" "queue_sem s' = queue_sem s" "emitted s' = emitted s"
  using assms by (cases s; cases s'; simp add: moved_def)+

lemma port_wf_fields [simp]:
  fixes s :: "'d can_state"
  shows "port_wf (s\<lparr>txb_cache := c\<rparr>) = port_wf s" "port_wf (s\<lparr>queues := q\<rparr>) = port_wf s"
    "port_wf (s\<lparr>xmit_stopped := x\<rparr>) = port_wf s" "port_wf (s\<lparr>txb_lock := l\<rparr>) = port_wf s"
    "port_wf (s\<lparr>queue_sem := n\<rparr>) = port_wf s" "port_wf (s\<lparr>emitted := e\<rparr>) = port_wf s"
  by (simp_all add: port_wf_def)

section \<open>Registers\<close>

definition TXBCTRL :: "nat \<Rightarrow> u8" where
  "TXBCTRL n = push_bit 4 (of_nat n + 3)"

abbreviation (input) TXBCTRL_ABTF :: u8 where "TXBCTRL_ABTF \<equiv> BIT 6"
abbreviation (input) TXBCTRL_MLOA :: u8 where "TXBCTRL_MLOA \<equiv> BIT 5"
abbreviation (input) TXBCTRL_TXERR :: u8 where "TXBCTRL_TXERR \<equiv> BIT 4"
abbreviation (input) TXBCTRL_TXREQ :: u8 where "TXBCTRL_TXREQ \<equiv> BIT 3"
abbreviation (input) TXBCTRL_TXP_MASK :: u8 where "TXBCTRL_TXP_MASK \<equiv> 0x3"

definition RXBCTRL :: "nat \<Rightarrow> u8" where
  "RXBCTRL n = push_bit 4 (of_nat n + 6)"

abbreviation (input) RXBCTRL_RXM_MASK :: u8 where "RXBCTRL_RXM_MASK \<equiv> 0x60"
abbreviation (input) RXBCTRL_RXM_SHF :: nat where "RXBCTRL_RXM_SHF \<equiv> 5"
abbreviation (input) RXBCTRL_BUKT :: u8 where "RXBCTRL_BUKT \<equiv> BIT 2"

text \<open>Acceptance filters 0 to 5 and masks 0 and 1: the address of the first of four registers.\<close>

definition RXFSIDH :: "nat \<Rightarrow> u8" where
  "RXFSIDH n = push_bit 2 (of_nat n)"

definition RXMSIDH :: "nat \<Rightarrow> u8" where
  "RXMSIDH n = push_bit 2 (of_nat n) + 0x20"

abbreviation (input) CANSTAT :: u8 where "CANSTAT \<equiv> 0xE"
abbreviation (input) CANCTRL :: u8 where "CANCTRL \<equiv> 0xF"
abbreviation (input) CANINTE :: u8 where "CANINTE \<equiv> 0x2B"
abbreviation (input) CANINTF :: u8 where "CANINTF \<equiv> 0x2C"
abbreviation (input) CANSTAT_OPMOD_SHF :: nat where "CANSTAT_OPMOD_SHF \<equiv> 5"
abbreviation (input) CANCTRL_REQOP_MASK :: u8 where "CANCTRL_REQOP_MASK \<equiv> 0xE0"
abbreviation (input) CANCTRL_REQOP_SHF :: nat where "CANCTRL_REQOP_SHF \<equiv> 5"

abbreviation (input) CANINTE_MERRE :: u8 where "CANINTE_MERRE \<equiv> BIT 7"
abbreviation (input) CANINTE_ERRIE :: u8 where "CANINTE_ERRIE \<equiv> BIT 5"
abbreviation (input) CANINTE_TX2IE :: u8 where "CANINTE_TX2IE \<equiv> BIT 4"
abbreviation (input) CANINTE_TX1IE :: u8 where "CANINTE_TX1IE \<equiv> BIT 3"
abbreviation (input) CANINTE_TX0IE :: u8 where "CANINTE_TX0IE \<equiv> BIT 2"
abbreviation (input) CANINTE_RX1IE :: u8 where "CANINTE_RX1IE \<equiv> BIT 1"
abbreviation (input) CANINTE_RX0IE :: u8 where "CANINTE_RX0IE \<equiv> BIT 0"

abbreviation (input) CANINTF_MERRF :: u8 where "CANINTF_MERRF \<equiv> BIT 7"
abbreviation (input) CANINTF_WAKIF :: u8 where "CANINTF_WAKIF \<equiv> BIT 6"
abbreviation (input) CANINTF_ERRIF :: u8 where "CANINTF_ERRIF \<equiv> BIT 5"
abbreviation (input) CANINTF_TX2IF :: u8 where "CANINTF_TX2IF \<equiv> BIT 4"
abbreviation (input) CANINTF_TX1IF :: u8 where "CANINTF_TX1IF \<equiv> BIT 3"
abbreviation (input) CANINTF_TX0IF :: u8 where "CANINTF_TX0IF \<equiv> BIT 2"
abbreviation (input) CANINTF_RX1IF :: u8 where "CANINTF_RX1IF \<equiv> BIT 1"
abbreviation (input) CANINTF_RX0IF :: u8 where "CANINTF_RX0IF \<equiv> BIT 0"

abbreviation (input) EFLG :: u8 where "EFLG \<equiv> 0x2D"
abbreviation (input) EFLG_RX1OVR :: u8 where "EFLG_RX1OVR \<equiv> BIT 7"
abbreviation (input) EFLG_RX0OVR :: u8 where "EFLG_RX0OVR \<equiv> BIT 6"

abbreviation (input) CNF3 :: u8 where "CNF3 \<equiv> 0x28"
abbreviation (input) CNF1_SJW_SHF :: nat where "CNF1_SJW_SHF \<equiv> 6"
abbreviation (input) CNF2_BTLMODE :: u8 where "CNF2_BTLMODE \<equiv> BIT 7"
abbreviation (input) CNF2_PHSEG1_SHF :: nat where "CNF2_PHSEG1_SHF \<equiv> 3"

datatype rxm_mode = RXM_BOTH | RXM_SID_ONLY | RXM_EID_ONLY | RXM_ANY

fun rxm_code :: "rxm_mode \<Rightarrow> u8" where
  "rxm_code RXM_BOTH = 0"
| "rxm_code RXM_SID_ONLY = 1"
| "rxm_code RXM_EID_ONLY = 2"
| "rxm_code RXM_ANY = 3"

datatype op_mode = REQOP_NORMAL | REQOP_SLEEP | REQOP_LOOP | REQOP_LISTEN | REQOP_CONFIG

fun op_code :: "op_mode \<Rightarrow> u8" where
  "op_code REQOP_NORMAL = 0"
| "op_code REQOP_SLEEP = 1"
| "op_code REQOP_LOOP = 2"
| "op_code REQOP_LISTEN = 3"
| "op_code REQOP_CONFIG = 4"

section \<open>A state for closed examples\<close>

definition bench_can :: "u8 list list \<Rightarrow> bench can_state" where
  "bench_can rs =
     \<lparr>txbuf = replicate 255 0, rxbuf = replicate 255 0, spi_lock = False,
      dev = \<lparr>sent_cmds = [], replies = rs\<rparr>,
      txb_cache = replicate 3 \<lparr>canid = 0, cexide = 0, priority = 0\<rparr>,
      queues = None, xmit_stopped = 1, txb_lock = False, queue_sem = 0, emitted = []\<rparr>"

lemma bench_can_wf [simp]: "port_wf (bench_can rs)"
  by (simp add: bench_can_def port_wf_def)

end
