(* ===== verification/Can_Controller.thy ===== *)
theory Can_Controller
  imports Can_State
begin

text \<open>
  The register-level operations on the MCP2515, \<^verbatim>\<open>components/can/src/controller.c\<close>: bit timing,
  operating modes, acceptance filters, and the conversion of CAN frames to and from the layout of
  the controller's transmit and receive buffers. All values keep the width they have in the C code.

  \<open>DIV_ROUND\<close> and \<open>NS_IN_S\<close> come from a utility library that is not part of the sources; they are
  arguments (\<open>div_round\<close>, \<open>ns_in_s\<close>), and \<open>rounds_to_nearest\<close> says what the code relies on.
\<close>

section \<open>Layout of the buffers\<close>

abbreviation (input) SIDH_SHF :: nat where "SIDH_SHF \<equiv> 3"
abbreviation (input) SIDL_SHF :: nat where "SIDL_SHF \<equiv> 5"
abbreviation (input) EXIDE_SHF :: nat where "EXIDE_SHF \<equiv> 3"
abbreviation (input) SIDL_EID_MASK :: u32 where "SIDL_EID_MASK \<equiv> 0x3"
abbreviation (input) SIDL_EID_SHF :: nat where "SIDL_EID_SHF \<equiv> 16"
abbreviation (input) EID8_SHF :: nat where "EID8_SHF \<equiv> 8"
abbreviation (input) RTR_SHF :: nat where "RTR_SHF \<equiv> 6"
abbreviation (input) BYTE_MASK :: u32 where "BYTE_MASK \<equiv> 0xFF"
abbreviation (input) MAX_BUF_LEN :: nat where "MAX_BUF_LEN \<equiv> 13"
abbreviation (input) FILTER_BYTES :: nat where "FILTER_BYTES \<equiv> 4"
abbreviation (input) NUM_OF_MASKS :: nat where "NUM_OF_MASKS \<equiv> 2"
abbreviation (input) FILTS_OF_MASK0 :: nat where "FILTS_OF_MASK0 \<equiv> 2"
abbreviation (input) FILTS_OF_MASK1 :: nat where "FILTS_OF_MASK1 \<equiv> 4"

text \<open>\<^verbatim>\<open>enum can_buf_regs\<close>\<close>

abbreviation (input) SIDH :: nat where "SIDH \<equiv> 0"
abbreviation (input) SIDL :: nat where "SIDL \<equiv> 1"
abbreviation (input) EID8 :: nat where "EID8 \<equiv> 2"
abbreviation (input) EID0 :: nat where "EID0 \<equiv> 3"
abbreviation (input) DLC :: nat where "DLC \<equiv> 4"
abbreviation (input) DAT :: nat where "DAT \<equiv> 5"

section \<open>Bit timing\<close>

definition hw_set_bit_timing ::
  "'d bus \<Rightarrow> u8 \<Rightarrow> u8 \<Rightarrow> u8 \<Rightarrow> u8 \<Rightarrow> u8 \<Rightarrow> 'd can_state \<Rightarrow> 'd can_state option" where
  "hw_set_bit_timing bus sjw brp propseg phseg1 phseg2 s =
     (let sjw = sjw - 1; brp = brp - 1; propseg = propseg - 1;
          phseg1 = phseg1 - 1; phseg2 = phseg2 - 1;
          cnf2 = push_bit CNF1_SJW_SHF sjw OR brp;
          cnf1 = CNF2_BTLMODE OR push_bit CNF2_PHSEG1_SHF phseg1 OR propseg;
          cnf0 = phseg2
      in mcp2515_write_nregs bus CNF3 [cnf0, cnf1, cnf2] 3 s)"

abbreviation (input) OSC_FREQ :: nat where "OSC_FREQ \<equiv> 20000000"
abbreviation (input) MIN_TQ_NUM :: nat where "MIN_TQ_NUM \<equiv> 8"
abbreviation (input) MAX_TQ_NUM :: nat where "MAX_TQ_NUM \<equiv> 25"
abbreviation (input) SAMPLE_POINT :: nat where "SAMPLE_POINT \<equiv> 30"

text \<open>
  \<open>DIV_ROUND(n, d)\<close> rounds \<open>n / d\<close> to a nearest integer; with an odd divisor the two usual
  definitions differ for the remainder just below one half, which is left open. The division is
  not defined for \<open>d = 0\<close>.
\<close>

definition rounds_to_nearest :: "(nat \<Rightarrow> nat \<Rightarrow> nat) \<Rightarrow> bool" where
  "rounds_to_nearest div_round \<longleftrightarrow>
     (\<forall>n d. 0 < d \<longrightarrow>
        (div_round n d = n div d \<or> div_round n d = n div d + 1) \<and>
        (n mod d = 0 \<or> 2 * (n mod d) + 1 < d \<longrightarrow> div_round n d = n div d) \<and>
        (d \<le> 2 * (n mod d) \<longrightarrow> div_round n d = n div d + 1))"

definition time_per_tick :: "(nat \<Rightarrow> nat \<Rightarrow> nat) \<Rightarrow> nat \<Rightarrow> nat" where
  "time_per_tick div_round ns_in_s = div_round ns_in_s OSC_FREQ"

text \<open>One turn of the search: the state is \<open>(min_error, tq_num)\<close>.\<close>

definition tq_step ::
  "(nat \<Rightarrow> nat \<Rightarrow> nat) \<Rightarrow> nat \<Rightarrow> u32 \<Rightarrow> nat \<Rightarrow> u32 \<times> u8 \<Rightarrow> u32 \<times> u8" where
  "tq_step div_round ns_in_s bit_time i acc =
     (let tick = time_per_tick div_round ns_in_s;
          tq_time = of_nat (div_round (unat bit_time) i) :: u32;
          error = of_nat (unat tq_time mod tick) :: u32;
          error = (if of_nat tick < 2 * error then of_nat tick - error else error)
      in if error < fst acc then (error, of_nat i) else acc)"

definition tq_search :: "(nat \<Rightarrow> nat \<Rightarrow> nat) \<Rightarrow> nat \<Rightarrow> u32 \<Rightarrow> u32 \<times> u8" where
  "tq_search div_round ns_in_s bit_time =
     fold (tq_step div_round ns_in_s bit_time) [MIN_TQ_NUM..<MAX_TQ_NUM + 1]
       (0xFFFFFFFF, of_nat MIN_TQ_NUM)"

text \<open>The segments for a number of time quanta: \<open>(propseg, phseg1, phseg2)\<close>.\<close>

definition segments :: "(nat \<Rightarrow> nat \<Rightarrow> nat) \<Rightarrow> u8 \<Rightarrow> u8 \<times> u8 \<times> u8" where
  "segments div_round tq_num =
     (let phseg2 = of_nat (div_round (unat tq_num * SAMPLE_POINT) 100) :: u8;
          phseg1 = phseg2;
          propseg = tq_num - 1 - phseg1 - phseg2
      in if 2 < propseg then (2, phseg1 + (propseg - 2), phseg2)
         else (propseg, phseg1, phseg2))"

text \<open>A zero divisor, also of \<^verbatim>\<open>%\<close>, has no defined result.\<close>

definition set_baudrate ::
  "(nat \<Rightarrow> nat \<Rightarrow> nat) \<Rightarrow> nat \<Rightarrow> 'd bus \<Rightarrow> u32 \<Rightarrow> 'd can_state \<Rightarrow> 'd can_state option" where
  "set_baudrate div_round ns_in_s bus baudrate s =
     (if baudrate = 0 \<or> time_per_tick div_round ns_in_s = 0 then None
      else let bit_time = of_nat (div_round ns_in_s (unat baudrate)) :: u32;
               tq_num = snd (tq_search div_round ns_in_s bit_time);
               d = 2 * baudrate * ucast tq_num
           in if d = 0 then None
              else let brp = of_nat (div_round OSC_FREQ (unat d)) :: u8;
                       (propseg, phseg1, phseg2) = segments div_round tq_num
                   in hw_set_bit_timing bus 1 brp propseg phseg1 phseg2 s)"

section \<open>Modes\<close>

definition set_mode :: "'d bus \<Rightarrow> op_mode \<Rightarrow> 'd can_state \<Rightarrow> 'd can_state option" where
  "set_mode bus mode s =
     mcp2515_bit_modify bus CANCTRL CANCTRL_REQOP_MASK (push_bit CANCTRL_REQOP_SHF (op_code mode)) s"

definition get_mode :: "'d bus \<Rightarrow> 'd can_state \<Rightarrow> (u8 \<times> 'd can_state) option" where
  "get_mode bus s = do {
     (r, s) \<leftarrow> mcp2515_read_reg bus CANSTAT s;
     Some (drop_bit CANSTAT_OPMOD_SHF r, s)
   }"

definition enable_rollover :: "'d bus \<Rightarrow> 'd can_state \<Rightarrow> 'd can_state option" where
  "enable_rollover bus s = mcp2515_bit_modify bus (RXBCTRL 0) RXBCTRL_BUKT RXBCTRL_BUKT s"

definition set_rx_mode :: "'d bus \<Rightarrow> nat \<Rightarrow> rxm_mode \<Rightarrow> 'd can_state \<Rightarrow> 'd can_state option" where
  "set_rx_mode bus rxb_idx mode s =
     (if 1 < rxb_idx then Some s
      else mcp2515_bit_modify bus (RXBCTRL rxb_idx) RXBCTRL_RXM_MASK
             (push_bit RXBCTRL_RXM_SHF (rxm_code mode)) s)"

text \<open>The mask applies to the register number, inside the call, as in the source.\<close>

definition txbuf_ready :: "'d bus \<Rightarrow> nat \<Rightarrow> 'd can_state \<Rightarrow> (u8 \<times> 'd can_state) option" where
  "txbuf_ready bus txb_idx s = mcp2515_read_reg bus (TXBCTRL txb_idx AND TXBCTRL_TXREQ) s"

section \<open>Acceptance filters\<close>

definition is_filter_empty :: "'d bus \<Rightarrow> nat \<Rightarrow> 'd can_state \<Rightarrow> (bool \<times> 'd can_state) option" where
  "is_filter_empty bus idx s = do {
     (buf, s) \<leftarrow> mcp2515_read_nregs bus (RXFSIDH idx) FILTER_BYTES (replicate FILTER_BYTES 0) s;
     Some (fold (OR) buf 0 = 0, s)
   }"

text \<open>The four bytes of an identifier or a mask; \<open>flag\<close> is the EXIDE bit.\<close>

definition id_bytes :: "u32 \<Rightarrow> u32 \<Rightarrow> u32 \<Rightarrow> u8 list" where
  "id_bytes sid eid flag =
     [ucast (drop_bit SIDH_SHF sid),
      ucast (push_bit SIDL_SHF sid OR push_bit EXIDE_SHF flag OR drop_bit SIDL_EID_SHF eid),
      ucast (drop_bit EID8_SHF eid),
      ucast (eid AND BYTE_MASK)]"

text \<open>Splitting an identifier or a mask into its standard and its extended part.\<close>

definition split_id :: "1 word \<Rightarrow> u32 \<Rightarrow> u32 \<times> u32" where
  "split_id ext x = (if ext \<noteq> 0 then (drop_bit CAN_EID_BITS x, x AND CAN_EID_MASK) else (x, 0))"

definition write_to_filter ::
  "'d bus \<Rightarrow> nat \<Rightarrow> can_id \<Rightarrow> u32 \<Rightarrow> 'd can_state \<Rightarrow> 'd can_state option" where
  "write_to_filter bus idx cid m s = do {
     s \<leftarrow> (if m \<noteq> 0 then
            let (sid, eid) = split_id (exide cid) m;
                buf = id_bytes sid eid 0
            in if idx < FILTS_OF_MASK0
               then mcp2515_write_nregs bus (RXMSIDH 0) buf FILTER_BYTES s
               else mcp2515_write_nregs bus (RXMSIDH 1) buf FILTER_BYTES s
          else Some s);
     let (sid, eid) = split_id (exide cid) (ucast (id_num cid));
     mcp2515_write_nregs bus (RXFSIDH idx) (id_bytes sid eid (ucast (exide cid))) FILTER_BYTES s
   }"

text \<open>The inner loop of \<^verbatim>\<open>set_rx_filter\<close>: the first empty filter among \<open>js\<close>, if any.\<close>

fun first_empty_filter ::
  "'d bus \<Rightarrow> nat list \<Rightarrow> 'd can_state \<Rightarrow> (nat option \<times> 'd can_state) option" where
  "first_empty_filter bus [] s = Some (None, s)"
| "first_empty_filter bus (j # js) s = do {
     (e, s) \<leftarrow> is_filter_empty bus j s;
     if e then Some (Some j, s) else first_empty_filter bus js s
   }"

text \<open>
  The mask that is read back: \<open>sid\<close> and \<open>eid\<close> are variables of type \<^verbatim>\<open>uint8_t\<close> in the source, so
  what is assigned to them is cut to eight bits.
\<close>

definition mask_sid :: "u8 list \<Rightarrow> u8" where
  "mask_sid buf = ucast (push_bit SIDH_SHF (ucast (buf ! SIDH) :: u32) OR
                         drop_bit SIDL_SHF (ucast (buf ! SIDL)))"

definition mask_eid :: "u8 list \<Rightarrow> u8" where
  "mask_eid buf = ucast (push_bit SIDL_EID_SHF (ucast (buf ! SIDL) :: u32) OR
                         push_bit EID8_SHF (ucast (buf ! EID8)) OR ucast (buf ! EID0))"

definition mask_word :: "1 word \<Rightarrow> u8 list \<Rightarrow> u32" where
  "mask_word ext buf =
     (let cur_mask = push_bit CAN_EID_BITS (ucast (mask_sid buf)) OR ucast (mask_eid buf)
      in if ext = 0 then drop_bit CAN_EID_BITS cur_mask else cur_mask)"

fun set_rx_filter_from ::
  "'d bus \<Rightarrow> can_id \<Rightarrow> u32 \<Rightarrow> nat list \<Rightarrow> 'd can_state \<Rightarrow> (int \<times> 'd can_state) option" where
  "set_rx_filter_from bus cid m [] s = Some (-1, s)"
| "set_rx_filter_from bus cid m (i # is) s = do {
     (buf, s) \<leftarrow> mcp2515_read_nregs bus (RXMSIDH i) FILTER_BYTES (replicate FILTER_BYTES 0) s;
     let cur_mask = mask_word (exide cid) buf;
     if cur_mask = 0 \<and> mask_eid buf = 0 then do {
       s \<leftarrow> write_to_filter bus (i * FILTS_OF_MASK0) cid m s;
       Some (int (i * FILTS_OF_MASK0), s)
     } else if cur_mask = m then do {
       (f, s) \<leftarrow> first_empty_filter bus [i * FILTS_OF_MASK0..<i * FILTS_OF_MASK1 + FILTS_OF_MASK0] s;
       case f of
         Some j \<Rightarrow> do { s \<leftarrow> write_to_filter bus j cid 0 s; Some (int j, s) }
       | None \<Rightarrow> set_rx_filter_from bus cid m is s
     } else set_rx_filter_from bus cid m is s
   }"

definition set_rx_filter ::
  "'d bus \<Rightarrow> can_id \<Rightarrow> u32 \<Rightarrow> 'd can_state \<Rightarrow> (int \<times> 'd can_state) option" where
  "set_rx_filter bus cid m s = set_rx_filter_from bus cid m [0..<NUM_OF_MASKS] s"

text \<open>The loop of \<^verbatim>\<open>clear_rx_filter\<close>: the index at which it stops, the first filter in use.\<close>

fun first_used_filter ::
  "'d bus \<Rightarrow> nat \<Rightarrow> nat list \<Rightarrow> 'd can_state \<Rightarrow> (nat \<times> 'd can_state) option" where
  "first_used_filter bus end_idx [] s = Some (end_idx, s)"
| "first_used_filter bus end_idx (i # is) s = do {
     (e, s) \<leftarrow> is_filter_empty bus i s;
     if \<not> e then Some (i, s) else first_used_filter bus end_idx is s
   }"

definition clear_rx_filter :: "'d bus \<Rightarrow> u8 \<Rightarrow> 'd can_state \<Rightarrow> 'd can_state option" where
  "clear_rx_filter bus idx s = do {
     let buf = replicate FILTER_BYTES 0;
     s \<leftarrow> mcp2515_write_nregs bus (RXFSIDH (unat idx)) buf FILTER_BYTES s;
     let mask_idx = (if unat idx < FILTS_OF_MASK0 then 0 else 1);
     let last = mask_idx * FILTS_OF_MASK1 + FILTS_OF_MASK0;
     (i, s) \<leftarrow> first_used_filter bus last [mask_idx * FILTS_OF_MASK0..<last] s;
     if mask_idx = 0 \<and> i = FILTS_OF_MASK0 \<or> mask_idx = 1 \<and> i = FILTS_OF_MASK1 + FILTS_OF_MASK0
     then mcp2515_write_nregs bus (RXMSIDH mask_idx) buf FILTER_BYTES s
     else Some s
   }"

definition clear_filter_mask :: "'d bus \<Rightarrow> u8 \<Rightarrow> 'd can_state \<Rightarrow> 'd can_state option" where
  "clear_filter_mask bus rxb_idx s =
     (let buf = replicate (FILTER_BYTES * 2) 0
      in if 2 \<le> rxb_idx then mcp2515_write_nregs bus (RXMSIDH 0) buf (FILTER_BYTES * 2) s
         else mcp2515_write_nregs bus (RXMSIDH (unat rxb_idx)) buf FILTER_BYTES s)"

section \<open>Transmit and receive buffers\<close>

text \<open>
  \<open>load_txb\<close> fails where the payload length does not fit the local array of 13 bytes or the eight
  bytes of the frame: the copy would run past them.
\<close>

definition load_txb :: "'d bus \<Rightarrow> nat \<Rightarrow> can_frame \<Rightarrow> 'd can_state \<Rightarrow> 'd can_state option" where
  "load_txb bus txb_idx frame s = do {
     let (sid, eid) = split_id (exide (ident frame)) (ucast (id_num (ident frame)));
     let buf = id_bytes sid eid (ucast (exide (ident frame))) @
               [push_bit RTR_SHF (ucast (rtr (ident frame))) OR ucast (dlc frame)] @ replicate 8 0;
     buf \<leftarrow> memcpy buf DAT (payload frame) (unat (dlc frame));
     s \<leftarrow> mcp2515_load_txb bus buf (ucast (dlc frame) + of_nat DAT) (of_nat txb_idx) 0 s;
     mcp2515_bit_modify bus (TXBCTRL txb_idx) TXBCTRL_TXP_MASK (ucast (prio frame)) s
   }"

text \<open>
  The frame that \<open>recv_rxb\<close> fills in: \<open>old\<close> is what the caller's structure held before (the
  function leaves its priority and error flag, and the payload bytes it does not copy).
\<close>

definition decode_rxb :: "u8 list \<Rightarrow> can_frame \<Rightarrow> can_frame option" where
  "decode_rxb buf old = do {
     let sid = (push_bit SIDH_SHF (ucast (buf ! SIDH)) OR drop_bit SIDL_SHF (ucast (buf ! SIDL)) :: u32);
     let ext = (ucast (drop_bit EXIDE_SHF (buf ! SIDL)) :: 1 word);
     let eid = (push_bit SIDL_EID_SHF (ucast (buf ! SIDL) AND SIDL_EID_MASK) OR
                push_bit EID8_SHF (ucast (buf ! EID8)) OR ucast (buf ! EID0) :: u32);
     let num = (if ext \<noteq> 0 then push_bit CAN_EID_BITS sid OR eid else sid);
     let remote = (ucast (drop_bit RTR_SHF (buf ! DLC)) :: 1 word);
     let len = (if remote \<noteq> 0 then 0 else ucast (buf ! DLC) :: 4 word);
     data \<leftarrow> memcpy (payload old) 0 (drop DAT buf) (unat len);
     Some (old\<lparr>ident := (ident old)\<lparr>id_num := ucast num, exide := ext, rtr := remote\<rparr>,
               dlc := len, payload := data\<rparr>)
   }"

definition recv_rxb ::
  "'d bus \<Rightarrow> nat \<Rightarrow> can_frame \<Rightarrow> 'd can_state \<Rightarrow> (can_frame \<times> 'd can_state) option" where
  "recv_rxb bus rxb_idx frame s = do {
     (buf, s) \<leftarrow> mcp2515_read_rxb bus (replicate MAX_BUF_LEN 0) (of_nat MAX_BUF_LEN) (of_nat rxb_idx) 0 s;
     frame \<leftarrow> decode_rxb buf frame;
     Some (frame, s)
   }"

definition abort_tx :: "'d bus \<Rightarrow> nat \<Rightarrow> 'd can_state \<Rightarrow> 'd can_state option" where
  "abort_tx bus txb_idx s = mcp2515_bit_modify bus (TXBCTRL txb_idx) TXBCTRL_TXREQ 0 s"

definition decode_txb_status :: "u8 \<Rightarrow> can_txb_status" where
  "decode_txb_status status =
     (if status AND TXBCTRL_TXREQ \<noteq> 0 then
        (if status AND TXBCTRL_MLOA \<noteq> 0 then LOST
         else if status AND TXBCTRL_TXERR \<noteq> 0 then ERR
         else if status AND TXBCTRL_ABTF \<noteq> 0 then ABORT
         else PENDING)
      else IDLE)"

definition txb_status :: "'d bus \<Rightarrow> nat \<Rightarrow> 'd can_state \<Rightarrow> (u8 \<times> 'd can_state) option" where
  "txb_status bus txb_idx s = do {
     (status, s) \<leftarrow> mcp2515_read_reg bus (TXBCTRL txb_idx) s;
     Some (txb_status_code (decode_txb_status status), s)
   }"

definition poll_rxbuf :: "'d bus \<Rightarrow> 'd can_state \<Rightarrow> (int \<times> 'd can_state) option" where
  "poll_rxbuf bus s = do {
     (status, s) \<leftarrow> mcp2515_read_reg bus CANINTF s;
     Some (if status AND CANINTF_RX1IF \<noteq> 0 then 1
           else if status AND CANINTF_RX0IF \<noteq> 0 then 0 else -1, s)
   }"

end
