(* ===== verification/Can_Prio.thy ===== *)
theory Can_Prio
  imports Can_State
begin

text \<open>
  Transmit priorities, \<^verbatim>\<open>components/can/src/prio.c\<close>. The driver caches the identifier pending in each
  of the three transmit buffers and, when a frame is loaded, ranks the buffers so that a lower
  identifier gets a higher \<^verbatim>\<open>TXP\<close> priority, as it would win the bus arbitration.
\<close>

definition canid_clear_cache :: "nat \<Rightarrow> 'd can_state \<Rightarrow> 'd can_state option" where
  "canid_clear_cache i s = do {
     c \<leftarrow> array_set (txb_cache s) i \<lparr>canid = 0, cexide = 0, priority = 0\<rparr>;
     Some (s\<lparr>txb_cache := c\<rparr>)
   }"

definition canid_cache_is_valid :: "nat \<Rightarrow> canid_cache list \<Rightarrow> bool option" where
  "canid_cache_is_valid i c = do { e \<leftarrow> array_get c i; Some (canid e \<noteq> 0) }"

text \<open>The first loop: all priorities to zero.\<close>

definition clear_prios :: "canid_cache list \<Rightarrow> canid_cache list" where
  "clear_prios c = fold (\<lambda>i c. c[i := (c ! i)\<lparr>priority := 0\<rparr>]) [0..<3] c"

text \<open>The nested loop: compare every pair of buffers once.\<close>

definition rank_pair :: "nat \<times> nat \<Rightarrow> canid_cache list \<Rightarrow> canid_cache list" where
  "rank_pair p c =
     (let i = fst p; j = snd p in
      if canid (c ! i) < canid (c ! j) then c[i := (c ! i)\<lparr>priority := priority (c ! i) + 1\<rparr>]
      else if canid (c ! j) < canid (c ! i) then c[j := (c ! j)\<lparr>priority := priority (c ! j) + 1\<rparr>]
      else c)"

definition loop_pairs :: "(nat \<times> nat) list" where
  "loop_pairs = concat (map (\<lambda>i. map (Pair i) [i + 1..<3]) [0..<3])"

definition rank_prios :: "canid_cache list \<Rightarrow> canid_cache list" where
  "rank_prios c = fold rank_pair loop_pairs (clear_prios c)"

text \<open>The last loop: program the priority of every other buffer that holds a frame.\<close>

fun write_prios :: "'d bus \<Rightarrow> nat \<Rightarrow> nat list \<Rightarrow> 'd can_state \<Rightarrow> 'd can_state option" where
  "write_prios bus txb_idx [] s = Some s"
| "write_prios bus txb_idx (i # is) s = do {
     v \<leftarrow> canid_cache_is_valid i (txb_cache s);
     s \<leftarrow> (if v \<and> i \<noteq> txb_idx
          then mcp2515_bit_modify bus (TXBCTRL i) TXBCTRL_TXP_MASK (ucast (priority (txb_cache s ! i))) s
          else Some s);
     write_prios bus txb_idx is s
   }"

definition get_frame_priority ::
  "'d bus \<Rightarrow> nat \<Rightarrow> can_id \<Rightarrow> 'd can_state \<Rightarrow> (int \<times> 'd can_state) option" where
  "get_frame_priority bus txb_idx cid s = do {
     v \<leftarrow> canid_cache_is_valid txb_idx (txb_cache s);
     if v then Some (-1, s)
     else do {
       e \<leftarrow> array_get (txb_cache s) txb_idx;
       c \<leftarrow> array_set (txb_cache s) txb_idx (e\<lparr>canid := id_num cid, cexide := exide cid\<rparr>);
       let c = rank_prios c;
       s \<leftarrow> write_prios bus txb_idx [0..<3] (s\<lparr>txb_cache := c\<rparr>);
       e \<leftarrow> array_get (txb_cache s) txb_idx;
       Some (uint (priority e), s)
     }
   }"

section \<open>The ranking\<close>

text \<open>What the loops compute: the priority of a buffer counts the buffers with a larger identifier.\<close>

definition rank_of :: "canid_cache list \<Rightarrow> nat \<Rightarrow> nat" where
  "rank_of c i = length (filter (\<lambda>e. canid (c ! i) < canid e) c)"

definition gt1 :: "29 word \<Rightarrow> 29 word \<Rightarrow> 2 word" where
  "gt1 x y = (if x < y then 1 else 0)"

lemma rank_prios_list:
  "rank_prios [a, b, d] =
     [a\<lparr>priority := gt1 (canid a) (canid b) + gt1 (canid a) (canid d)\<rparr>,
      b\<lparr>priority := gt1 (canid b) (canid a) + gt1 (canid b) (canid d)\<rparr>,
      d\<lparr>priority := gt1 (canid d) (canid a) + gt1 (canid d) (canid b)\<rparr>]"
proof -
  have pairs: "loop_pairs = [(0, 1), (0, 2), (1, 2)]"
    by (simp add: loop_pairs_def upt_rec)
  have cleared: "clear_prios [a, b, d] = [a\<lparr>priority := 0\<rparr>, b\<lparr>priority := 0\<rparr>, d\<lparr>priority := 0\<rparr>]"
    by (simp add: clear_prios_def upt_rec)
  have ab: "rank_pair (0, 1) [x, y, z] =
      [x\<lparr>priority := priority x + gt1 (canid x) (canid y)\<rparr>,
       y\<lparr>priority := priority y + gt1 (canid y) (canid x)\<rparr>, z]" for x y z
    by (cases "canid x" "canid y" rule: linorder_cases) (simp_all add: rank_pair_def gt1_def)
  have ad: "rank_pair (0, 2) [x, y, z] =
      [x\<lparr>priority := priority x + gt1 (canid x) (canid z)\<rparr>, y,
       z\<lparr>priority := priority z + gt1 (canid z) (canid x)\<rparr>]" for x y z
    by (cases "canid x" "canid z" rule: linorder_cases) (simp_all add: rank_pair_def gt1_def)
  have bd: "rank_pair (1, 2) [x, y, z] =
      [x, y\<lparr>priority := priority y + gt1 (canid y) (canid z)\<rparr>,
       z\<lparr>priority := priority z + gt1 (canid z) (canid y)\<rparr>]" for x y z
    by (cases "canid y" "canid z" rule: linorder_cases) (simp_all add: rank_pair_def gt1_def)
  show ?thesis
    by (simp only: rank_prios_def pairs cleared fold.simps comp_apply ab ad bd id_apply) simp
qed

lemma unat_gt1_sum:
  "unat (gt1 x y + gt1 u v) = (if x < y then 1 else 0) + (if u < v then 1 else 0)"
  by (simp add: gt1_def)

lemma three_cases: "length c = 3 \<Longrightarrow> (\<And>a b d. c = [a, b, d] \<Longrightarrow> P) \<Longrightarrow> P"
  by (auto simp: numeral_3_eq_3 length_Suc_conv)

lemma less_3_cases: "i < 3 \<longleftrightarrow> i = 0 \<or> i = 1 \<or> i = (2::nat)"
  by auto

lemma rank_prios_spec:
  assumes "length c = 3"
  shows "length (rank_prios c) = 3"
    and "i < 3 \<Longrightarrow> canid (rank_prios c ! i) = canid (c ! i)"
    and "i < 3 \<Longrightarrow> cexide (rank_prios c ! i) = cexide (c ! i)"
    and "i < 3 \<Longrightarrow> unat (priority (rank_prios c ! i)) = rank_of c i"
  using assms
  by (auto elim!: three_cases simp: rank_prios_list less_3_cases rank_of_def unat_gt1_sum)

lemma rank_of_less:
  assumes "length c = 3" "i < 3" "j < 3" "canid (c ! i) < canid (c ! j)"
  shows "rank_of c j < rank_of c i"
proof -
  have "filter (\<lambda>e. canid (c ! j) < canid e) c = filter (\<lambda>e. canid (c ! j) < canid e)
      (filter (\<lambda>e. canid (c ! i) < canid e) c)"
    using assms(4) by (auto intro: filter_cong)
  moreover have "c ! j \<in> set (filter (\<lambda>e. canid (c ! i) < canid e) c)"
    using assms by simp
  then have "length (filter (\<lambda>e. canid (c ! j) < canid e) (filter (\<lambda>e. canid (c ! i) < canid e) c))
      < length (filter (\<lambda>e. canid (c ! i) < canid e) c)"
    by (rule length_filter_less) simp
  ultimately show ?thesis
    by (simp add: rank_of_def)
qed

lemma rank_prios_order:
  assumes "length c = 3" "i < 3" "j < 3"
  shows "priority (rank_prios c ! j) < priority (rank_prios c ! i) \<longleftrightarrow> canid (c ! i) < canid (c ! j)"
proof -
  have "rank_of c j < rank_of c i \<longleftrightarrow> canid (c ! i) < canid (c ! j)"
    using rank_of_less [OF assms] rank_of_less [OF assms(1,3,2)]
    by (metis less_asym linorder_neqE rank_of_def)
  then show ?thesis
    using assms by (simp add: word_less_nat_alt rank_prios_spec)
qed

section \<open>Loading a frame\<close>

definition sends_all :: "'d bus \<Rightarrow> u8 list list \<Rightarrow> 'd \<Rightarrow> 'd" where
  "sends_all bus outs d = fold (\<lambda>out d. sends bus out 0 d) outs d"

lemma sends_all_simps [simp]:
  "sends_all bus [] d = d"
  "sends_all bus (out # outs) d = sends_all bus outs (sends bus out 0 d)"
  "sends_all bus (outs @ outs') d = sends_all bus outs' (sends_all bus outs d)"
  by (simp_all add: sends_all_def)

text \<open>The priority writes for the other buffers that hold a frame.\<close>

definition prio_updates :: "canid_cache list \<Rightarrow> nat \<Rightarrow> nat list \<Rightarrow> u8 list list" where
  "prio_updates c idx is =
     map (\<lambda>i. [CMD_BIT_MODIFY, TXBCTRL i, TXBCTRL_TXP_MASK, ucast (priority (c ! i))])
       (filter (\<lambda>i. canid (c ! i) \<noteq> 0 \<and> i \<noteq> idx) is)"

lemma write_prios_wp:
  assumes "port_wf s" "\<forall>i \<in> set is. i < length (txb_cache s)"
    "\<And>s'. moved s (sends_all bus (prio_updates (txb_cache s) idx is) (dev s)) s' \<Longrightarrow> P s'"
  shows "ok (write_prios bus idx is s) P"
  using assms
proof (induction "is" arbitrary: s)
  case Nil
  then show ?case
    using moved_refl [of s] by (simp add: prio_updates_def)
next
  case (Cons i "is")
  then have i: "i < length (txb_cache s)" by simp
  show ?case
  proof (cases "canid (txb_cache s ! i) \<noteq> 0 \<and> i \<noteq> idx")
    case True
    show ?thesis
    proof (simp add: canid_cache_is_valid_def i True, rule bit_modify_wp [OF Cons.prems(1)])
      fix s'
      assume s': "moved s (sends bus [CMD_BIT_MODIFY, TXBCTRL i, TXBCTRL_TXP_MASK,
        ucast (priority (txb_cache s ! i))] 0 (dev s)) s'"
      show "ok (write_prios bus idx is s') P"
        using Cons.prems True s' moved_trans [OF s']
        by (intro Cons.IH) (auto simp: frame_simps [OF s'] moved_dev prio_updates_def)
    qed
  next
    case False
    then show ?thesis
      using Cons i by (auto simp: canid_cache_is_valid_def prio_updates_def)
  qed
qed

lemma get_frame_priority_busy:
  "txb_idx < length (txb_cache s) \<Longrightarrow> canid (txb_cache s ! txb_idx) \<noteq> 0 \<Longrightarrow>
   get_frame_priority bus txb_idx cid s = Some (-1, s)"
  by (simp add: get_frame_priority_def canid_cache_is_valid_def)

text \<open>The cache after loading identifier \<open>cid\<close> into buffer \<open>i\<close>.\<close>

definition cache_load :: "nat \<Rightarrow> can_id \<Rightarrow> canid_cache list \<Rightarrow> canid_cache list" where
  "cache_load i cid c = rank_prios (c[i := (c ! i)\<lparr>canid := id_num cid, cexide := exide cid\<rparr>])"

lemma length_cache_load [simp]: "length c = 3 \<Longrightarrow> length (cache_load i cid c) = 3"
  by (simp add: cache_load_def rank_prios_spec)

lemma get_frame_priority_wp:
  assumes "port_wf s" "length (txb_cache s) = 3" "i < 3" "canid (txb_cache s ! i) = 0"
    and post: "\<And>s'. moved (s\<lparr>txb_cache := cache_load i cid (txb_cache s)\<rparr>)
        (sends_all bus (prio_updates (cache_load i cid (txb_cache s)) i [0..<3]) (dev s)) s' \<Longrightarrow>
      P (uint (priority (cache_load i cid (txb_cache s) ! i)), s')"
  shows "ok (get_frame_priority bus i cid s) P"
proof -
  let ?c = "cache_load i cid (txb_cache s)"
  have len: "length ?c = 3"
    using assms(2) by simp
  have "ok (write_prios bus i [0..<3] (s\<lparr>txb_cache := ?c\<rparr>))
      (\<lambda>s. ok (array_get (txb_cache s) i) (\<lambda>e. P (uint (priority e), s)))"
    by (rule write_prios_wp) (use assms len in \<open>auto simp: frame_simps\<close>)
  then show ?thesis
    using assms(2-4) by (simp add: get_frame_priority_def canid_cache_is_valid_def cache_load_def)
qed

text \<open>
  C16: when the buffer holds no frame, \<^verbatim>\<open>get_frame_priority\<close> records the identifier and leaves the
  priorities of the three buffers in the order opposite to their identifiers (a lower identifier
  has the higher priority, equal ones share it); it programs exactly the other buffers that hold
  a frame with their new priorities and returns the priority of the new frame.
\<close>

theorem get_frame_priority_ranks:
  assumes "port_wf s" and "length (txb_cache s) = 3" and "i < 3" and "canid (txb_cache s ! i) = 0"
  shows "ok (get_frame_priority bus i cid s) (\<lambda>(p, s').
     map canid (txb_cache s') = (map canid (txb_cache s))[i := id_num cid] \<and>
     p = uint (priority (txb_cache s' ! i)) \<and>
     moved (s\<lparr>txb_cache := txb_cache s'\<rparr>)
       (sends_all bus (prio_updates (txb_cache s') i [0..<3]) (dev s)) s' \<and>
     (\<forall>a \<in> {0, 1, 2}. \<forall>b \<in> {0, 1, 2}.
        (priority (txb_cache s' ! b) < priority (txb_cache s' ! a)) =
        (canid (txb_cache s' ! a) < canid (txb_cache s' ! b))))"
proof (rule get_frame_priority_wp [OF assms], clarify)
  let ?e = "(txb_cache s ! i)\<lparr>canid := id_num cid, cexide := exide cid\<rparr>"
  let ?c = "cache_load i cid (txb_cache s)"
  fix s'
  assume s': "moved (s\<lparr>txb_cache := ?c\<rparr>) (sends_all bus (prio_updates ?c i [0..<3]) (dev s)) s'"
  have cache: "txb_cache s' = ?c"
    using frame_simps [OF s'] by simp
  have len: "length ((txb_cache s)[i := ?e]) = 3"
    using assms(2) by simp
  have canids: "canid (?c ! k) = canid ((txb_cache s)[i := ?e] ! k)" if "k < 3" for k
    using rank_prios_spec(2) [OF len that] by (simp add: cache_load_def)
  have "map canid ?c = (map canid (txb_cache s))[i := id_num cid]"
    using assms(2,3) canids by (intro nth_equalityI) (auto simp: nth_list_update)
  moreover have "priority (?c ! b) < priority (?c ! a) \<longleftrightarrow> canid (?c ! a) < canid (?c ! b)"
    if "a < 3" "b < 3" for a b
    using rank_prios_order [OF len that] canids that by (simp add: cache_load_def)
  ultimately show "map canid (txb_cache s') = (map canid (txb_cache s))[i := id_num cid] \<and>
     uint (priority (?c ! i)) = uint (priority (txb_cache s' ! i)) \<and>
     moved (s\<lparr>txb_cache := txb_cache s'\<rparr>)
       (sends_all bus (prio_updates (txb_cache s') i [0..<3]) (dev s)) s' \<and>
     (\<forall>a \<in> {0, 1, 2}. \<forall>b \<in> {0, 1, 2}.
        (priority (txb_cache s' ! b) < priority (txb_cache s' ! a)) =
        (canid (txb_cache s' ! a) < canid (txb_cache s' ! b)))"
    using s' by (simp add: cache)
qed

text \<open>Loading identifier 0x100 beside a pending 0x200: the other buffer drops to priority 0.\<close>

definition bench_prio :: "bench can_state" where
  "bench_prio = (bench_can [])\<lparr>txb_cache :=
     [\<lparr>canid = 0x200, cexide = 0, priority = 1\<rparr>, \<lparr>canid = 0, cexide = 0, priority = 0\<rparr>,
      \<lparr>canid = 0, cexide = 0, priority = 0\<rparr>]\<rparr>"

theorem get_frame_priority_ranks_witness:
  "ok (get_frame_priority bench_bus 1 \<lparr>id_num = 0x100, exide = 0, rtr = 0, err = 0\<rparr> bench_prio)
     (\<lambda>(p, s'). map canid (txb_cache s') = [0x200, 0x100, 0] \<and>
        priority (txb_cache s' ! 0) < priority (txb_cache s' ! 1))"
proof -
  have "port_wf bench_prio" "length (txb_cache bench_prio) = 3" "canid (txb_cache bench_prio ! 1) = 0"
    by (simp_all add: bench_prio_def)
  from get_frame_priority_ranks [OF this(1,2) _ this(3), of bench_bus
      "\<lparr>id_num = 0x100, exide = 0, rtr = 0, err = 0\<rparr>"]
  have "ok (get_frame_priority bench_bus 1 \<lparr>id_num = 0x100, exide = 0, rtr = 0, err = 0\<rparr> bench_prio)
     (\<lambda>(p, s'). map canid (txb_cache s') = [0x200, 0x100, 0] \<and>
        (priority (txb_cache s' ! 0) < priority (txb_cache s' ! 1)) =
        (canid (txb_cache s' ! 1) < canid (txb_cache s' ! 0)))"
    by (rule ok_mono) (auto simp: bench_prio_def)
  then show ?thesis
    by (rule ok_mono) (auto simp: list_eq_iff_nth_eq less_3_cases)
qed

end
