(* ===== verification/Can_Frame.thy ===== *)
theory Can_Frame
  imports Can_Controller Can_Prio
begin

text \<open>
  The frame format of the controller's buffers: what \<^verbatim>\<open>load_txb\<close> puts on the bus for a frame, and
  that \<^verbatim>\<open>recv_rxb\<close> recovers the frame from the same bytes. The bytes are compared bit by bit.
\<close>

section \<open>What is loaded\<close>

definition txb_header :: "can_frame \<Rightarrow> u8 list" where
  "txb_header f =
     (let (sid, eid) = split_id (exide (ident f)) (ucast (id_num (ident f)))
      in id_bytes sid eid (ucast (exide (ident f))) @
         [push_bit RTR_SHF (ucast (rtr (ident f))) OR ucast (dlc f)])"

lemma length_id_bytes [simp]: "length (id_bytes sid eid flag) = 4"
  by (simp add: id_bytes_def)

lemma length_txb_header [simp]: "length (txb_header f) = 5"
  by (simp add: txb_header_def split_beta)

lemma unat_dlc: "unat (dlc f) < 16"
  using unsigned_less [of "dlc f", where ?'a = nat] by simp

lemma load_frame_wp [wp]:
  assumes "port_wf s" "frame_ok f" "unat (dlc f) \<le> 8"
    "\<And>s'. moved s (sends_all bus
        [(CMD_LOAD_TXB OR (of_nat i * 2 OR 0)) # txb_header f @ take (unat (dlc f)) (payload f),
         [CMD_BIT_MODIFY, TXBCTRL i, TXBCTRL_TXP_MASK, ucast (prio f)]] (dev s)) s' \<Longrightarrow> P s'"
  shows "ok (load_txb bus i f s) P"
proof -
  let ?d = "unat (dlc f)"
  let ?buf = "txb_header f @ take ?d (payload f) @ replicate (8 - ?d) 0"
  have buf: "load_txb bus i f s = do {
     s \<leftarrow> mcp2515_load_txb bus ?buf (ucast (dlc f) + of_nat DAT) (of_nat i) 0 s;
     mcp2515_bit_modify bus (TXBCTRL i) TXBCTRL_TXP_MASK (ucast (prio f)) s }"
    using assms(2,3) by (simp add: load_txb_def txb_header_def split_beta frame_ok_def)
  have len: "unat (ucast (dlc f) + 5 :: u8) = ?d + 5"
    using unat_dlc [of f] by (simp add: unat_word_ariths unsigned_ucast_eq take_bit_nat_eq_self)
  have pl: "length (payload f) = 8"
    using assms(2) by (simp add: frame_ok_def)
  show ?thesis
    unfolding buf ok_bind
  proof (rule Spi_Cmd.load_txb_wp [OF assms(1)])
    fix s'
    assume "moved s (sends bus ((CMD_LOAD_TXB OR (of_nat i * 2 OR 0)) #
      take (unat (ucast (dlc f) + of_nat DAT :: u8)) ?buf) 0 (dev s)) s'"
    then have s': "moved s (sends bus ((CMD_LOAD_TXB OR (of_nat i * 2 OR 0)) #
        txb_header f @ take ?d (payload f)) 0 (dev s)) s'"
      using assms(3) by (simp add: len pl)
    show "ok (mcp2515_bit_modify bus (TXBCTRL i) TXBCTRL_TXP_MASK (ucast (prio f)) s') P"
      by (rule bit_modify_wp [OF movedD [OF s']], rule assms(4))
        (use moved_trans [OF s'] moved_dev [OF s'] in simp)
  qed (use assms(3) in \<open>simp_all add: len pl\<close>)
qed

section \<open>Bits of the identifier registers\<close>

lemmas bits = bit_or_iff bit_and_iff bit_push_bit_iff bit_drop_bit_eq bit_unsigned_iff

lemma bit_flag: "bit (e :: 1 word) k \<longleftrightarrow> k = 0 \<and> e \<noteq> 0"
proof -
  have "k = 0" if "bit e k"
    using bit_imp_le_length [OF that] by simp
  moreover have "bit e 0 \<longleftrightarrow> e \<noteq> 0"
    by (metis bit_eqI bit_0_eq bit_imp_le_length bot_apply bot_bool_def less_one len_num1)
  ultimately show ?thesis by blast
qed

lemma bit_mask_lit [bit_layout]:
  "bit (0x3FFFF :: int) n \<longleftrightarrow> n < 18" "bit (0xFF :: int) n \<longleftrightarrow> n < 8" "bit (3 :: int) n \<longleftrightarrow> n < 2"
proof -
  have "(0x3FFFF :: int) = mask 18" "(0xFF :: int) = mask 8" "(3 :: int) = mask 2"
    by (simp_all add: mask_eq_exp_minus_1)
  then show "bit (0x3FFFF :: int) n \<longleftrightarrow> n < 18" "bit (0xFF :: int) n \<longleftrightarrow> n < 8" "bit (3 :: int) n \<longleftrightarrow> n < 2"
    by (simp_all only: bit_mask_iff) auto
qed

lemma bit_0x30000 [bit_layout]: "bit (0x30000 :: int) n \<longleftrightarrow> 16 \<le> n \<and> n < 18"
proof -
  have "(0x30000 :: int) = push_bit 16 (mask 2)"
    by (simp add: mask_eq_exp_minus_1 push_bit_eq_mult)
  then show ?thesis
    by (simp only: bit_push_bit_iff bit_mask_iff) auto
qed

lemma id_bytes_bits:
  "bit (id_bytes sid eid flag ! 0) k \<longleftrightarrow> k < 8 \<and> bit sid (k + 3)"
  "bit (id_bytes sid eid flag ! 1) k \<longleftrightarrow>
     k < 8 \<and> (5 \<le> k \<and> bit sid (k - 5) \<or> 3 \<le> k \<and> bit flag (k - 3) \<or> bit eid (k + 16))"
  "bit (id_bytes sid eid flag ! 2) k \<longleftrightarrow> k < 8 \<and> bit eid (k + 8)"
  "bit (id_bytes sid eid flag ! 3) k \<longleftrightarrow> k < 8 \<and> bit eid k"
  by (auto simp: id_bytes_def bits bit_layout add.commute)

lemma bit_less_exp:
  fixes w :: "'a::len word"
  assumes "unat w < 2 ^ k" "bit w n"
  shows "n < k"
proof (rule ccontr)
  assume "\<not> n < k"
  moreover have "take_bit k (unat w) = unat w"
    using assms(1) by (rule take_bit_nat_eq_self)
  ultimately show False
    using assms(2) bit_unsigned_iff [of w n, where ?'a = nat] by (metis bit_take_bit_iff possible_bit_nat)
qed

lemma ext_num:
  fixes x :: "29 word" and e :: "1 word"
  defines "B \<equiv> id_bytes (drop_bit 18 (ucast x)) (ucast x AND 0x3FFFF) (ucast e)"
  shows "ucast (push_bit 18 (push_bit 3 (ucast (B ! 0)) OR drop_bit 5 (ucast (B ! 1))) OR
     (push_bit 16 (ucast (B ! 1) AND 3) OR push_bit 8 (ucast (B ! 2)) OR ucast (B ! 3)) :: u32) = x"
proof (rule bit_word_eqI)
  fix n
  assume n: "n < LENGTH(29)"
  have B: "bit (B ! 0) k \<longleftrightarrow> k < 8 \<and> bit x (k + 21)"
    "bit (B ! Suc 0) k \<longleftrightarrow> k < 8 \<and> (5 \<le> k \<and> bit x (k + 13) \<or> k = 3 \<and> e \<noteq> 0 \<or> k < 2 \<and> bit x (k + 16))"
    "bit (B ! 2) k \<longleftrightarrow> k < 8 \<and> bit x (k + 8)"
    "bit (B ! 3) k \<longleftrightarrow> k < 8 \<and> bit x k" for k
    unfolding B_def id_bytes_bits One_nat_def [symmetric] by (auto simp: bits bit_layout bit_flag add.commute)
  from n consider "n < 8" | "8 \<le> n" "n < 16" | "16 \<le> n" "n < 18" | "18 \<le> n" "n < 21" | "21 \<le> n" "n < 29"
    by fastforce
  then show "bit (ucast (push_bit 18 (push_bit 3 (ucast (B ! 0)) OR drop_bit 5 (ucast (B ! 1))) OR
     (push_bit 16 (ucast (B ! 1) AND 3) OR push_bit 8 (ucast (B ! 2)) OR ucast (B ! 3)) :: u32) :: 29 word) n = bit x n"
    by cases (simp_all add: bits bit_layout B, auto)
qed

lemma std_num:
  fixes x :: "29 word" and e :: "1 word"
  defines "B \<equiv> id_bytes (ucast x) 0 (ucast e)"
  assumes "unat x < 2 ^ 11"
  shows "ucast (push_bit 3 (ucast (B ! 0)) OR drop_bit 5 (ucast (B ! 1)) :: u32) = x"
proof (rule bit_word_eqI)
  fix n
  assume n: "n < LENGTH(29)"
  have x: "bit x k \<Longrightarrow> k < 11" for k
    by (rule bit_less_exp [OF assms(2)])
  have B: "bit (B ! 0) k \<longleftrightarrow> k < 8 \<and> bit x (k + 3)"
    "bit (B ! Suc 0) k \<longleftrightarrow> k < 8 \<and> (5 \<le> k \<and> bit x (k - 5) \<or> k = 3 \<and> e \<noteq> 0)" for k
    unfolding B_def id_bytes_bits One_nat_def [symmetric]
    using x [of "k + 3"] by (auto simp: bits bit_layout bit_flag add.commute)
  from n consider "n < 3" | "3 \<le> n" "n < 11" | "11 \<le> n" "n < 29"
    by fastforce
  then show "bit (ucast (push_bit 3 (ucast (B ! 0)) OR drop_bit 5 (ucast (B ! 1)) :: u32) :: 29 word) n = bit x n"
    using x [of n] by cases (simp_all add: bits B, auto)
qed

lemma exide_bit:
  fixes e :: "1 word"
  assumes "\<not> bit eid 19"
  shows "ucast (drop_bit 3 (id_bytes sid eid (ucast e) ! 1)) = e"
proof (rule bit_word_eqI)
  fix n
  assume n: "n < LENGTH(1)"
  have "bit (id_bytes sid eid (ucast e) ! 1) 3 \<longleftrightarrow> e \<noteq> 0"
    using assms by (simp only: id_bytes_bits) (simp add: bits bit_flag)
  with n show "bit (ucast (drop_bit 3 (id_bytes sid eid (ucast e) ! 1)) :: 1 word) n = bit e n"
    by (simp only: bits comp_def bit_flag [of e]) simp
qed

definition stored :: "can_frame \<Rightarrow> can_frame \<Rightarrow> can_frame" where
  "stored f old =
     (let len = (if rtr (ident f) \<noteq> 0 then 0 else dlc f)
      in old\<lparr>ident := (ident old)\<lparr>id_num := id_num (ident f), exide := exide (ident f), rtr := rtr (ident f)\<rparr>,
             dlc := len, payload := take (unat len) (payload f) @ drop (unat len) (payload old)\<rparr>)"

lemma dlc_byte:
  "ucast (drop_bit RTR_SHF (push_bit RTR_SHF (ucast r) OR ucast d :: u8)) = (r :: 1 word)"
  "ucast (push_bit RTR_SHF (ucast r) OR ucast d :: u8) = (d :: 4 word)"
  for r :: "1 word" and d :: "4 word"
proof -
  have d: "bit d k \<Longrightarrow> k < 4" for k
    using bit_imp_le_length [of d k] by simp
  show "ucast (push_bit RTR_SHF (ucast r) OR ucast d :: u8) = d"
    by (rule bit_word_eqI) (simp add: bits)
  show "ucast (drop_bit RTR_SHF (push_bit RTR_SHF (ucast r) OR ucast d :: u8)) = r"
    by (rule bit_word_eqI, simp only: bits comp_def) (use d [of 6] in \<open>auto simp: bit_flag\<close>)
qed

lemma id_bytes_split:
  fixes x :: "29 word" and e :: "1 word"
  defines "B \<equiv> (\<lambda>(sid, eid). id_bytes sid eid (ucast e)) (split_id e (ucast x))"
  assumes "e = 0 \<longrightarrow> unat x < 2 ^ CAN_SID_BITS"
  shows "ucast (drop_bit EXIDE_SHF (B ! SIDL)) = e"
    and "ucast (let sid = push_bit SIDH_SHF (ucast (B ! SIDH)) OR drop_bit SIDL_SHF (ucast (B ! SIDL));
             eid = push_bit SIDL_EID_SHF (ucast (B ! SIDL) AND SIDL_EID_MASK) OR
                   push_bit EID8_SHF (ucast (B ! EID8)) OR ucast (B ! EID0) :: u32
         in if e \<noteq> 0 then push_bit CAN_EID_BITS sid OR eid else sid) = x"
proof -
  have "\<not> bit (snd (split_id e (ucast x))) 19"
    by (simp add: split_id_def bits bit_layout)
  then show "ucast (drop_bit EXIDE_SHF (B ! SIDL)) = e"
    unfolding B_def split_beta by (rule exide_bit)
  show "ucast (let sid = push_bit SIDH_SHF (ucast (B ! SIDH)) OR drop_bit SIDL_SHF (ucast (B ! SIDL));
             eid = push_bit SIDL_EID_SHF (ucast (B ! SIDL) AND SIDL_EID_MASK) OR
                   push_bit EID8_SHF (ucast (B ! EID8)) OR ucast (B ! EID0) :: u32
         in if e \<noteq> 0 then push_bit CAN_EID_BITS sid OR eid else sid) = x"
    using assms(2) ext_num [of x e] std_num [of x e]
    unfolding B_def Let_def by (cases "e = 0") (simp_all add: split_id_def)
qed

lemma txb_header_split:
  "txb_header f = (\<lambda>(sid, eid). id_bytes sid eid (ucast (exide (ident f))))
      (split_id (exide (ident f)) (ucast (id_num (ident f)))) @
      [push_bit RTR_SHF (ucast (rtr (ident f))) OR ucast (dlc f)]"
  by (simp add: txb_header_def split_beta)

lemma decode_txb_header:
  assumes "frame_ok f" "frame_ok old" "unat (dlc f) \<le> CAN_MAX_DLC"
    "exide (ident f) = 0 \<longrightarrow> unat (id_num (ident f)) < 2 ^ CAN_SID_BITS"
  shows "decode_rxb (txb_header f @ take (unat (dlc f)) (payload f) @ junk) old = Some (stored f old)"
proof -
  define B where "B = (\<lambda>(sid, eid). id_bytes sid eid (ucast (exide (ident f))))
      (split_id (exide (ident f)) (ucast (id_num (ident f))))"
  define buf where "buf = txb_header f @ take (unat (dlc f)) (payload f) @ junk"
  define c where "c = (push_bit RTR_SHF (ucast (rtr (ident f))) OR ucast (dlc f) :: u8)"
  have B: "length B = 4"
    by (simp add: B_def split_beta)
  have buf: "buf = B @ c # take (unat (dlc f)) (payload f) @ junk"
    by (simp add: buf_def txb_header_split B_def c_def)
  have nth: "buf ! SIDH = B ! SIDH" "buf ! SIDL = B ! SIDL" "buf ! EID8 = B ! EID8"
      "buf ! EID0 = B ! EID0" "buf ! DLC = c" "drop DAT buf = take (unat (dlc f)) (payload f) @ junk"
    by (simp_all add: buf B nth_append)
  have c: "ucast (drop_bit RTR_SHF c) = rtr (ident f)" "ucast c = dlc f"
    by (simp_all only: c_def dlc_byte)
  note id = id_bytes_split [OF assms(4), folded B_def, unfolded Let_def]
  have "decode_rxb buf old =
      (let len = (if rtr (ident f) \<noteq> 0 then 0 else dlc f)
       in Option.bind (memcpy (payload old) 0 (take (unat (dlc f)) (payload f) @ junk) (unat len))
         (\<lambda>data. Some (old\<lparr>ident := (ident old)\<lparr>id_num := id_num (ident f),
            exide := exide (ident f), rtr := rtr (ident f)\<rparr>, dlc := len, payload := data\<rparr>)))"
    unfolding decode_rxb_def nth Let_def by (simp only: id c)
  then show ?thesis
    unfolding buf_def stored_def Let_def using assms(1-3)
    by (cases "rtr (ident f) = 0") (simp_all add: frame_ok_def)
qed

section \<open>Loading and receiving\<close>

lemma recv_frame_wp [wp]:
  assumes "port_wf s" "full_duplex bus"
    "decode_rxb (answer bus [CMD_READ_RXB] MAX_BUF_LEN (dev s)) old = Some f"
    "\<And>s'. moved s (sends bus [CMD_READ_RXB] MAX_BUF_LEN (dev s)) s' \<Longrightarrow> P (f, s')"
  shows "ok (recv_rxb bus n old s) P"
  unfolding recv_rxb_def ok_bind
  by (rule read_rxb_wp) (use assms in simp_all)

definition txb_bytes :: "can_frame \<Rightarrow> u8 list" where
  "txb_bytes f = txb_header f @ take (unat (dlc f)) (payload f)"


text \<open>
  C17: A frame that fits the format survives the controller's buffer format: loading it sends one
  \<^verbatim>\<open>LOAD TX BUFFER\<close> transaction with its bytes and sets the buffer's priority, and when the receive
  buffer is read and answers with these bytes (and anything behind them), the receiver gets the
  identifier, the flags, the length and the payload back; a remote frame arrives with length 0.
\<close>

theorem load_recv_roundtrip:
  assumes "port_wf s" "port_wf t" "full_duplex bus" "frame_ok f" "frame_ok old"
    "unat (dlc f) \<le> CAN_MAX_DLC"
    "exide (ident f) = 0 \<longrightarrow> unat (id_num (ident f)) < 2 ^ CAN_SID_BITS"
    "answer bus [CMD_READ_RXB] MAX_BUF_LEN (dev t) = txb_bytes f @ junk"
  shows "(\<exists>s'. load_txb bus i f s = Some s' \<and>
            dev s' = sends_all bus [(CMD_LOAD_TXB OR of_nat i * 2) # txb_bytes f,
              [CMD_BIT_MODIFY, TXBCTRL i, TXBCTRL_TXP_MASK, ucast (prio f)]] (dev s)) \<and>
         (\<exists>t'. recv_rxb bus n old t = Some (stored f old, t'))"
proof -
  have "ok (load_txb bus i f s) (\<lambda>s'. dev s' = sends_all bus
      [(CMD_LOAD_TXB OR of_nat i * 2) # txb_bytes f,
       [CMD_BIT_MODIFY, TXBCTRL i, TXBCTRL_TXP_MASK, ucast (prio f)]] (dev s))"
    by (rule load_frame_wp) (use assms(1,4,6) in \<open>simp_all add: txb_bytes_def moved_dev\<close>)
  moreover have "ok (recv_rxb bus n old t) (\<lambda>(f', t'). f' = stored f old)"
    by (rule recv_frame_wp [where f = "stored f old"])
      (use assms decode_txb_header [OF assms(4-7)] in \<open>simp_all add: txb_bytes_def\<close>)
  ultimately show ?thesis
    by (auto simp: ok_def)
qed

definition bench_frame :: can_frame where
  "bench_frame =
     \<lparr>ident = \<lparr>id_num = 0x1234567, exide = 1, rtr = 0, err = 0\<rparr>, prio = 2, dlc = 3,
      payload = [0xDE, 0xAD, 0xBE, 0, 0, 0, 0, 0]\<rparr>"

definition blank_frame :: can_frame where
  "blank_frame = \<lparr>ident = \<lparr>id_num = 0, exide = 0, rtr = 0, err = 0\<rparr>, prio = 0, dlc = 0,
     payload = replicate 8 0\<rparr>"

lemma bench_frame_bytes: "txb_bytes bench_frame = [0x09, 0x0B, 0x45, 0x67, 3, 0xDE, 0xAD, 0xBE]"
  by code_simp

lemma bench_frame_stored: "stored bench_frame blank_frame = bench_frame\<lparr>prio := 0\<rparr>"
  by code_simp

lemma load_recv_roundtrip_witness:
  "\<exists>t'. recv_rxb bench_bus 0 blank_frame (bench_can [txb_bytes bench_frame @ [0, 0, 0, 0, 0]]) =
     Some (bench_frame\<lparr>prio := 0\<rparr>, t')"
proof -
  have wf: "frame_ok bench_frame" "frame_ok blank_frame" "unat (dlc bench_frame) \<le> CAN_MAX_DLC"
    "exide (ident bench_frame) = 0 \<longrightarrow> unat (id_num (ident bench_frame)) < 2 ^ CAN_SID_BITS"
    by (simp_all add: bench_frame_def blank_frame_def frame_ok_def)
  have "answer bench_bus [CMD_READ_RXB] MAX_BUF_LEN
      (dev (bench_can [txb_bytes bench_frame @ [0, 0, 0, 0, 0]])) = txb_bytes bench_frame @ [0, 0, 0, 0, 0]"
    by (simp add: bench_frame_bytes answer_def bench_bus_def bench_can_def)
  from load_recv_roundtrip [OF bench_can_wf [of "[]"] bench_can_wf bench_full_duplex wf this, of 1 0]
  show ?thesis
    by (simp only: bench_frame_stored)
qed

end
