(* ===== verification/Can_Irq.thy ===== *)
theory Can_Irq
  imports Can_Frame
begin

text \<open>
  The interrupt side of the CAN driver, \<^verbatim>\<open>components/can/src/irq.c\<close>: the handler that reads the
  interrupt flags of the controller and serves them, the refill of empty transmit buffers from the
  transmit queue, the move of received frames to the receive queue, and \<^verbatim>\<open>start_xmit\<close>, which
  raises a transmit interrupt when the refill had stopped.
\<close>

abbreviation (input) TXIF_MASK :: u8 where "TXIF_MASK \<equiv> CANINTF_TX0IF OR CANINTF_TX1IF OR CANINTF_TX2IF"
abbreviation (input) RXIF_MASK :: u8 where "RXIF_MASK \<equiv> CANINTF_RX0IF OR CANINTF_RX1IF"
abbreviation (input) TXIF_SHF :: nat where "TXIF_SHF \<equiv> 2"
abbreviation (input) TXB_NUM :: nat where "TXB_NUM \<equiv> 3"

section \<open>Errors\<close>

definition report_message_error :: "'d bus \<Rightarrow> 'd can_state \<Rightarrow> 'd can_state option" where
  "report_message_error bus s = do {
     (mode, s) \<leftarrow> get_mode bus s;
     s \<leftarrow> (if mode = op_code REQOP_LISTEN then do {
            s \<leftarrow> set_mode bus REQOP_CONFIG s;
            set_mode bus REQOP_LISTEN s
          } else Some s);
     mcp2515_bit_modify bus CANINTF CANINTE_MERRE 0 s
   }"

text \<open>The remaining flags are only logged.\<close>

definition report_error :: "'d bus \<Rightarrow> 'd can_state \<Rightarrow> 'd can_state option" where
  "report_error bus s = do {
     (flags, s) \<leftarrow> mcp2515_read_reg bus EFLG s;
     s \<leftarrow> (if flags AND (EFLG_RX0OVR OR EFLG_RX1OVR) \<noteq> 0
          then mcp2515_bit_modify bus EFLG (flags AND (EFLG_RX0OVR OR EFLG_RX1OVR)) 0 s
          else Some s);
     mcp2515_bit_modify bus CANINTF CANINTF_ERRIF 0 s
   }"

section \<open>Transmission\<close>

definition emit :: "can_event \<Rightarrow> 'd can_state \<Rightarrow> 'd can_state" where
  "emit e s = s\<lparr>emitted := emitted s @ [e]\<rparr>"

text \<open>
  ``Make sure the previous message is sent'': the loop of the source, with its mask applied to the
  register number. It may run for ever, which is the value \<open>None\<close>.
\<close>

partial_function (option) wait_sent :: "'d bus \<Rightarrow> nat \<Rightarrow> 'd can_state \<Rightarrow> 'd can_state option" where
  "wait_sent bus i s =
     Option.bind (mcp2515_read_reg bus (TXBCTRL i AND TXBCTRL_TXREQ) s)
       (\<lambda>(r, s). if r \<noteq> 0 then wait_sent bus i s else Some s)"

text \<open>Marking the transmission stopped, under \<open>txb_lock\<close>.\<close>

definition stop_xmit :: "'d can_state \<Rightarrow> 'd can_state option" where
  "stop_xmit s = do {
     l \<leftarrow> lock_take (txb_lock s);
     let s = s\<lparr>txb_lock := l\<rparr>;
     let s = s\<lparr>xmit_stopped := 1\<rparr>;
     Some (s\<lparr>txb_lock := lock_release (txb_lock s)\<rparr>)
   }"

definition queue_pop_tx :: "'d can_state \<Rightarrow> (can_frame option \<times> 'd can_state) option" where
  "queue_pop_tx s = do {
     q \<leftarrow> queues s;
     (f, q) \<leftarrow> tx_queue_pop q;
     Some (f, s\<lparr>queues := Some q\<rparr>)
   }"

text \<open>The loop over the transmit buffers, from the last to the first; \<open>rts\<close> collects the loaded ones.\<close>

fun xmit_loop :: "'d bus \<Rightarrow> u8 \<Rightarrow> nat list \<Rightarrow> u8 \<Rightarrow> 'd can_state \<Rightarrow> (u8 \<times> 'd can_state) option" where
  "xmit_loop bus tx [] rts s = Some (rts, s)"
| "xmit_loop bus tx (i # is) rts s =
     (if tx AND BIT i \<noteq> 0 then do {
        s \<leftarrow> canid_clear_cache i s;
        let s = emit (Txb_Ack i) s;
        (f, s) \<leftarrow> queue_pop_tx s;
        case f of
          Some frame \<Rightarrow> do {
            s \<leftarrow> wait_sent bus i s;
            s \<leftarrow> load_txb bus i frame s;
            xmit_loop bus tx is (rts OR BIT i) s
          }
        | None \<Rightarrow> do {
            s \<leftarrow> stop_xmit s;
            xmit_loop bus tx is rts s
          }
      } else xmit_loop bus tx is rts s)"

definition transmit_message :: "'d bus \<Rightarrow> u8 \<Rightarrow> 'd can_state \<Rightarrow> 'd can_state option" where
  "transmit_message bus tx s = do {
     s \<leftarrow> mcp2515_bit_modify bus CANINTF (push_bit TXIF_SHF tx) 0 s;
     (rts, s) \<leftarrow> xmit_loop bus tx (rev [0..<TXB_NUM]) 0 s;
     mcp2515_rts bus rts s
   }"

section \<open>Reception\<close>

definition queue_lock_post :: "'d can_state \<Rightarrow> 'd can_state" where
  "queue_lock_post s = s\<lparr>queue_sem := queue_sem s + 1\<rparr>"

definition queue_push_rx :: "can_frame \<Rightarrow> 'd can_state \<Rightarrow> (int \<times> 'd can_state) option" where
  "queue_push_rx f s = do {
     q \<leftarrow> queues s;
     (r, q) \<leftarrow> rx_queue_push f q;
     Some (r, s\<lparr>queues := Some q\<rparr>)
   }"

text \<open>
  One received buffer. \<open>frame\<close> is the local variable, which the source does not initialise: its
  contents on entry are an argument, and it is shared by the two buffers.
\<close>

definition receive_one ::
  "'d bus \<Rightarrow> nat \<Rightarrow> can_frame \<times> int \<Rightarrow> 'd can_state \<Rightarrow> ((can_frame \<times> int) \<times> 'd can_state) option" where
  "receive_one bus n fr s = do {
     (frame, s) \<leftarrow> recv_rxb bus n (fst fr) s;
     (r, s) \<leftarrow> queue_push_rx frame s;
     Some ((frame, snd fr + r), queue_lock_post s)
   }"

definition receive_message :: "'d bus \<Rightarrow> can_frame \<Rightarrow> u8 \<Rightarrow> 'd can_state \<Rightarrow> 'd can_state option" where
  "receive_message bus frame rx s = do {
     (fr, s) \<leftarrow> (if rx AND BIT 0 \<noteq> 0 then receive_one bus 0 (frame, 0) s else Some ((frame, 0), s));
     (fr, s) \<leftarrow> (if rx AND BIT 1 \<noteq> 0 then receive_one bus 1 fr s else Some (fr, s));
     Some s
   }"

section \<open>The handler\<close>

definition irq_handler :: "'d bus \<Rightarrow> can_frame \<Rightarrow> 'd can_state \<Rightarrow> 'd can_state option" where
  "irq_handler bus frame s = do {
     (flags, s) \<leftarrow> mcp2515_read_reg bus CANINTF s;
     s \<leftarrow> (if flags AND CANINTF_MERRF \<noteq> 0 then report_message_error bus s else Some s);
     s \<leftarrow> (if flags AND CANINTF_WAKIF \<noteq> 0
          then mcp2515_bit_modify bus CANINTF CANINTF_WAKIF 0 s else Some s);
     s \<leftarrow> (if flags AND CANINTF_ERRIF \<noteq> 0 then report_error bus s else Some s);
     s \<leftarrow> (if flags AND TXIF_MASK \<noteq> 0
          then transmit_message bus (drop_bit TXIF_SHF (flags AND TXIF_MASK)) s else Some s);
     s \<leftarrow> (if flags AND RXIF_MASK \<noteq> 0
          then receive_message bus frame (flags AND RXIF_MASK) s else Some s);
     let s = emit Int_Reg_Callback s;
     Some (emit Int_Ack s)
   }"

definition enable_intrrupt :: "'d bus \<Rightarrow> 'd can_state \<Rightarrow> 'd can_state option" where
  "enable_intrrupt bus s = do {
     let val = CANINTE_RX0IE OR CANINTE_RX1IE;
     let val = val OR (CANINTE_TX0IE OR CANINTE_TX1IE OR CANINTE_TX2IE);
     let val = val OR CANINTE_MERRE;
     let val = val OR CANINTE_ERRIE;
     s \<leftarrow> mcp2515_write_reg bus CANINTE val s;
     Some (emit Int_Reg_Callback s)
   }"

fun trigger_loop :: "'d bus \<Rightarrow> nat list \<Rightarrow> 'd can_state \<Rightarrow> 'd can_state option" where
  "trigger_loop bus [] s = Some s"
| "trigger_loop bus (i # is) s = do {
     (r, s) \<leftarrow> mcp2515_read_reg bus (TXBCTRL i) s;
     s \<leftarrow> (if r AND TXBCTRL_TXREQ = 0 then do {
            s \<leftarrow> mcp2515_bit_modify bus CANINTF (push_bit i CANINTF_TX0IF) 0xFF s;
            Some (s\<lparr>xmit_stopped := 0\<rparr>)
          } else Some s);
     trigger_loop bus is s
   }"

definition start_xmit :: "'d bus \<Rightarrow> 'd can_state \<Rightarrow> 'd can_state option" where
  "start_xmit bus s =
     (if xmit_stopped s \<noteq> 0 then do {
        l \<leftarrow> lock_take (txb_lock s);
        s \<leftarrow> trigger_loop bus [0..<TXB_NUM] (s\<lparr>txb_lock := l\<rparr>);
        Some (s\<lparr>txb_lock := lock_release (txb_lock s)\<rparr>)
      } else Some s)"

end
