(* ===== verification/Can_Dev.thy ===== *)
theory Can_Dev
  imports Can_Irq
begin

text \<open>
  The RPC entry points of the CAN component, \<^verbatim>\<open>components/can/src/dev.c\<close>. Loops that wait for the
  controller or for room in a queue are \<open>None\<close> where they never end.
\<close>

abbreviation (input) MSG_QUEUE_SIZE :: nat where "MSG_QUEUE_SIZE \<equiv> 128"

section \<open>Start-up\<close>

text \<open>\<^verbatim>\<open>queue_lock_wait\<close>: at a count of zero the caller waits for a post from another thread.\<close>

definition queue_lock_wait :: "'d can_state \<Rightarrow> 'd can_state option" where
  "queue_lock_wait s =
     (if queue_sem s = 0 then None else Some (s\<lparr>queue_sem := queue_sem s - 1\<rparr>))"

definition can_init :: "bool \<Rightarrow> can_frame list option \<Rightarrow> 'd can_state \<Rightarrow> 'd can_state option" where
  "can_init got_cbs fresh s = do {
     s \<leftarrow> queue_lock_wait s;
     Some (s\<lparr>queues := mq_init MSG_QUEUE_SIZE got_cbs fresh\<rparr>)
   }"

partial_function (option) wait_mode :: "'d bus \<Rightarrow> op_mode \<Rightarrow> 'd can_state \<Rightarrow> 'd can_state option" where
  "wait_mode bus mode s =
     Option.bind (get_mode bus s)
       (\<lambda>(m, s). if m = op_code mode then Some s else wait_mode bus mode s)"

definition can_setup ::
  "(nat \<Rightarrow> nat \<Rightarrow> nat) \<Rightarrow> nat \<Rightarrow> 'd bus \<Rightarrow> int \<Rightarrow> 'd can_state \<Rightarrow> (int \<times> 'd can_state) option" where
  "can_setup div_round ns_in_s bus baudrate s = do {
     s \<leftarrow> mcp2515_reset bus s;
     s \<leftarrow> wait_mode bus REQOP_CONFIG s;
     s \<leftarrow> set_baudrate div_round ns_in_s bus (of_int baudrate) s;
     s \<leftarrow> enable_intrrupt bus s;
     s \<leftarrow> set_rx_mode bus 0 RXM_ANY s;
     s \<leftarrow> set_mode bus REQOP_NORMAL s;
     Some (0, s)
   }"

definition can_setup_loopback ::
  "(nat \<Rightarrow> nat \<Rightarrow> nat) \<Rightarrow> nat \<Rightarrow> 'd bus \<Rightarrow> int \<Rightarrow> 'd can_state \<Rightarrow> (int \<times> 'd can_state) option" where
  "can_setup_loopback div_round ns_in_s bus baudrate s = do {
     s \<leftarrow> mcp2515_reset bus s;
     s \<leftarrow> wait_mode bus REQOP_CONFIG s;
     s \<leftarrow> set_baudrate div_round ns_in_s bus (of_int baudrate) s;
     s \<leftarrow> set_rx_mode bus 0 RXM_ANY s;
     s \<leftarrow> set_mode bus REQOP_LOOP s;
     s \<leftarrow> wait_mode bus REQOP_LOOP s;
     Some (0, s)
   }"

section \<open>Sending and receiving\<close>

text \<open>The result of \<^verbatim>\<open>get_frame_priority\<close> is stored in a two-bit field.\<close>

definition can_sendto ::
  "'d bus \<Rightarrow> nat \<Rightarrow> can_frame \<Rightarrow> 'd can_state \<Rightarrow> (int \<times> 'd can_state) option" where
  "can_sendto bus txb_idx frame s = do {
     (status, s) \<leftarrow> txb_status bus txb_idx s;
     if status = txb_status_code IDLE then do {
       (p, s) \<leftarrow> get_frame_priority bus txb_idx (ident frame) s;
       let frame = frame\<lparr>prio := of_int p\<rparr>;
       s \<leftarrow> load_txb bus txb_idx frame s;
       s \<leftarrow> mcp2515_rts bus (BIT txb_idx) s;
       Some (0, s)
     } else Some (-1, s)
   }"

definition queue_push_tx :: "can_frame \<Rightarrow> 'd can_state \<Rightarrow> (int \<times> 'd can_state) option" where
  "queue_push_tx f s = do {
     q \<leftarrow> queues s;
     (r, q) \<leftarrow> tx_queue_push f q;
     Some (r, s\<lparr>queues := Some q\<rparr>)
   }"

text \<open>
  \<open>can_send\<close> retries until the queue takes the frame; \<open>env n\<close> is what the other threads (the
  interrupt handler) do to the state before the next turn.
\<close>

partial_function (option) can_send ::
  "'d bus \<Rightarrow> (nat \<Rightarrow> 'd can_state \<Rightarrow> 'd can_state option) \<Rightarrow> nat \<Rightarrow> can_frame \<Rightarrow> 'd can_state \<Rightarrow>
   'd can_state option" where
  "can_send bus env n frame s =
     Option.bind (queue_push_tx frame s) (\<lambda>(ret, s).
     Option.bind (start_xmit bus s) (\<lambda>s.
     if ret < 0 then Option.bind (env n s) (\<lambda>s. can_send bus env (Suc n) frame s)
     else Some s))"

text \<open>The result is the caller's frame: filled in from the queue, or as it was if that is empty.\<close>

definition can_recv :: "can_frame \<Rightarrow> 'd can_state \<Rightarrow> (can_frame \<times> 'd can_state) option" where
  "can_recv frame s = do {
     s \<leftarrow> queue_lock_wait s;
     q \<leftarrow> queues s;
     (f, q) \<leftarrow> rx_queue_pop q;
     Some (case f of Some f \<Rightarrow> f | None \<Rightarrow> frame, s\<lparr>queues := Some q\<rparr>)
   }"

definition can_recv_rxb ::
  "'d bus \<Rightarrow> nat \<Rightarrow> can_frame \<Rightarrow> 'd can_state \<Rightarrow> (can_frame \<times> 'd can_state) option" where
  "can_recv_rxb bus rxb_idx frame s = recv_rxb bus rxb_idx frame s"

definition can_abort :: "'d bus \<Rightarrow> nat \<Rightarrow> 'd can_state \<Rightarrow> 'd can_state option" where
  "can_abort bus txb_idx s = abort_tx bus txb_idx s"

definition can_poll_rxbuf :: "'d bus \<Rightarrow> 'd can_state \<Rightarrow> (int \<times> 'd can_state) option" where
  "can_poll_rxbuf bus s = poll_rxbuf bus s"

definition can_status :: "'d bus \<Rightarrow> nat \<Rightarrow> 'd can_state \<Rightarrow> (u8 \<times> 'd can_state) option" where
  "can_status bus txb_idx s = txb_status bus txb_idx s"

text \<open>The debug line that \<^verbatim>\<open>can_sendto\<close> prints for a status.\<close>

definition mcp2515_dumpstatus :: "u8 \<Rightarrow> string" where
  "mcp2515_dumpstatus status =
     (if status = txb_status_code IDLE then ''    status: IDLE''
      else if status = txb_status_code PENDING then ''    status: PENDING''
      else if status = txb_status_code LOST then ''    status: LOST''
      else if status = txb_status_code ERR then ''    status: ERR''
      else if status = txb_status_code ABORT then ''    status: ABORT''
      else ''    bogus status!!'')"

section \<open>Filtering\<close>

definition can_set_filter ::
  "'d bus \<Rightarrow> can_id \<Rightarrow> u32 \<Rightarrow> 'd can_state \<Rightarrow> (int \<times> 'd can_state) option" where
  "can_set_filter bus cid m s = do {
     s \<leftarrow> set_mode bus REQOP_CONFIG s;
     (ret, s) \<leftarrow> set_rx_filter bus cid m s;
     s \<leftarrow> set_rx_mode bus 0 RXM_BOTH s;
     s \<leftarrow> set_rx_mode bus 1 RXM_BOTH s;
     s \<leftarrow> set_mode bus REQOP_NORMAL s;
     Some (ret, s)
   }"

definition can_clear_filter :: "'d bus \<Rightarrow> int \<Rightarrow> 'd can_state \<Rightarrow> 'd can_state option" where
  "can_clear_filter bus filter_id s = do {
     s \<leftarrow> set_mode bus REQOP_CONFIG s;
     s \<leftarrow> clear_rx_filter bus (of_int filter_id) s;
     set_mode bus REQOP_NORMAL s
   }"

definition can_disable_filtering :: "'d bus \<Rightarrow> 'd can_state \<Rightarrow> 'd can_state option" where
  "can_disable_filtering bus s = do {
     s \<leftarrow> set_mode bus REQOP_CONFIG s;
     s \<leftarrow> clear_filter_mask bus 2 s;
     s \<leftarrow> set_rx_mode bus 0 RXM_ANY s;
     s \<leftarrow> set_rx_mode bus 1 RXM_ANY s;
     set_mode bus REQOP_NORMAL s
   }"

end
