(* ===== verification/Can_Irq_Laws.thy ===== *)
theory Can_Irq_Laws
  imports Can_Dev
begin

text \<open>
  What the interrupt side of the driver guarantees. The lemmas follow a handler statement by
  statement with the \<open>wp\<close> rules; \<open>refilled\<close> and \<open>received\<close> say what the two halves of the handler do to
  the queues and to the controller, \<open>can_inv\<close> is the invariant of the driver in normal mode, and
  \<open>calm\<close> relates states between which only the controller moved.
\<close>


section \<open>What one interrupt does to the transmit side\<close>

lemma moved_can_iff:
  fixes s s' :: "'d can_state"
  shows "moved s d s' \<longleftrightarrow> port_wf s' \<and> dev s' = d \<and> txb_cache s' = txb_cache s \<and> queues s' = queues s \<and>
    xmit_stopped s' = xmit_stopped s \<and> txb_lock s' = txb_lock s \<and> queue_sem s' = queue_sem s \<and>
    emitted s' = emitted s"
  by (cases s; cases s') (auto simp: moved_def)

text \<open>
  Transactions of the two kinds: with \<open>r\<close> bytes read. \<open>normal_cmd\<close> are the commands that cannot
  change the operating mode of the controller.
\<close>

definition normal_cmd :: "u8 list \<Rightarrow> bool" where
  "normal_cmd out \<longleftrightarrow> out \<noteq> [] \<and> hd out \<noteq> CMD_RESET \<and> hd out \<noteq> CMD_WRITE \<and>
     (hd out = CMD_BIT_MODIFY \<longrightarrow> 1 < length out \<and> out ! 1 \<noteq> CANCTRL)"

text \<open>
  What the refill relies on: \<open>N\<close> are the states of the controller in normal mode, and there the
  registers of the acceptance filters (register 0 is one) read as zero (MCP2515 data sheet, the
  note to the filter registers). The bus is full duplex.
\<close>

definition filters_hidden :: "'d bus \<Rightarrow> 'd set \<Rightarrow> bool" where
  "filters_hidden bus N \<longleftrightarrow> full_duplex bus \<and>
     (\<forall>d \<in> N. answer bus [CMD_READ, 0] 1 d ! 0 = 0 \<and>
        (\<forall>out r. normal_cmd out \<longrightarrow> sends bus out r d \<in> N))"

lemma TXBCTRL_low_bits: "i < 3 \<Longrightarrow> TXBCTRL i AND TXBCTRL_TXREQ = 0"
  by (auto simp: TXBCTRL_def BIT_def less_Suc_eq numeral_3_eq_3)

lemma wait_sent_wp [wp]:
  assumes "port_wf s" "i < 3" "filters_hidden bus N" "dev s \<in> N"
    "\<And>s'. moved s (sends bus [CMD_READ, 0] 1 (dev s)) s' \<Longrightarrow> P s'"
  shows "ok (wait_sent bus i s) P"
proof (subst wait_sent.simps, simp only: ok_bind TXBCTRL_low_bits [OF assms(2)], rule read_reg_wp)
qed (use assms in \<open>auto simp: filters_hidden_def\<close>)

lemma stop_xmit_free:
  "\<not> txb_lock s \<Longrightarrow> stop_xmit s = Some (s\<lparr>xmit_stopped := 1, txb_lock := False\<rparr>)"
  by (cases s) (simp add: stop_xmit_def)

lemma queue_pop_tx_wp [wp]:
  assumes "queues s = Some q" "mq_wf q"
    "\<And>q'. mq_wf q' \<Longrightarrow> tx_contents q' = tl (tx_contents q) \<Longrightarrow> rx_contents q' = rx_contents q \<Longrightarrow>
       rx_capacity q' = rx_capacity q \<Longrightarrow> tx_capacity q' = tx_capacity q \<Longrightarrow>
       P (if tx_contents q = [] then None else Some (hd (tx_contents q)), s\<lparr>queues := Some q'\<rparr>)"
  shows "ok (queue_pop_tx s) P"
  using assms by (cases rule: tx.pop_cases [OF assms(2)]) (auto simp: queue_pop_tx_def)

text \<open>The transactions, with their read counts, of one loaded buffer.\<close>

definition runs :: "'d bus \<Rightarrow> (u8 list \<times> nat) list \<Rightarrow> 'd \<Rightarrow> 'd" where
  "runs bus ts d = fold (\<lambda>(out, r) d. sends bus out r d) ts d"

lemma runs_simps [simp]:
  "runs bus [] d = d"
  "runs bus (t # ts) d = runs bus ts (sends bus (fst t) (snd t) d)"
  "runs bus (ts @ ts') d = runs bus ts' (runs bus ts d)"
  by (simp_all add: runs_def split_beta)

definition load_cmds :: "nat \<times> can_frame \<Rightarrow> (u8 list \<times> nat) list" where
  "load_cmds p = (let (i, f) = p in
     [([CMD_READ, 0], 1), ((CMD_LOAD_TXB OR of_nat i * 2) # txb_bytes f, 0),
      ([CMD_BIT_MODIFY, TXBCTRL i, TXBCTRL_TXP_MASK, ucast (prio f)], 0)])"

lemma fold_clear_length [simp]:
  "length (fold (\<lambda>i c. c[i := e]) is c) = length c"
  by (induction "is" arbitrary: c) simp_all

definition can_queued :: "mq_mem \<Rightarrow> bool" where
  "can_queued q \<longleftrightarrow> mq_wf q \<and> (\<forall>f \<in> set (tx_contents q). frame_ok f \<and> unat (dlc f) \<le> CAN_MAX_DLC)"

lemma runs_normal:
  assumes "filters_hidden bus N" "d \<in> N" "\<forall>t \<in> set ts. normal_cmd (fst t)"
  shows "runs bus ts d \<in> N"
  using assms(2,3) by (induction ts arbitrary: d) (use assms(1) in \<open>auto simp: filters_hidden_def\<close>)

lemma load_cmds_normal: "i < 3 \<Longrightarrow> t \<in> set (load_cmds (i, f)) \<Longrightarrow> normal_cmd (fst t)"
  by (auto simp: load_cmds_def normal_cmd_def TXBCTRL_def less_Suc_eq numeral_3_eq_3)

abbreviation no_canid :: canid_cache where
  "no_canid \<equiv> \<lparr>canid = 0, cexide = 0, priority = 0\<rparr>"

text \<open>
  \<open>refilled\<close>: the buffers \<open>sel\<close> have been served, from \<open>s\<close> with the queues \<open>q\<close> to \<open>s'\<close> with \<open>q'\<close>.
\<close>

definition refilled ::
  "'d bus \<Rightarrow> nat list \<Rightarrow> mq_mem \<Rightarrow> 'd can_state \<Rightarrow> mq_mem \<Rightarrow> 'd can_state \<Rightarrow> bool" where
  "refilled bus sel q s q' s' \<longleftrightarrow> port_wf s' \<and> queues s' = Some q' \<and> can_queued q' \<and> \<not> txb_lock s' \<and>
     dev s' = runs bus (concat (map load_cmds (zip sel (tx_contents q)))) (dev s) \<and>
     txb_cache s' = fold (\<lambda>i c. c[i := no_canid]) sel (txb_cache s) \<and>
     tx_contents q' = drop (length sel) (tx_contents q) \<and>
     rx_contents q' = rx_contents q \<and> rx_capacity q' = rx_capacity q \<and> tx_capacity q' = tx_capacity q \<and>
     xmit_stopped s' = (if length (tx_contents q) < length sel then 1 else xmit_stopped s) \<and>
     queue_sem s' = queue_sem s \<and> emitted s' = emitted s @ map Txb_Ack sel"

lemma refilled_empty:
  assumes "refilled bus sel q1 (s\<lparr>txb_cache := (txb_cache s)[i := no_canid],
      emitted := emitted s @ [Txb_Ack i], queues := Q, xmit_stopped := 1, txb_lock := False\<rparr>) q' s'"
    and "tx_contents q1 = []" "tx_contents q = []" "rx_contents q1 = rx_contents q"
      "rx_capacity q1 = rx_capacity q" "tx_capacity q1 = tx_capacity q"
  shows "refilled bus (i # sel) q s q' s'"
  using assms by (cases s) (simp add: refilled_def split: if_splits)

lemma refilled_load:
  assumes "refilled bus sel q1 s1 q' s'"
    and "moved (s\<lparr>txb_cache := (txb_cache s)[i := no_canid], emitted := emitted s @ [Txb_Ack i],
           queues := Some q1\<rparr>) (runs bus (load_cmds (i, f)) (dev s)) s1"
    and "tx_contents q = f # tx_contents q1" "rx_contents q1 = rx_contents q"
      "rx_capacity q1 = rx_capacity q" "tx_capacity q1 = tx_capacity q"
  shows "refilled bus (i # sel) q s q' s'"
  using assms by (simp add: refilled_def moved_can_iff)

lemma wait_load_wp:
  fixes s :: "'d can_state"
  assumes "port_wf s" "i < 3" "filters_hidden bus N" "dev s \<in> N" "frame_ok f" "unat (dlc f) \<le> 8"
    and post: "\<And>s'. moved s (runs bus (load_cmds (i, f)) (dev s)) s' \<Longrightarrow> ok (k s') P"
  shows "ok (do { s \<leftarrow> wait_sent bus i s; s \<leftarrow> load_txb bus i f s; k s }) P"
  unfolding ok_bind
proof (rule wait_sent_wp [OF assms(1-4)])
  fix s1
  assume s1: "moved s (sends bus [CMD_READ, 0] 1 (dev s)) s1"
  show "ok (load_txb bus i f s1) (\<lambda>s. ok (k s) P)"
    by (rule load_frame_wp [OF movedD [OF s1] assms(5,6)], rule post)
      (use moved_trans [OF s1] in \<open>simp add: load_cmds_def txb_bytes_def moved_dev [OF s1]\<close>)
qed

definition served :: "u8 \<Rightarrow> nat list \<Rightarrow> nat list" where
  "served tx is = filter (\<lambda>i. tx AND BIT i \<noteq> 0) is"

lemma xmit_loop_wp:
  assumes "port_wf s" "\<not> txb_lock s" "queues s = Some q" "can_queued q" "length (txb_cache s) = 3"
    "filters_hidden bus N" "dev s \<in> N" "\<forall>i \<in> set is. i < 3"
    and "\<And>s' q'. refilled bus (served tx is) q s q' s' \<Longrightarrow>
       P (fold (\<lambda>i r. r OR BIT i) (take (length (tx_contents q)) (served tx is)) rts, s')"
  shows "ok (xmit_loop bus tx is rts s) P"
  using assms
proof (induction "is" arbitrary: s rts q)
  case Nil
  then show ?case by (simp add: refilled_def served_def)
next
  case (Cons i "is")
  then have i: "i < 3" by simp
  show ?case
  proof (cases "tx AND BIT i \<noteq> 0")
    case False
    then show ?thesis
      using Cons.prems by (auto intro!: Cons.IH simp: served_def)
  next
    case True
    let ?s = "s\<lparr>txb_cache := (txb_cache s)[i := no_canid], emitted := emitted s @ [Txb_Ack i]\<rparr>"
    let ?k = "\<lambda>(f, s). ok (case f of
         Some frame \<Rightarrow> do { s \<leftarrow> wait_sent bus i s; s \<leftarrow> load_txb bus i frame s;
            xmit_loop bus tx is (rts OR BIT i) s }
       | None \<Rightarrow> do { s \<leftarrow> stop_xmit s; xmit_loop bus tx is rts s }) P"
    have "ok (queue_pop_tx ?s) ?k"
    proof (rule queue_pop_tx_wp)
      show "queues ?s = Some q" "mq_wf q"
        using Cons.prems(3,4) by (simp_all add: can_queued_def)
      fix q1
      assume q1: "mq_wf q1" "tx_contents q1 = tl (tx_contents q)" "rx_contents q1 = rx_contents q"
        "rx_capacity q1 = rx_capacity q" "tx_capacity q1 = tx_capacity q"
      then have cq: "can_queued q1"
        using Cons.prems(4) by (cases "tx_contents q") (auto simp: can_queued_def)
      let ?s1 = "?s\<lparr>queues := Some q1\<rparr>"
      show "?k (if tx_contents q = [] then None else Some (hd (tx_contents q)), ?s1)"
      proof (cases "tx_contents q")
        case Nil
        have "ok (xmit_loop bus tx is rts (?s1\<lparr>xmit_stopped := 1, txb_lock := False\<rparr>)) P"
          by (rule Cons.IH [where q = q1])
            (use Cons.prems q1 cq True Nil in \<open>auto simp: served_def dest: refilled_empty [where q = q]\<close>)
        then show ?thesis
          using Cons.prems(2) Nil by (simp add: stop_xmit_free)
      next
        case (Cons f fs)
        then have f: "frame_ok f" "unat (dlc f) \<le> 8"
          using \<open>can_queued q\<close> by (auto simp: can_queued_def)
        have N: "runs bus (load_cmds (i, f)) (dev s) \<in> N"
          by (rule runs_normal) (use Cons.prems(6,7) load_cmds_normal [OF i] in auto)
        have wf1: "port_wf ?s1"
          using Cons.prems(1) by simp
        have "ok (xmit_loop bus tx is (rts OR BIT i) s3) P"
          if "moved ?s1 (runs bus (load_cmds (i, f)) (dev s)) s3" for s3
          by (rule Cons.IH [where q = q1])
            (use Cons.prems q1 cq True Cons i that N in
              \<open>auto simp: served_def moved_can_iff dest: refilled_load [where q = q]\<close>)
        then have "ok (do { s \<leftarrow> wait_sent bus i ?s1; s \<leftarrow> load_txb bus i f s;
            xmit_loop bus tx is (rts OR BIT i) s }) P"
          by (intro wait_load_wp [OF wf1 i Cons.prems(6) _ f]) (use Cons.prems(7) in simp_all)
        then show ?thesis
          using Cons by simp
      qed
    qed
    then show ?thesis
      using True i Cons.prems(5) by (simp add: canid_clear_cache_def case_prod_beta' emit_def)
  qed
qed

lemma transmit_message_wp:
  assumes "port_wf s" "\<not> txb_lock s" "queues s = Some q" "can_queued q" "length (txb_cache s) = 3"
    "filters_hidden bus N" "dev s \<in> N"
    and post: "\<And>s1 s2 s' q'. moved s (sends bus [CMD_BIT_MODIFY, CANINTF, push_bit TXIF_SHF tx, 0] 0 (dev s)) s1 \<Longrightarrow>
       refilled bus (served tx [2, 1, 0]) q s1 q' s2 \<Longrightarrow>
       moved s2 (sends bus [CMD_RTS OR fold (\<lambda>i r. r OR BIT i)
         (take (length (tx_contents q)) (served tx [2, 1, 0])) 0] 0 (dev s2)) s' \<Longrightarrow> P s'"
  shows "ok (transmit_message bus tx s) P"
  unfolding transmit_message_def ok_bind
proof (rule bit_modify_wp [OF assms(1)])
  fix s1
  assume s1: "moved s (sends bus [CMD_BIT_MODIFY, CANINTF, push_bit TXIF_SHF tx, 0] 0 (dev s)) s1"
  have rev: "rev [0..<TXB_NUM] = [2, 1, 0]"
    by (simp add: upt_rec)
  have N: "dev s1 \<in> N"
    using s1 assms(6,7) by (auto simp: moved_dev filters_hidden_def normal_cmd_def)
  show "ok (xmit_loop bus tx (rev [0..<TXB_NUM]) 0 s1)
      (\<lambda>x. ok (case x of (rts, s) \<Rightarrow> mcp2515_rts bus rts s) P)"
    unfolding rev
    by (rule xmit_loop_wp [where q = q and N = N])
      (use assms(2-6) N s1 movedD [OF s1] post [OF s1] in
        \<open>auto simp: frame_simps [OF s1] refilled_def intro!: rts_wp\<close>)
qed

text \<open>
  C14: a transmit interrupt for the buffers \<open>tx\<close> clears their flags, hands the queued frames out in
  queue order to the flagged buffers from the highest to the lowest, loads each (after one read of
  register 0, which is what the wait for the previous message comes to), and requests to send
  exactly the loaded buffers in one command. The cached identifiers of all flagged buffers are
  dropped and the buffers acknowledged; transmission is marked stopped exactly when the queue ran
  out of frames; nothing else of the driver's state changes.
\<close>

theorem transmit_message_refills:
  assumes "port_wf s" "\<not> txb_lock s" "queues s = Some q" "can_queued q" "length (txb_cache s) = 3"
    "filters_hidden bus N" "dev s \<in> N"
    "sel = filter (\<lambda>i. tx AND BIT i \<noteq> 0) [2, 1, 0]" "loaded = zip sel (tx_contents q)"
  shows "\<exists>s' q'. transmit_message bus tx s = Some s' \<and> queues s' = Some q' \<and>
     dev s' = runs bus ([([CMD_BIT_MODIFY, CANINTF, push_bit TXIF_SHF tx, 0], 0)] @
         concat (map load_cmds loaded) @
         [([CMD_RTS OR fold (\<lambda>i r. r OR BIT i) (map fst loaded) 0], 0)]) (dev s) \<and>
     tx_contents q = map snd loaded @ tx_contents q' \<and> rx_contents q' = rx_contents q \<and>
     txb_cache s' = fold (\<lambda>i c. c[i := no_canid]) sel (txb_cache s) \<and>
     xmit_stopped s' = (if length (tx_contents q) < length sel then 1 else xmit_stopped s) \<and>
     emitted s' = emitted s @ map Txb_Ack sel \<and> port_wf s' \<and> \<not> txb_lock s' \<and> can_queued q'"
proof -
  have sel: "served tx [2, 1, 0] = sel"
    by (simp add: served_def assms(8))
  have loaded: "map fst loaded = take (length (tx_contents q)) sel"
      "tx_contents q = map snd loaded @ drop (length sel) (tx_contents q)"
    by (simp_all add: assms(9) map_fst_zip_take map_snd_zip_take min_def)
  let ?Q = "\<lambda>s' q'. queues s' = Some q' \<and>
     dev s' = runs bus ([([CMD_BIT_MODIFY, CANINTF, push_bit TXIF_SHF tx, 0], 0)] @
         concat (map load_cmds loaded) @
         [([CMD_RTS OR fold (\<lambda>i r. r OR BIT i) (map fst loaded) 0], 0)]) (dev s) \<and>
     tx_contents q = map snd loaded @ tx_contents q' \<and> rx_contents q' = rx_contents q \<and>
     txb_cache s' = fold (\<lambda>i c. c[i := no_canid]) sel (txb_cache s) \<and>
     xmit_stopped s' = (if length (tx_contents q) < length sel then 1 else xmit_stopped s) \<and>
     emitted s' = emitted s @ map Txb_Ack sel \<and> port_wf s' \<and> \<not> txb_lock s' \<and> can_queued q'"
  have "ok (transmit_message bus tx s) (\<lambda>s'. \<exists>q'. ?Q s' q')"
  proof (rule transmit_message_wp [OF assms(1-7)], unfold sel)
    fix s1 s2 s' q'
    assume s1: "moved s (sends bus [CMD_BIT_MODIFY, CANINTF, push_bit TXIF_SHF tx, 0] 0 (dev s)) s1"
      and s2: "refilled bus sel q s1 q' s2"
      and s': "moved s2 (sends bus [CMD_RTS OR fold (\<lambda>i r. r OR BIT i)
         (take (length (tx_contents q)) sel) 0] 0 (dev s2)) s'"
    have "?Q s' q'"
      using s2 movedD [OF s'] loaded(2)
      by (simp add: refilled_def loaded(1) frame_simps [OF s'] frame_simps [OF s1]
          moved_dev [OF s'] moved_dev [OF s1]) (simp add: assms(9))
    then show "\<exists>q'. ?Q s' q'" by blast
  qed
  then show ?thesis
    unfolding ok_def by blast
qed

definition sample_tx_mq :: mq_mem where
  "sample_tx_mq = \<lparr>pool = [sample_frame 1, sample_frame 2, sample_frame 0, sample_frame 0, sample_frame 0, sample_frame 0],
     txq = \<lparr>frames = 0, head = 0, tail = 2, qsize = 3, qlock = False\<rparr>,
     rxq = \<lparr>frames = 3, head = 0, tail = 0, qsize = 3, qlock = False\<rparr>\<rparr>"

lemma sample_tx_contents: "tx_contents sample_tx_mq = [sample_frame 1, sample_frame 2]"
  by (simp add: tx_contents_def mq_contents_def mq_count_def mq_slot_def sample_tx_mq_def upt_rec)

lemma sample_tx_queued: "can_queued sample_tx_mq"
  unfolding can_queued_def sample_tx_contents
  by (simp add: mq_wf_def cb_wf_def sample_tx_mq_def sample_frame_def frame_ok_def)

lemma bench_filters_hidden: "filters_hidden bench_bus {d. replies d = []}"
  by (auto simp: filters_hidden_def bench_full_duplex answer_def sends_def bench_bus_def Let_def)

definition bench_irq :: "bench can_state" where
  "bench_irq = (bench_can [])\<lparr>queues := Some sample_tx_mq\<rparr>"

lemma bench_irq_fields [simp]:
  "port_wf bench_irq" "\<not> txb_lock bench_irq" "queues bench_irq = Some sample_tx_mq"
  "length (txb_cache bench_irq) = 3" "dev bench_irq \<in> {d. replies d = []}" "emitted bench_irq = []"
  "replies (dev bench_irq) = []"
  by (simp_all add: bench_irq_def) (simp_all add: bench_can_def)

theorem transmit_message_refills_witness:
  "\<exists>s' q'. transmit_message bench_bus 7 bench_irq = Some s' \<and> queues s' = Some q' \<and>
     tx_contents q' = [] \<and> xmit_stopped s' = 1 \<and> emitted s' = [Txb_Ack 2, Txb_Ack 1, Txb_Ack 0]"
proof -
  have sel: "[2, 1, 0] = filter (\<lambda>i. (7 :: u8) AND BIT i \<noteq> 0) [2, 1, 0]"
    by (simp add: BIT_def)
  from transmit_message_refills [OF bench_irq_fields(1-3) sample_tx_queued bench_irq_fields(4)
      bench_filters_hidden bench_irq_fields(5) sel refl]
  show ?thesis
    by (auto simp: sample_tx_contents)
qed

section \<open>Reception\<close>

definition rxb_fits :: "u8 list \<Rightarrow> bool" where
  "rxb_fits buf \<longleftrightarrow> buf ! DLC AND BIT RTR_SHF \<noteq> 0 \<or> buf ! DLC AND 0xF \<le> 8"

lemma and_BIT: "w AND BIT n = 0 \<longleftrightarrow> \<not> bit w n"
  by (simp add: BIT_def push_bit_of_1 and_exp_eq_0_iff_not_bit)

lemma flag_word: "(ucast x :: 1 word) = 0 \<longleftrightarrow> \<not> bit x 0"
  using bit_flag [of "ucast x" 0] by (simp add: bit_unsigned_iff)

lemma unat_nibble: "unat (ucast (b :: u8) :: 4 word) = unat (b AND 0xF)"
proof -
  have "bit (0xF :: int) n \<longleftrightarrow> n < 4" for n
    using bit_mask_iff [of 4 n, where ?'a = int] by (simp add: mask_eq_exp_minus_1)
  then have "b AND 0xF = ucast (ucast b :: 4 word)"
    by (intro bit_word_eqI) (auto simp: bits)
  then show ?thesis
    using unsigned_less [of "ucast b :: 4 word", where ?'a = nat]
    by (simp add: unsigned_ucast_eq unsigned_take_bit_eq)
qed
lemma rxb_fits_decode:
  "rxb_fits buf \<longleftrightarrow> (ucast (drop_bit RTR_SHF (buf ! DLC)) :: 1 word) \<noteq> 0 \<or>
     unat (ucast (buf ! DLC) :: 4 word) \<le> 8"
  by (simp add: rxb_fits_def and_BIT flag_word bit_drop_bit_eq unat_nibble word_le_nat_alt)

lemma decode_rxb_fits:
  assumes "length buf = MAX_BUF_LEN" "frame_ok old" "rxb_fits buf"
  shows "\<exists>f. decode_rxb buf old = Some f \<and> frame_ok f \<and> unat (dlc f) \<le> CAN_MAX_DLC"
  using assms by (auto simp: decode_rxb_def Let_def rxb_fits_decode frame_ok_def)

lemma decode_rxb_overflow:
  assumes "frame_ok old" "\<not> rxb_fits buf"
  shows "decode_rxb buf old = None"
  using assms by (auto simp: decode_rxb_def Let_def rxb_fits_decode frame_ok_def memcpy_out)

lemma queue_push_rx_wp [wp]:
  assumes "queues s = Some q" "mq_wf q"
    "\<And>q' r. mq_wf q' \<Longrightarrow> tx_contents q' = tx_contents q \<Longrightarrow> rx_capacity q' = rx_capacity q \<Longrightarrow> tx_capacity q' = tx_capacity q \<Longrightarrow>
       rx_contents q' = (if length (rx_contents q) < rx_capacity q then rx_contents q @ [f] else rx_contents q) \<Longrightarrow>
       r = (if length (rx_contents q) < rx_capacity q then 0 else -1) \<Longrightarrow>
       P (r, s\<lparr>queues := Some q'\<rparr>)"
  shows "ok (queue_push_rx f s) P"
  using assms by (cases rule: rx.push_cases [OF assms(2), of f]) (auto simp: queue_push_rx_def)


text \<open>
  The frames of \<open>n\<close> receive buffers read one after the other, each decoded over the frame before it;
  \<open>None\<close> where a length code does not fit the payload.
\<close>

fun received :: "'d bus \<Rightarrow> nat \<Rightarrow> can_frame \<Rightarrow> 'd \<Rightarrow> can_frame list option" where
  "received bus 0 old d = Some []"
| "received bus (Suc n) old d = do {
     f \<leftarrow> decode_rxb (answer bus [CMD_READ_RXB] MAX_BUF_LEN d) old;
     fs \<leftarrow> received bus n f (sends bus [CMD_READ_RXB] MAX_BUF_LEN d);
     Some (f # fs)
   }"

lemma receive_one_wp:
  fixes s :: "'d can_state"
  assumes "port_wf s" "full_duplex bus" "queues s = Some q" "mq_wf q"
    "decode_rxb (answer bus [CMD_READ_RXB] MAX_BUF_LEN (dev s)) (fst fr) = Some f"
    and post: "\<And>s' q' r. mq_wf q' \<Longrightarrow> tx_contents q' = tx_contents q \<Longrightarrow> tx_capacity q' = tx_capacity q \<Longrightarrow>
      rx_capacity q' = rx_capacity q \<Longrightarrow> rx_contents q' = take (rx_capacity q) (rx_contents q @ [f]) \<Longrightarrow>
      moved (s\<lparr>queues := Some q', queue_sem := queue_sem s + 1\<rparr>)
        (sends bus [CMD_READ_RXB] MAX_BUF_LEN (dev s)) s' \<Longrightarrow> P ((f, r), s')"
  shows "ok (receive_one bus n fr s) P"
  unfolding receive_one_def ok_bind
proof (rule recv_frame_wp [OF assms(1,2,5)])
  fix s1
  assume s1: "moved s (sends bus [CMD_READ_RXB] MAX_BUF_LEN (dev s)) s1"
  have q1: "queues s1 = Some q"
    using frame_simps(2) [OF s1] assms(3) by simp
  show "ok (case (f, s1) of (frame, s) \<Rightarrow> do { (r, s) \<leftarrow> queue_push_rx frame s;
        Some ((frame, snd fr + r), queue_lock_post s) }) P"
    unfolding case_prod_conv ok_bind
  proof (rule queue_push_rx_wp [OF q1 assms(4)])
    fix q' r
    assume q': "mq_wf q'" "tx_contents q' = tx_contents q" "rx_capacity q' = rx_capacity q"
      "tx_capacity q' = tx_capacity q"
      "rx_contents q' = (if length (rx_contents q) < rx_capacity q then rx_contents q @ [f] else rx_contents q)"
    show "ok (case (r, s1\<lparr>queues := Some q'\<rparr>) of (r, s) \<Rightarrow> Some ((f, snd fr + r), queue_lock_post s)) P"
      using q' s1 rx_contents_bounded [OF assms(4)]
      by (simp add: queue_lock_post_def) (rule post, auto simp: moved_can_iff)
  qed
qed

lemma take_take_append: "take c (take c xs @ ys) = take c (xs @ ys)"
  by (cases "length xs \<le> c") auto

lemma receive_message_wp:
  fixes s :: "'d can_state"
  assumes "port_wf s" "full_duplex bus" "queues s = Some q" "mq_wf q"
    "n = length (filter (\<lambda>i. rx AND BIT i \<noteq> 0) [0, 1])" "received bus n frame (dev s) = Some fs"
    and post: "\<And>s' q'. mq_wf q' \<Longrightarrow> tx_contents q' = tx_contents q \<Longrightarrow> tx_capacity q' = tx_capacity q \<Longrightarrow>
      rx_capacity q' = rx_capacity q \<Longrightarrow> rx_contents q' = take (rx_capacity q) (rx_contents q @ fs) \<Longrightarrow>
      moved (s\<lparr>queues := Some q', queue_sem := queue_sem s + n\<rparr>)
        (runs bus (replicate n ([CMD_READ_RXB], MAX_BUF_LEN)) (dev s)) s' \<Longrightarrow> P s'"
  shows "ok (receive_message bus frame rx s) P"
proof -
  have two: "ok (receive_one bus 0 (frame, 0) s) (\<lambda>x. ok (receive_one bus 1 (fst x) (snd x)) (\<lambda>x. P (snd x)))"
    if n: "n = Suc (Suc 0)"
  proof -
    obtain f g where f: "decode_rxb (answer bus [CMD_READ_RXB] MAX_BUF_LEN (dev s)) frame = Some f"
        "decode_rxb (answer bus [CMD_READ_RXB] MAX_BUF_LEN
          (sends bus [CMD_READ_RXB] MAX_BUF_LEN (dev s))) f = Some g" and fs: "fs = [f, g]"
      using assms(6) n by (auto simp: bind_splits)
    show ?thesis
    proof (rule receive_one_wp [OF assms(1-4)])
      fix s1 q1 r
      assume q1: "mq_wf q1" "tx_contents q1 = tx_contents q" "tx_capacity q1 = tx_capacity q"
        "rx_capacity q1 = rx_capacity q" "rx_contents q1 = take (rx_capacity q) (rx_contents q @ [f])"
        and s1: "moved (s\<lparr>queues := Some q1, queue_sem := queue_sem s + 1\<rparr>)
          (sends bus [CMD_READ_RXB] MAX_BUF_LEN (dev s)) s1"
      have "ok (receive_one bus 1 (f, r) s1) (\<lambda>x. P (snd x))"
        by (rule receive_one_wp [OF movedD [OF s1] assms(2) _ q1(1), where f = g], rule_tac [3] post)
          (use s1 q1 f n fs in \<open>auto simp: moved_can_iff take_take_append simp del: take_append\<close>)
      then show "ok (receive_one bus 1 (fst ((f, r), s1)) (snd ((f, r), s1))) (\<lambda>x. P (snd x))"
        by simp
    qed (use f in simp)
  qed
  have one: "ok (receive_one bus i (frame, 0) s) (\<lambda>x. P (snd x))" if n: "n = Suc 0" for i
  proof -
    obtain f where "decode_rxb (answer bus [CMD_READ_RXB] MAX_BUF_LEN (dev s)) frame = Some f" "fs = [f]"
      using assms(6) n by (auto simp: bind_splits)
    then show ?thesis
      by (intro receive_one_wp [OF assms(1-4)]) (use n in \<open>auto intro!: post\<close>)
  qed
  show ?thesis
    using two one assms(5,6) post [of q s] moved_refl [OF assms(1)] assms(1,3,4) rx_contents_bounded [OF assms(4)]
    by (auto simp: receive_message_def split_beta moved_can_iff split: if_splits)
qed

text \<open>
  C15: a receive interrupt reads one frame per flagged buffer, in every case with the instruction
  that addresses receive buffer 0, appends what fits into the receive queue in order and drops the
  rest, and posts the semaphore once per flagged buffer, also for a frame that was dropped.
\<close>

theorem receive_message_queues:
  assumes "port_wf s" "full_duplex bus" "queues s = Some q" "mq_wf q"
    "n = length (filter (\<lambda>i. rx AND BIT i \<noteq> 0) [0, 1])" "received bus n frame (dev s) = Some fs"
  shows "\<exists>s' q'. receive_message bus frame rx s = Some s' \<and> queues s' = Some q' \<and> mq_wf q' \<and>
     rx_contents q' = take (rx_capacity q) (rx_contents q @ fs) \<and> tx_contents q' = tx_contents q \<and>
     queue_sem s' = queue_sem s + n \<and>
     dev s' = runs bus (replicate n ([CMD_READ_RXB], MAX_BUF_LEN)) (dev s)"
proof -
  have "ok (receive_message bus frame rx s) (\<lambda>s'. \<exists>q'. queues s' = Some q' \<and> mq_wf q' \<and>
     rx_contents q' = take (rx_capacity q) (rx_contents q @ fs) \<and> tx_contents q' = tx_contents q \<and>
     queue_sem s' = queue_sem s + n \<and>
     dev s' = runs bus (replicate n ([CMD_READ_RXB], MAX_BUF_LEN)) (dev s))"
    by (rule receive_message_wp [OF assms]) (auto simp: moved_can_iff)
  then show ?thesis
    unfolding ok_def by blast
qed

definition bench_rx :: "bench can_state" where
  "bench_rx = (bench_can [[0x24, 0x60, 0, 0, 2, 0xCA, 0xFE, 0, 0, 0, 0, 0, 0]])\<lparr>queues := Some sample_mq\<rparr>"

definition got_frame :: can_frame where
  "got_frame = \<lparr>ident = \<lparr>id_num = 0x123, exide = 0, rtr = 0, err = 0\<rparr>, prio = 0, dlc = 2,
     payload = [0xCA, 0xFE, 0, 0, 0, 0, 0, 0]\<rparr>"

lemma bench_received: "received bench_bus 1 blank_frame (dev bench_rx) = Some [got_frame]"
  by code_simp

lemma sample_mq_facts: "mq_wf sample_mq" "rx_contents sample_mq = []" "rx_capacity sample_mq = 1"
  by (simp_all add: sample_mq_def mq_wf_def cb_wf_def rx_contents_def mq_contents_def mq_count_def
      rx_capacity_def)

theorem receive_message_queues_witness:
  "\<exists>s' q'. receive_message bench_bus blank_frame 1 bench_rx = Some s' \<and> queues s' = Some q' \<and>
     rx_contents q' = [got_frame] \<and> queue_sem s' = 1"
proof -
  have rx: "1 = length (filter (\<lambda>i. (1 :: u8) AND BIT i \<noteq> 0) [0, 1])"
    by (simp add: BIT_def)
  have s: "port_wf bench_rx" "queues bench_rx = Some sample_mq" "queue_sem bench_rx = 0"
    by (simp_all add: bench_rx_def) (simp add: bench_can_def)
  from receive_message_queues [OF s(1) bench_full_duplex s(2) sample_mq_facts(1) rx bench_received]
  show ?thesis
    by (auto simp: sample_mq_facts(2,3) s(3))
qed

section \<open>The handler as a whole\<close>

text \<open>
  What the driver relies on while the controller is in normal mode (states \<open>N\<close>): the filter
  registers are hidden, the mode register says so, and a received frame is either a remote frame or
  has a length code of at most 8.
\<close>

definition normal_mode :: "'d bus \<Rightarrow> 'd set \<Rightarrow> bool" where
  "normal_mode bus N \<longleftrightarrow> filters_hidden bus N \<and>
     (\<forall>d \<in> N. drop_bit CANSTAT_OPMOD_SHF (answer bus [CMD_READ, CANSTAT] 1 d ! 0) = op_code REQOP_NORMAL \<and>
        rxb_fits (answer bus [CMD_READ_RXB] MAX_BUF_LEN d))"

lemma normal_modeD:
  assumes "normal_mode bus N"
  shows "full_duplex bus" "filters_hidden bus N"
    "d \<in> N \<Longrightarrow> normal_cmd out \<Longrightarrow> sends bus out r d \<in> N"
    "d \<in> N \<Longrightarrow> drop_bit CANSTAT_OPMOD_SHF (answer bus [CMD_READ, CANSTAT] 1 d ! 0) = 0"
    "d \<in> N \<Longrightarrow> rxb_fits (answer bus [CMD_READ_RXB] MAX_BUF_LEN d)"
  using assms by (auto simp: normal_mode_def filters_hidden_def)

definition frame_fits :: "can_frame \<Rightarrow> bool" where
  "frame_fits f \<longleftrightarrow> frame_ok f \<and> unat (dlc f) \<le> CAN_MAX_DLC"

lemma received_fits:
  assumes "normal_mode bus N" "d \<in> N" "frame_ok old"
  shows "\<exists>fs. received bus n old d = Some fs \<and> length fs = n \<and> (\<forall>f \<in> set fs. frame_fits f)"
  using assms(2,3)
proof (induction n arbitrary: old d)
  case 0
  then show ?case by simp
next
  case (Suc n)
  let ?a = "answer bus [CMD_READ_RXB] MAX_BUF_LEN d"
  have "length ?a = MAX_BUF_LEN"
    using length_answer [OF normal_modeD(1) [OF assms(1)]] by simp
  then obtain f where f: "decode_rxb ?a old = Some f" "frame_fits f"
    using decode_rxb_fits normal_modeD(5) [OF assms(1)] Suc.prems by (fastforce simp: frame_fits_def)
  have "sends bus [CMD_READ_RXB] MAX_BUF_LEN d \<in> N"
    using normal_modeD(3) [OF assms(1) Suc.prems(1)] by (simp add: normal_cmd_def)
  from Suc.IH [OF this, of f] f show ?case
    by (auto simp: frame_fits_def)
qed

definition can_inv :: "'d set \<Rightarrow> 'd can_state \<Rightarrow> bool" where
  "can_inv N s \<longleftrightarrow> port_wf s \<and> \<not> txb_lock s \<and> length (txb_cache s) = 3 \<and> dev s \<in> N \<and>
     (\<exists>q. queues s = Some q \<and> mq_wf q \<and> (\<forall>f \<in> set (tx_contents q @ rx_contents q). frame_fits f) \<and>
        length (rx_contents q) \<le> queue_sem s)"

text \<open>\<open>calm N s s'\<close>: only the transfer buffers and the controller moved, which stayed in \<open>N\<close>.\<close>

definition calm :: "'d set \<Rightarrow> 'd can_state \<Rightarrow> 'd can_state \<Rightarrow> bool" where
  "calm N s s' \<longleftrightarrow> dev s' \<in> N \<and> moved s (dev s') s'"

lemma calm_trans: "calm N s s' \<Longrightarrow> calm N s' s'' \<Longrightarrow> calm N s s''"
  by (auto simp: calm_def intro: moved_trans)

lemma calm_refl: "port_wf s \<Longrightarrow> dev s \<in> N \<Longrightarrow> calm N s s"
  by (simp add: calm_def moved_refl)

lemma calmI: "moved s d s' \<Longrightarrow> d \<in> N \<Longrightarrow> calm N s s'"
  by (simp add: calm_def moved_dev)

lemma calm_wf: "calm N s s' \<Longrightarrow> port_wf s'" "calm N s s' \<Longrightarrow> dev s' \<in> N"
  by (auto simp: calm_def)

lemma can_inv_calm: "can_inv N s \<Longrightarrow> calm N s s' \<Longrightarrow> can_inv N s'"
  by (auto simp: can_inv_def calm_def moved_can_iff)

text \<open>The commands of the driver in normal mode, from any state that is calm since \<open>s0\<close>.\<close>

lemma calm_modify:
  assumes "normal_mode bus N" "calm N s0 s" "r \<noteq> CANCTRL" "\<And>s'. calm N s0 s' \<Longrightarrow> P s'"
  shows "ok (mcp2515_bit_modify bus r m v s) P"
proof (rule bit_modify_wp [OF calm_wf(1) [OF assms(2)]], rule assms(4))
  fix s'
  assume "moved s (sends bus [CMD_BIT_MODIFY, r, m, v] 0 (dev s)) s'"
  then show "calm N s0 s'"
    using assms(3) normal_modeD(3) [OF assms(1) calm_wf(2) [OF assms(2)]]
    by (intro calm_trans [OF assms(2)] calmI) (auto simp: normal_cmd_def)
qed

lemma calm_read:
  assumes "normal_mode bus N" "calm N s0 s"
    "\<And>s'. calm N s0 s' \<Longrightarrow> P (answer bus [CMD_READ, r] 1 (dev s) ! 0, s')"
  shows "ok (mcp2515_read_reg bus r s) P"
proof (rule read_reg_wp [OF calm_wf(1) [OF assms(2)] normal_modeD(1) [OF assms(1)]], rule assms(3))
  fix s'
  assume "moved s (sends bus [CMD_READ, r] 1 (dev s)) s'"
  then show "calm N s0 s'"
    using normal_modeD(3) [OF assms(1) calm_wf(2) [OF assms(2)]]
    by (intro calm_trans [OF assms(2)] calmI) (auto simp: normal_cmd_def)
qed

lemma report_error_calm:
  assumes "normal_mode bus N" "calm N s0 s" "\<And>s'. calm N s0 s' \<Longrightarrow> P s'"
  shows "ok (report_error bus s) P"
proof -
  note m = calm_modify [OF assms(1)] and r = calm_read [OF assms(1)]
  show ?thesis
    unfolding report_error_def ok_bind
    by (rule r [OF assms(2)]) (auto intro!: m assms(3) simp: ok_if split: if_splits)
qed

lemma report_message_error_calm:
  assumes "normal_mode bus N" "calm N s0 s" "\<And>s'. calm N s0 s' \<Longrightarrow> P s'"
  shows "ok (report_message_error bus s) P"
proof -
  have "drop_bit 5 (answer bus [CMD_READ, CANSTAT] 1 (dev s) ! 0) = 0"
    using normal_modeD(4) [OF assms(1) calm_wf(2) [OF assms(2)]] by simp
  then show ?thesis
    unfolding report_message_error_def get_mode_def ok_bind
    by (intro calm_read [OF assms(1,2)]) (simp, erule calm_modify [OF assms(1)], simp_all add: assms(3))
qed

lemma runs_in:
  assumes "normal_mode bus N" "d \<in> N" "\<forall>t \<in> set ts. normal_cmd (fst t)"
  shows "runs bus ts d \<in> N"
  using runs_normal [OF normal_modeD(2) [OF assms(1)]] assms(2,3) by blast

lemma bit_rts_mask:
  "bit (fold (\<lambda>i r. r OR BIT i) is r0 :: u8) k \<longleftrightarrow> bit r0 k \<or> k \<in> set is \<and> k < 8"
  by (induction "is" arbitrary: r0) (auto simp: bit_or_iff bit_BIT)

lemma rts_normal:
  assumes "set is \<subseteq> {0, 1, 2}"
  shows "normal_cmd [CMD_RTS OR fold (\<lambda>i r. r OR BIT i) is 0]"
proof -
  let ?c = "CMD_RTS OR fold (\<lambda>i r. r OR BIT i) is 0 :: u8"
  have "bit ?c 7" "\<not> bit ?c 6"
    using assms by (auto simp: bit_or_iff bit_rts_mask)
  then have "?c \<noteq> CMD_RESET" "?c \<noteq> CMD_WRITE" "?c \<noteq> CMD_BIT_MODIFY"
    by auto
  then show ?thesis
    by (simp add: normal_cmd_def)
qed

lemma load_list_normal:
  "\<forall>i \<in> set sel. i < 3 \<Longrightarrow> \<forall>t \<in> set (concat (map load_cmds (zip sel fs))). normal_cmd (fst t)"
  by (auto dest!: set_zip_leftD intro: load_cmds_normal)

lemma transmit_message_inv:
  assumes "normal_mode bus N" "can_inv N s"
    "\<And>s'. can_inv N s' \<Longrightarrow> emitted s' = emitted s @ map Txb_Ack (served tx [2, 1, 0]) \<Longrightarrow> P s'"
  shows "ok (transmit_message bus tx s) P"
proof -
  from assms(2) obtain q where q: "queues s = Some q" "can_queued q"
      "\<forall>f \<in> set (rx_contents q). frame_fits f" "length (rx_contents q) \<le> queue_sem s"
    and s: "port_wf s" "\<not> txb_lock s" "length (txb_cache s) = 3" "dev s \<in> N"
    by (auto simp: can_inv_def can_queued_def frame_fits_def)
  show ?thesis
  proof (rule transmit_message_wp [OF s(1,2) q(1,2) s(3) normal_modeD(2) [OF assms(1)] s(4)])
    fix s1 s2 s' q'
    assume s1: "moved s (sends bus [CMD_BIT_MODIFY, CANINTF, push_bit TXIF_SHF tx, 0] 0 (dev s)) s1"
      and s2: "refilled bus (served tx [2, 1, 0]) q s1 q' s2"
      and s': "moved s2 (sends bus [CMD_RTS OR fold (\<lambda>i r. r OR BIT i)
         (take (length (tx_contents q)) (served tx [2, 1, 0])) 0] 0 (dev s2)) s'"
    let ?c = "CMD_RTS OR fold (\<lambda>i r. r OR BIT i) (take (length (tx_contents q)) (served tx [2, 1, 0])) 0"
    have "dev s1 \<in> N"
      using normal_modeD(3) [OF assms(1) s(4)] by (simp add: moved_dev [OF s1] normal_cmd_def)
    then have "dev s2 \<in> N"
      using s2 runs_in [OF assms(1) _ load_list_normal [of "served tx [2, 1, 0]"]]
      by (simp add: refilled_def served_def)
    moreover have "normal_cmd [?c]"
      by (rule rts_normal) (auto simp: served_def dest: in_set_takeD)
    ultimately have "dev s' \<in> N"
      using normal_modeD(3) [OF assms(1)] by (simp add: moved_dev [OF s'])
    then show "P s'"
      using s2 q s movedD [OF s']
      by (intro assms(3)) (auto simp: can_inv_def refilled_def frame_simps [OF s'] frame_simps [OF s1]
          can_queued_def frame_fits_def)
  qed
qed

lemma receive_message_inv:
  assumes "normal_mode bus N" "can_inv N s" "frame_ok frame"
    "\<And>s'. can_inv N s' \<Longrightarrow> emitted s' = emitted s \<Longrightarrow> P s'"
  shows "ok (receive_message bus frame rx s) P"
proof -
  from assms(2) obtain q where q: "queues s = Some q" "mq_wf q" "\<forall>f \<in> set (tx_contents q). frame_fits f"
      "\<forall>f \<in> set (rx_contents q). frame_fits f" "length (rx_contents q) \<le> queue_sem s"
    and s: "port_wf s" "\<not> txb_lock s" "length (txb_cache s) = 3" "dev s \<in> N"
    by (auto simp: can_inv_def)
  define n where "n = length (filter (\<lambda>i. rx AND BIT i \<noteq> 0) [0, 1])"
  obtain fs where fs: "received bus n frame (dev s) = Some fs" "length fs = n" "\<forall>f \<in> set fs. frame_fits f"
    using received_fits [OF assms(1) s(4) assms(3)] by blast
  show ?thesis
  proof (rule receive_message_wp [OF s(1) normal_modeD(1) [OF assms(1)] q(1,2) n_def fs(1)])
    fix s' q'
    assume q': "mq_wf q'" "tx_contents q' = tx_contents q"
        "rx_contents q' = take (rx_capacity q) (rx_contents q @ fs)"
      and s': "moved (s\<lparr>queues := Some q', queue_sem := queue_sem s + n\<rparr>)
        (runs bus (replicate n ([CMD_READ_RXB], MAX_BUF_LEN)) (dev s)) s'"
    have "runs bus (replicate n ([CMD_READ_RXB], MAX_BUF_LEN)) (dev s) \<in> N"
      by (rule runs_in [OF assms(1) s(4)]) (simp add: normal_cmd_def)
    then show "P s'"
      using s' q' q s fs
      by (intro assms(4)) (auto simp: can_inv_def moved_can_iff dest: in_set_takeD)
  qed
qed

lemma ok_optI:
  assumes "I s" "b \<Longrightarrow> ok m I"
  shows "ok (if b then m else Some s) I"
  using assms by simp

lemma ok_bindI: "ok m I \<Longrightarrow> (\<And>x. I x \<Longrightarrow> ok (f x) P) \<Longrightarrow> ok (Option.bind m f) P"
  by (auto simp: ok_def)

lemma served_flags:
  "served (drop_bit TXIF_SHF (flags AND TXIF_MASK)) [2, 1, 0] = filter (\<lambda>i. bit flags (i + 2)) [2, 1, 0]"
  by (simp add: served_def and_BIT bit_drop_bit_eq bit_and_iff bit_or_iff bit_BIT)

lemma irq_handler_inv:
  assumes "normal_mode bus N" "can_inv N s" "frame_ok frame"
  defines "flags \<equiv> answer bus [CMD_READ, CANINTF] 1 (dev s) ! 0"
  shows "ok (irq_handler bus frame s) (\<lambda>s'. can_inv N s' \<and>
     emitted s' = emitted s @ map Txb_Ack (filter (\<lambda>i. bit flags (i + 2)) [2, 1, 0]) @
       [Int_Reg_Callback, Int_Ack])"
proof -
  let ?acks = "filter (\<lambda>i. bit flags (i + 2)) [2, 1, 0]"
  have c: "calm N s s"
    using assms(2) by (auto simp: can_inv_def intro: calm_refl)
  have inv: "can_inv N s'" "emitted s' = emitted s" if "calm N s s'" for s'
    using can_inv_calm [OF assms(2) that] that by (auto simp: calm_def moved_can_iff)
  have tx: "ok (if flags AND TXIF_MASK \<noteq> 0
        then transmit_message bus (drop_bit TXIF_SHF (flags AND TXIF_MASK)) s' else Some s')
      (\<lambda>s'. can_inv N s' \<and> emitted s' = emitted s @ map Txb_Ack ?acks)" if "calm N s s'" for s'
  proof (cases "flags AND TXIF_MASK = 0")
    case True
    then have "?acks = []"
      using served_flags [of flags] by (simp add: served_def)
    with True inv [OF that] show ?thesis by simp
  next
    case False
    then show ?thesis
      using inv [OF that] served_flags [of flags]
      by (auto intro!: transmit_message_inv [OF assms(1)])
  qed
  have rx: "ok (if flags AND RXIF_MASK \<noteq> 0
        then receive_message bus frame (flags AND RXIF_MASK) s' else Some s')
      (\<lambda>s'. can_inv N s' \<and> emitted s' = emitted s @ map Txb_Ack ?acks)"
    if "can_inv N s' \<and> emitted s' = emitted s @ map Txb_Ack ?acks" for s'
    by (rule ok_optI) (use that in \<open>auto intro!: receive_message_inv [OF assms(1) _ assms(3)]\<close>)
  show ?thesis
    unfolding irq_handler_def
    apply (rule ok_bindI [where I = "\<lambda>(f, s'). f = flags \<and> calm N s s'"])
     apply (rule calm_read [OF assms(1) c], simp add: flags_def)
    apply (clarify)
    apply (rule ok_bindI [where I = "calm N s"])
     apply (rule ok_optI, assumption, erule report_message_error_calm [OF assms(1)], assumption)
    apply (rule ok_bindI [where I = "calm N s"])
     apply (rule ok_optI, assumption, erule calm_modify [OF assms(1)], simp, assumption)
    apply (rule ok_bindI [where I = "calm N s"])
     apply (rule ok_optI, assumption, erule report_error_calm [OF assms(1)], assumption)
    apply (rule ok_bindI [OF tx], assumption)
    apply (rule ok_bindI [OF rx], assumption)
    apply (auto simp: emit_def can_inv_def)
    done
qed

text \<open>
  C3: in normal mode the interrupt handler always comes back. Whatever the flag register says, it
  keeps the invariant of the driver (locks free, queues well formed, every queued frame within the
  frame format, at least as many semaphore counts as received frames), acknowledges exactly the
  transmit buffers that are flagged, re-registers itself and acknowledges the interrupt last.
\<close>

theorem irq_handler_serves:
  assumes "normal_mode bus N" "can_inv N s" "frame_ok frame"
    "flags = answer bus [CMD_READ, CANINTF] 1 (dev s) ! 0"
  shows "\<exists>s'. irq_handler bus frame s = Some s' \<and> can_inv N s' \<and>
     emitted s' = emitted s @ map Txb_Ack (filter (\<lambda>i. bit flags (i + 2)) [2, 1, 0]) @
       [Int_Reg_Callback, Int_Ack]"
  using irq_handler_inv [OF assms(1-3)] unfolding assms(4) ok_def by blast

text \<open>A controller that always reports the flags \<open>fl\<close>, zeros otherwise, and records what it is sent.\<close>

definition irq_bus :: "u8 \<Rightarrow> u8 list list bus" where
  "irq_bus fl app out r d =
     (replicate (length out) 0 @ (if out = [CMD_READ, CANINTF] then replicate r fl else replicate r 0),
      d @ [out])"

definition irq_state :: "u8 list list can_state" where
  "irq_state =
     \<lparr>txbuf = replicate 255 0, rxbuf = replicate 255 0, spi_lock = False, dev = [],
      txb_cache = replicate 3 no_canid, queues = Some sample_tx_mq, xmit_stopped = 1, txb_lock = False,
      queue_sem = 0, emitted = []\<rparr>"

lemma irq_bus_normal: "normal_mode (irq_bus fl) UNIV"
  by (auto simp: normal_mode_def filters_hidden_def full_duplex_def answer_def irq_bus_def rxb_fits_def)

lemma irq_state_inv: "can_inv UNIV irq_state"
proof -
  have "rx_contents sample_tx_mq = []"
    by (simp add: sample_tx_mq_def rx_contents_def mq_contents_def mq_count_def)
  then show ?thesis
    using sample_tx_queued
    by (simp add: can_inv_def irq_state_def port_wf_def can_queued_def frame_fits_def)
qed

theorem irq_handler_serves_witness:
  "\<exists>s'. irq_handler (irq_bus 0x15) blank_frame irq_state = Some s' \<and> can_inv UNIV s' \<and>
     emitted s' = [Txb_Ack 2, Txb_Ack 0, Int_Reg_Callback, Int_Ack]"
proof -
  have "(0x15 :: u8) = answer (irq_bus 0x15) [CMD_READ, CANINTF] 1 (dev irq_state) ! 0"
    by (simp add: answer_def irq_bus_def)
  from irq_handler_serves [OF irq_bus_normal irq_state_inv _ this, of blank_frame]
  show ?thesis
    by (simp add: blank_frame_def frame_ok_def irq_state_def bit_numeral_rec)
qed

end
