(* ===== verification/Can_Timing.thy ===== *)
theory Can_Timing
  imports Can_Frame
begin

text \<open>
  The bit timing of \<^verbatim>\<open>set_baudrate\<close> in \<^verbatim>\<open>components/can/src/controller.c\<close>: that the search finds the
  number of quanta with the least error, which segments follow from it, and what the controller
  reads out of the three registers that are programmed. The rounding division of the utility
  library is any function that \<open>rounds_to_nearest\<close>.
\<close>

text \<open>The usual rounding division, for the closed examples.\<close>

definition round_half_up :: "nat \<Rightarrow> nat \<Rightarrow> nat" where
  "round_half_up n d = n div d + (if d \<le> 2 * (n mod d) then 1 else 0)"

lemma round_half_up_rounds: "rounds_to_nearest round_half_up"
  by (auto simp: rounds_to_nearest_def round_half_up_def)

section \<open>The search for the number of time quanta\<close>

text \<open>The timing error of \<open>i\<close> quanta per bit, as the loop computes it.\<close>

definition tq_error :: "(nat \<Rightarrow> nat \<Rightarrow> nat) \<Rightarrow> nat \<Rightarrow> u32 \<Rightarrow> nat \<Rightarrow> u32" where
  "tq_error div_round ns_in_s bit_time i =
     (let tick = time_per_tick div_round ns_in_s;
          error = of_nat (unat (of_nat (div_round (unat bit_time) i) :: u32) mod tick) :: u32
      in if of_nat tick < 2 * error then of_nat tick - error else error)"

lemma tq_step_error:
  "tq_step div_round ns bt i acc =
     (if tq_error div_round ns bt i < fst acc then (tq_error div_round ns bt i, of_nat i) else acc)"
  by (simp add: tq_step_def tq_error_def Let_def)

lemma fold_first_min:
  fixes f :: "nat \<Rightarrow> 'a::linorder"
  shows "fold (\<lambda>i acc. if f i < fst acc then (f i, g i) else acc) xs (m, t) = (e, u) \<Longrightarrow>
    (\<forall>i \<in> set xs. e \<le> f i) \<and> e \<le> m \<and>
    ((e, u) = (m, t) \<and> (\<forall>i \<in> set xs. m \<le> f i) \<or>
     (\<exists>ys i zs. xs = ys @ i # zs \<and> e = f i \<and> u = g i \<and> (\<forall>j \<in> set ys. e < f j) \<and> e < m))"
proof (induction xs arbitrary: m t)
  case Nil
  then show ?case by simp
next
  case (Cons x xs)
  show ?case
  proof (cases "f x < m")
    case True
    with Cons.prems have *: "fold (\<lambda>i acc. if f i < fst acc then (f i, g i) else acc) xs (f x, g x) = (e, u)"
      by simp
    from Cons.IH [OF this] show ?thesis
    proof (elim conjE disjE exE)
      fix ys i zs
      assume "xs = ys @ i # zs" "e = f i" "u = g i" "\<forall>j \<in> set ys. e < f j" "e < f x"
        "\<forall>i \<in> set xs. e \<le> f i"
      then show ?thesis
        using True by (intro conjI disjI2 exI [of _ "x # ys"] exI [of _ i] exI [of _ zs]) auto
    next
      assume "(e, u) = (f x, g x)" "\<forall>i \<in> set xs. f x \<le> f i"
      then show ?thesis
        using True by (intro conjI disjI2 exI [of _ "[]"] exI [of _ x] exI [of _ xs]) auto
    qed
  next
    case False
    with Cons.prems have *: "fold (\<lambda>i acc. if f i < fst acc then (f i, g i) else acc) xs (m, t) = (e, u)"
      by simp
    from Cons.IH [OF this] False show ?thesis
    proof (elim conjE disjE exE)
      fix ys i zs
      assume "xs = ys @ i # zs" "e = f i" "u = g i" "\<forall>j \<in> set ys. e < f j" "e < m"
        "\<forall>i \<in> set xs. e \<le> f i"
      then show ?thesis
        using False by (intro conjI disjI2 exI [of _ "x # ys"] exI [of _ i] exI [of _ zs]) auto
    next
      assume "(e, u) = (m, t)" "\<forall>i \<in> set xs. m \<le> f i"
      then show ?thesis
        using False by (intro conjI disjI1) auto
    qed
  qed
qed

lemma tq_error_le: "time_per_tick div_round ns < 2 ^ 31 \<Longrightarrow> 0 < time_per_tick div_round ns \<Longrightarrow>
   tq_error div_round ns bt i < 0xFFFFFFFF"
proof -
  let ?t = "time_per_tick div_round ns"
  define x where "x = unat (of_nat (div_round (unat bt) i) :: u32) mod ?t"
  assume t: "?t < 2 ^ 31" "0 < ?t"
  then have x: "x < ?t"
    by (simp add: x_def)
  have u: "unat (of_nat x :: u32) = x" "unat (of_nat ?t :: u32) = ?t"
    using x t by (simp_all add: unsigned_of_nat take_bit_nat_eq_self)
  have "unat (of_nat ?t - of_nat x :: u32) = ?t - x"
    using x u by (simp add: unat_sub word_le_nat_alt)
  then have "unat (tq_error div_round ns bt i) \<le> ?t"
    using x u(1) by (simp add: tq_error_def Let_def flip: x_def)
  then show ?thesis
    using t by (simp add: word_less_nat_alt)
qed

lemma tq_search_minimum:
  assumes "tq_search div_round ns bt = (e, tq)" "0 < time_per_tick div_round ns" "time_per_tick div_round ns < 2 ^ 31"
  shows "MIN_TQ_NUM \<le> unat tq \<and> unat tq \<le> MAX_TQ_NUM \<and> e = tq_error div_round ns bt (unat tq) \<and>
     (\<forall>i \<in> {MIN_TQ_NUM..MAX_TQ_NUM}. e \<le> tq_error div_round ns bt i) \<and>
     (\<forall>i \<in> {MIN_TQ_NUM..<unat tq}. e < tq_error div_round ns bt i)"
proof -
  let ?f = "tq_error div_round ns bt"
  define xs where "xs = [MIN_TQ_NUM..<MAX_TQ_NUM + 1]"
  have all: "set xs = {8..25}"
    unfolding xs_def by (simp only: set_upt) auto
  have step: "tq_step div_round ns bt = (\<lambda>i acc. if ?f i < fst acc then (?f i, of_nat i) else acc)"
    by (intro ext) (simp only: tq_step_error)
  have "fold (\<lambda>i acc. if ?f i < fst acc then (?f i, of_nat i) else acc) xs (0xFFFFFFFF, of_nat MIN_TQ_NUM) = (e, tq)"
    using assms(1) by (simp only: tq_search_def step xs_def)
  note min = fold_first_min [OF this]
  have "8 \<in> set xs" "\<not> 0xFFFFFFFF \<le> ?f 8"
    using tq_error_le [OF assms(3,2), of bt 8] by (simp_all only: all not_le) simp
  then have "\<not> (\<forall>i \<in> set xs. 0xFFFFFFFF \<le> ?f i)"
    by blast
  with min obtain ys i zs where *: "\<forall>j \<in> set xs. e \<le> ?f j" "xs = ys @ i # zs"
      "e = ?f i" "tq = of_nat i" "\<forall>j \<in> set ys. e < ?f j"
    by blast
  have i: "i \<in> {8..25}"
    using * all by (metis in_set_conv_decomp)
  have "sorted_wrt (<) (ys @ i # zs)"
    using *(2) sorted_wrt_upt [of 8 26] by (simp only: xs_def) simp
  moreover have "{8..<i} \<subseteq> set (ys @ i # zs)"
    using i by (simp only: *(2) [symmetric] all) auto
  ultimately have ys: "x \<in> set ys" if "x \<in> {8..<i}" for x
    using that by (fastforce simp: sorted_wrt_append)
  have u: "unat tq = i"
    using i by (simp add: *(4) unsigned_of_nat take_bit_nat_eq_self)
  show ?thesis
    unfolding u
  proof (intro conjI)
    show "MIN_TQ_NUM \<le> i" "i \<le> MAX_TQ_NUM"
      using i by simp_all
    show "e = ?f i"
      by (rule *(3))
    show "\<forall>i \<in> {MIN_TQ_NUM..MAX_TQ_NUM}. e \<le> ?f i"
      using *(1) unfolding all .
    show "\<forall>j \<in> {MIN_TQ_NUM..<i}. e < ?f j"
      using *(5) ys by blast
  qed
qed

section \<open>A number of quanta without error\<close>

lemma rounds:
  assumes "rounds_to_nearest d" "0 < k"
  shows "2 * (n mod k) + 1 < k \<or> n mod k = 0 \<Longrightarrow> d n k = n div k"
    "k \<le> 2 * (n mod k) \<Longrightarrow> d n k = n div k + 1"
  using assms(1) [unfolded rounds_to_nearest_def, rule_format, OF assms(2), of n] by auto

lemma tq_search_exact:
  assumes "tq_search div_round ns bt = (e, tq)" "0 < time_per_tick div_round ns" "time_per_tick div_round ns < 2 ^ 31"
    "k \<in> {MIN_TQ_NUM..MAX_TQ_NUM}" "tq_error div_round ns bt k = 0"
    "\<forall>i \<in> {MIN_TQ_NUM..<k}. tq_error div_round ns bt i \<noteq> 0"
  shows "unat tq = k"
proof -
  note t = tq_search_minimum [OF assms(1-3)]
  then have "e = 0"
    using assms(4,5) by (metis word_le_0_iff)
  with t assms(4-6) show ?thesis
    by (metis atLeastAtMost_iff atLeastLessThan_iff less_irrefl linorder_cases)
qed

lemma tq_error_zero:
  assumes "time_per_tick div_round ns = 50"
  shows "tq_error div_round ns bt i = 0 \<longleftrightarrow> unat (of_nat (div_round (unat bt) i) :: u32) mod 50 = 0"
proof -
  define x where "x = unat (of_nat (div_round (unat bt) i) :: u32) mod 50"
  have "x < 50"
    by (simp add: x_def)
  then have u: "unat (of_nat x :: u32) = x"
    by (simp add: unsigned_of_nat take_bit_nat_eq_self)
  then have "(of_nat x :: u32) \<noteq> 50"
    using \<open>x < 50\<close> by (auto dest: arg_cong [of _ _ unat])
  then show ?thesis
    using u assms by (cases "x = 0") (auto simp: tq_error_def Let_def simp flip: x_def)
qed

lemma tq_search_zero:
  fixes bt :: u32
  assumes "rounds_to_nearest div_round" "k \<in> {MIN_TQ_NUM..MAX_TQ_NUM}" "unat bt mod k = 0"
    "unat bt div k mod 50 = 0"
    "\<forall>i \<in> {MIN_TQ_NUM..<k}. unat bt div i mod 50 \<noteq> 0 \<and> Suc (unat bt div i) mod 50 \<noteq> 0"
  shows "tq_search div_round 1000000000 bt = (0, of_nat k)"
proof -
  have tick: "time_per_tick div_round 1000000000 = 50"
    by (simp add: time_per_tick_def rounds [OF assms(1)])
  obtain e tq where es: "tq_search div_round 1000000000 bt = (e, tq)"
    by (metis surj_pair)
  have le: "unat (of_nat (div_round (unat bt) i) :: u32) = div_round (unat bt) i \<and>
      div_round (unat bt) i \<in> {unat bt div i, Suc (unat bt div i)}" if "8 \<le> i" for i
  proof -
    have dr: "div_round (unat bt) i \<in> {unat bt div i, Suc (unat bt div i)}"
      using assms(1) [unfolded rounds_to_nearest_def, rule_format, of i "unat bt"] that by auto
    have "unat bt div i \<le> unat bt div 8"
      using that by (simp add: div_le_mono2)
    moreover have "unat bt < 2 ^ 32"
      using unsigned_less [of bt, where ?'a = nat] by simp
    ultimately have "div_round (unat bt) i < 2 ^ 32"
      using dr by auto
    with dr show ?thesis
      by (simp add: unsigned_of_nat take_bit_nat_eq_self)
  qed
  have "unat tq = k"
  proof (rule tq_search_exact [OF es _ _ assms(2)])
    show "tq_error div_round 1000000000 bt k = 0"
      using le [of k] assms(2,3,4) rounds(1) [OF assms(1), of k "unat bt"] by (simp add: tq_error_zero [OF tick])
    show "\<forall>i \<in> {MIN_TQ_NUM..<k}. tq_error div_round 1000000000 bt i \<noteq> 0"
      using le assms(5) by (fastforce simp: tq_error_zero [OF tick])
  qed (simp_all add: tick)
  then have "tq = of_nat k"
    by (simp flip: \<open>unat tq = k\<close>)
  moreover have "e = 0"
    using tq_search_minimum [OF es] tick le [of k] assms(2,3,4) rounds(1) [OF assms(1), of k "unat bt"]
      \<open>unat tq = k\<close> tq_error_zero [OF tick, of bt k] by simp
  ultimately show ?thesis
    using es by simp
qed

lemma tq_search_sample: "tq_search round_half_up 1000000000 1250 = (0, 25)"
proof -
  have "\<forall>i \<in> {MIN_TQ_NUM..<25}. (1250 :: nat) div i mod 50 \<noteq> 0 \<and> Suc (1250 div i) mod 50 \<noteq> 0"
    by (simp add: atLeastLessThan_nat_numeral)
  then show ?thesis
    using tq_search_zero [OF round_half_up_rounds, of 25 1250] by simp
qed

text \<open>
  C31: the search of \<^verbatim>\<open>set_baudrate\<close> returns a number of quanta between 8 and 25 with the least
  timing error, the smallest such number if several have it, and the error it reports is the error
  of that number.
\<close>

theorem tq_search_first_minimum:
  assumes "tq_search div_round ns bt = (e, tq)" "0 < time_per_tick div_round ns" "time_per_tick div_round ns < 2 ^ 31"
  shows "MIN_TQ_NUM \<le> unat tq \<and> unat tq \<le> MAX_TQ_NUM \<and> e = tq_error div_round ns bt (unat tq) \<and>
     (\<forall>i \<in> {MIN_TQ_NUM..MAX_TQ_NUM}. e \<le> tq_error div_round ns bt i) \<and>
     (\<forall>i \<in> {MIN_TQ_NUM..<unat tq}. e < tq_error div_round ns bt i)"
  by (rule tq_search_minimum [OF assms])

theorem tq_search_first_minimum_witness:
  "tq_error round_half_up 1000000000 1250 25 = 0 \<and>
   0 < tq_error round_half_up 1000000000 1250 8 \<and> 0 < tq_error round_half_up 1000000000 1250 24"
proof -
  have "time_per_tick round_half_up 1000000000 = 50"
    by (simp add: time_per_tick_def round_half_up_def)
  with tq_search_first_minimum [OF tq_search_sample] show ?thesis
    by simp
qed

section \<open>What is programmed\<close>

text \<open>The four segments (the first is the fixed one-quantum synchronisation) read back from CNF2 and CNF3.\<close>

definition nominal_bit_quanta :: "u8 \<Rightarrow> u8 \<Rightarrow> nat" where
  "nominal_bit_quanta cnf3 cnf2 =
     1 + (unat (cnf2 AND 7) + 1) + (unat (drop_bit CNF2_PHSEG1_SHF cnf2 AND 7) + 1) + (unat (cnf3 AND 7) + 1)"

lemma hw_set_bit_timing_wp:
  assumes "port_wf s"
    "\<And>s'. moved s (sends bus [CMD_WRITE, CNF3, phseg2 - 1,
        CNF2_BTLMODE OR push_bit CNF2_PHSEG1_SHF (phseg1 - 1) OR (propseg - 1),
        push_bit CNF1_SJW_SHF (sjw - 1) OR (brp - 1)] 0 (dev s)) s' \<Longrightarrow> P s'"
  shows "ok (hw_set_bit_timing bus sjw brp propseg phseg1 phseg2 s) P"
  unfolding hw_set_bit_timing_def Let_def
  by (rule write_nregs_wp [OF assms(1)]) (use assms(2) in \<open>simp_all\<close>)

text \<open>Quanta, propagation segment and the two phase segments, as the code chooses them.\<close>

definition segment_table :: "(u8 \<times> u8 \<times> u8 \<times> u8) list" where
  "segment_table =
    [(8, 2, 3, 2), (9, 2, 3, 3), (10, 2, 4, 3), (11, 2, 5, 3), (12, 2, 5, 4), (13, 2, 6, 4),
     (14, 2, 7, 4), (15, 2, 7, 5), (16, 2, 8, 5), (17, 2, 9, 5), (18, 2, 10, 5), (19, 2, 10, 6),
     (20, 2, 11, 6), (21, 2, 12, 6), (22, 2, 12, 7), (23, 2, 13, 7), (24, 2, 14, 7), (25, 2, 14, 8)]"

lemma segment_cases:
  assumes "rounds_to_nearest div_round" "MIN_TQ_NUM \<le> unat tq" "unat tq \<le> MAX_TQ_NUM"
  shows "(tq, segments div_round tq) \<in> set segment_table"
proof -
  have "unat tq \<in> set [8..<26]"
    using assms(2,3) by (simp only: set_upt atLeastLessThan_iff) simp
  then have tq: "tq \<in> of_nat ` set [8..<26]"
    by (rule rev_image_eqI) simp
  note r = rounds [OF assms(1), of 100]
  have div: "div_round 240 100 = 2" "div_round 270 100 = 3" "div_round 300 100 = 3" "div_round 330 100 = 3"
    "div_round 360 100 = 4" "div_round 390 100 = 4" "div_round 420 100 = 4" "div_round 450 100 = 5"
    "div_round 480 100 = 5" "div_round 510 100 = 5" "div_round 540 100 = 5" "div_round 570 100 = 6"
    "div_round 600 100 = 6" "div_round 630 100 = 6" "div_round 660 100 = 7" "div_round 690 100 = 7"
    "div_round 720 100 = 7" "div_round 750 100 = 8"
    by (simp_all add: r)
  show ?thesis
    using tq by (simp add: upt_rec) (elim disjE; simp add: segments_def div Let_def segment_table_def)
qed

lemma cnf_fields:
  assumes "(tq, propseg, phseg1, phseg2) \<in> set segment_table"
    "c1 = CNF2_BTLMODE OR push_bit CNF2_PHSEG1_SHF (phseg1 - 1) OR (propseg - 1)" "c0 = phseg2 - 1"
  shows "bit c1 7" "bit c1 6 \<longleftrightarrow> 16 < unat tq" "nominal_bit_quanta c0 c1 = unat tq \<longleftrightarrow> unat tq \<le> 16"
  using assms(1) unfolding assms(2,3) by (auto simp: segment_table_def BIT_def nominal_bit_quanta_def bit_numeral_rec)

text \<open>
  C25: \<^verbatim>\<open>set_baudrate\<close> makes one write of CNF3, CNF2 and CNF1, with the prescaler it computed. The
  segments that the controller reads back from these registers add up to the chosen number of quanta
  exactly when that number is at most 16; from 17 on, the first phase segment does not fit its three
  bits, spills into the SAM bit of CNF2, and the bit has the wrong length.
\<close>

theorem set_baudrate_registers:
  assumes "port_wf s" "rounds_to_nearest div_round" "baudrate \<noteq> 0"
    "0 < time_per_tick div_round ns" "time_per_tick div_round ns < 2 ^ 31"
    "tq = snd (tq_search div_round ns (of_nat (div_round ns (unat baudrate))))"
    "2 * baudrate * ucast tq \<noteq> 0"
  shows "\<exists>s' cnf3 cnf2 cnf1. set_baudrate div_round ns bus baudrate s = Some s' \<and>
     dev s' = sends bus [CMD_WRITE, CNF3, cnf3, cnf2, cnf1] 0 (dev s) \<and> bit cnf2 7 \<and>
     cnf1 = of_nat (div_round OSC_FREQ (unat (2 * baudrate * ucast tq))) - 1 \<and>
     (bit cnf2 6 \<longleftrightarrow> 16 < unat tq) \<and> (nominal_bit_quanta cnf3 cnf2 = unat tq \<longleftrightarrow> unat tq \<le> 16)"
proof -
  obtain propseg phseg1 phseg2 where seg: "segments div_round tq = (propseg, phseg1, phseg2)"
    by (metis surj_pair)
  define c1 where "c1 = CNF2_BTLMODE OR push_bit CNF2_PHSEG1_SHF (phseg1 - 1) OR (propseg - 1)"
  define c0 where "c0 = phseg2 - 1"
  obtain e where "tq_search div_round ns (of_nat (div_round ns (unat baudrate))) = (e, tq)"
    using assms(6) by (metis prod.collapse)
  from tq_search_minimum [OF this assms(4,5)]
  have "(tq, propseg, phseg1, phseg2) \<in> set segment_table"
    using segment_cases [OF assms(2), of tq] seg by simp
  note cnf = cnf_fields [OF this c1_def c0_def]
  have "ok (set_baudrate div_round ns bus baudrate s) (\<lambda>s'. dev s' = sends bus
      [CMD_WRITE, CNF3, c0, c1, of_nat (div_round OSC_FREQ (unat (2 * baudrate * ucast tq))) - 1] 0 (dev s))"
    using assms(3,4,7) seg
    by (simp add: set_baudrate_def Let_def flip: assms(6))
      (rule hw_set_bit_timing_wp [OF assms(1)], simp add: moved_dev c0_def c1_def)
  with cnf show ?thesis
    unfolding ok_def by blast
qed

theorem set_baudrate_registers_witness:
  "\<exists>s' cnf3 cnf2 cnf1. set_baudrate round_half_up 1000000000 bench_bus 800000 (bench_can []) = Some s' \<and>
     sent_cmds (dev s') = [[CMD_WRITE, CNF3, cnf3, cnf2, cnf1]] \<and> cnf1 = 0 \<and> bit cnf2 6 \<and>
     nominal_bit_quanta cnf3 cnf2 \<noteq> 25"
proof -
  have tick: "time_per_tick round_half_up 1000000000 = 50"
    by (simp add: time_per_tick_def round_half_up_def)
  have tq: "(25 :: u8) = snd (tq_search round_half_up 1000000000 (of_nat (round_half_up 1000000000 (unat (800000 :: u32)))))"
    by (simp add: round_half_up_def tq_search_sample)
  from set_baudrate_registers [OF bench_can_wf [of "[]"] round_half_up_rounds _ _ _ tq, of bench_bus]
  show ?thesis
    by (simp add: tick round_half_up_def) (auto simp: bench_can_def)
qed

lemma set_baudrate_exact:
  fixes bt :: u32
  assumes "port_wf s" "rounds_to_nearest div_round" "baudrate \<noteq> 0"
    "k \<in> {MIN_TQ_NUM..MAX_TQ_NUM}" "unat bt mod k = 0" "unat bt div k mod 50 = 0"
    "\<forall>i \<in> {MIN_TQ_NUM..<k}. unat bt div i mod 50 \<noteq> 0 \<and> Suc (unat bt div i) mod 50 \<noteq> 0"
    "bt = of_nat (div_round 1000000000 (unat baudrate))" "d = 2 * baudrate * of_nat k" "d \<noteq> 0"
    "segments div_round (of_nat k) = (propseg, phseg1, phseg2)"
  shows "\<exists>s'. set_baudrate div_round 1000000000 bus baudrate s = Some s' \<and>
     moved s (sends bus [CMD_WRITE, CNF3, phseg2 - 1,
        CNF2_BTLMODE OR push_bit CNF2_PHSEG1_SHF (phseg1 - 1) OR (propseg - 1),
        of_nat (div_round OSC_FREQ (unat d)) - 1] 0 (dev s)) s'"
proof -
  have tick: "time_per_tick div_round 1000000000 = 50"
    by (simp add: time_per_tick_def rounds [OF assms(2)])
  note es = tq_search_zero [OF assms(2,4-7)]
  have tq: "ucast (of_nat k :: u8) = (of_nat k :: u32)"
    using assms(4) by (simp add: unsigned_of_nat take_bit_nat_eq_self unsigned_ucast_eq word_unat_eq_iff)
  have "ok (set_baudrate div_round 1000000000 bus baudrate s) (\<lambda>s'. moved s (sends bus
      [CMD_WRITE, CNF3, phseg2 - 1, CNF2_BTLMODE OR push_bit CNF2_PHSEG1_SHF (phseg1 - 1) OR (propseg - 1),
       of_nat (div_round OSC_FREQ (unat d)) - 1] 0 (dev s)) s')"
    using assms(3,10,11) es tick tq
    by (simp add: set_baudrate_def Let_def assms(9) flip: assms(8))
      (rule hw_set_bit_timing_wp [OF assms(1)], simp)
  then show ?thesis
    by (simp add: ok_def)
qed

lemma baudrate_125k:
  assumes "port_wf s" "rounds_to_nearest div_round"
  shows "\<exists>s'. set_baudrate div_round 1000000000 bus 125000 s = Some s' \<and>
     moved s (sends bus [CMD_WRITE, CNF3, 1, 0x91, 9] 0 (dev s)) s'"
proof -
  note r = rounds [OF assms(2)]
  have seg: "segments div_round (of_nat 8) = (2, 3, 2)"
    by (simp add: segments_def Let_def r)
  have bt: "div_round 1000000000 125000 = 8000" "div_round 20000000 2000000 = 10"
    by (simp_all add: r)
  have "\<exists>s'. set_baudrate div_round 1000000000 bus 125000 s = Some s' \<and>
     moved s (sends bus [CMD_WRITE, CNF3, 2 - 1, CNF2_BTLMODE OR push_bit CNF2_PHSEG1_SHF (3 - 1) OR (2 - 1),
        of_nat (div_round OSC_FREQ (unat (2000000 :: u32))) - 1] 0 (dev s)) s'"
    by (rule set_baudrate_exact [OF assms _ _ _ _ _ _ _ _ seg, where bt = 8000]) (simp_all add: bt)
  then show ?thesis
    by (simp add: bt BIT_def)
qed

text \<open>
  125 kbit/s, the rate of the test application, is programmed as 8 quanta of 20 crystal periods:
  the bytes of the one transaction, for every rounding division.
\<close>

theorem set_baudrate_125k:
  assumes "port_wf s" "rounds_to_nearest div_round"
  shows "\<exists>s'. set_baudrate div_round 1000000000 bus 125000 s = Some s' \<and>
     dev s' = sends bus [CMD_WRITE, CNF3, 1, 0x91, 9] 0 (dev s)"
  using baudrate_125k [OF assms, of bus] by (metis moved_dev)

theorem set_baudrate_125k_witness:
  "\<exists>s'. set_baudrate round_half_up 1000000000 bench_bus 125000 (bench_can []) = Some s' \<and>
     sent_cmds (dev s') = [[CMD_WRITE, CNF3, 1, 0x91, 9]]"
  using set_baudrate_125k [OF bench_can_wf [of "[]"] round_half_up_rounds, of bench_bus]
  by (auto simp: bench_can_def)

text \<open>
  800 kbit/s, one of the standard rates: the search settles on 25 quanta, the first phase
  segment comes out as 14, and the bytes programmed (CNF2 is \<^verbatim>\<open>0xE9\<close>) ask for triple sampling and a bit
  of 17 quanta.
\<close>

theorem set_baudrate_800k:
  assumes "port_wf s" "rounds_to_nearest div_round"
  shows "\<exists>s'. set_baudrate div_round 1000000000 bus 800000 s = Some s' \<and>
     dev s' = sends bus [CMD_WRITE, CNF3, 7, 0xE9, 0] 0 (dev s) \<and> nominal_bit_quanta 7 0xE9 = 17"
proof -
  note r = rounds [OF assms(2)]
  have seg: "segments div_round (of_nat 25) = (2, 14, 8)"
    by (simp add: segments_def Let_def r)
  have bt: "div_round 1000000000 800000 = 1250" "div_round 20000000 40000000 = 1"
    by (simp_all add: r)
  have "\<forall>i \<in> {MIN_TQ_NUM..<25}. (1250 :: nat) div i mod 50 \<noteq> 0 \<and> Suc (1250 div i) mod 50 \<noteq> 0"
    by (simp add: atLeastLessThan_nat_numeral)
  then have "\<exists>s'. set_baudrate div_round 1000000000 bus 800000 s = Some s' \<and>
     moved s (sends bus [CMD_WRITE, CNF3, 8 - 1, CNF2_BTLMODE OR push_bit CNF2_PHSEG1_SHF (14 - 1) OR (2 - 1),
        of_nat (div_round OSC_FREQ (unat (40000000 :: u32))) - 1] 0 (dev s)) s'"
    by (intro set_baudrate_exact [OF assms _ _ _ _ _ _ _ _ seg, where bt = 1250]) (simp_all add: bt)
  then obtain s' where "set_baudrate div_round 1000000000 bus 800000 s = Some s'"
      "dev s' = sends bus [CMD_WRITE, CNF3, 7, 0xE9, 0] 0 (dev s)"
    by (elim exE conjE, drule_tac moved_dev) (simp add: bt BIT_def)
  then show ?thesis
    by (simp add: nominal_bit_quanta_def)
qed

theorem set_baudrate_800k_witness:
  "\<exists>s'. set_baudrate round_half_up 1000000000 bench_bus 800000 (bench_can []) = Some s' \<and>
     sent_cmds (dev s') = [[CMD_WRITE, CNF3, 7, 0xE9, 0]]"
  using set_baudrate_800k [OF bench_can_wf [of "[]"] round_half_up_rounds, of bench_bus]
  by (auto simp: bench_can_def)

end
