(* ===== verification/Can_Dev_Laws.thy ===== *)
theory Can_Dev_Laws
  imports Can_Irq_Laws Can_Timing
begin

text \<open>
  What the RPC entry points of the CAN component guarantee: sending through the queue and directly
  into a buffer, receiving, the invariant of the whole driver in normal mode over every interleaving
  of its entry points with interrupts (\<open>can_reach\<close>), and the start-up sequence.
\<close>

section \<open>Restarting the transmission\<close>

lemma calm_stopped: "calm N s0 s \<Longrightarrow> calm N (s0\<lparr>xmit_stopped := x\<rparr>) (s\<lparr>xmit_stopped := x\<rparr>)"
  by (auto simp: calm_def moved_can_iff)

lemma trigger_loop_calm:
  assumes "normal_mode bus N" "calm N s0 s"
    "\<And>s' x. calm N (s0\<lparr>xmit_stopped := x\<rparr>) s' \<Longrightarrow> x = xmit_stopped s0 \<or> x = 0 \<Longrightarrow> P s'"
  shows "ok (trigger_loop bus is s) P"
  using assms(2,3)
proof (induction "is" arbitrary: s s0)
  case Nil
  have "s0\<lparr>xmit_stopped := xmit_stopped s0\<rparr> = s0" by simp
  then show ?case
    using Nil.prems(1) Nil.prems(2) [of "xmit_stopped s0" s] by simp
next
  case (Cons i "is")
  have raised: "ok (trigger_loop bus is (s1\<lparr>xmit_stopped := 0\<rparr>)) P" if "calm N s0 s1" for s1
    by (rule Cons.IH [OF calm_stopped [OF that]]) (auto intro: Cons.prems(2) [of 0] Cons.prems(2))
  show ?case
    unfolding trigger_loop.simps ok_bind
    by (rule calm_read [OF assms(1) Cons.prems(1)])
      (auto intro!: Cons.IH Cons.prems(2) raised calm_modify [OF assms(1)])
qed

lemma start_xmit_inv:
  assumes "normal_mode bus N" "can_inv N s"
    "\<And>s'. can_inv N s' \<Longrightarrow> queues s' = queues s \<Longrightarrow> emitted s' = emitted s \<Longrightarrow>
       queue_sem s' = queue_sem s \<Longrightarrow> txb_cache s' = txb_cache s \<Longrightarrow> P s'"
  shows "ok (start_xmit bus s) P"
proof (cases "xmit_stopped s = 0")
  case True
  then show ?thesis
    using assms(2,3) by (simp add: start_xmit_def)
next
  case False
  have l: "\<not> txb_lock s" "calm N (s\<lparr>txb_lock := True\<rparr>) (s\<lparr>txb_lock := True\<rparr>)"
    using assms(2) by (auto simp: can_inv_def intro!: calm_refl)
  have "ok (trigger_loop bus [0..<TXB_NUM] (s\<lparr>txb_lock := True\<rparr>))
      (\<lambda>s. P (s\<lparr>txb_lock := lock_release (txb_lock s)\<rparr>))"
    by (rule trigger_loop_calm [OF assms(1) l(2)])
      (use assms(2) in \<open>auto intro!: assms(3) simp: can_inv_def calm_def moved_can_iff\<close>)
  then show ?thesis
    using False l(1) by (simp add: start_xmit_def)
qed

section \<open>Sending\<close>

lemma queue_push_tx_room:
  assumes "queues s = Some q" "mq_wf q" "length (tx_contents q) < tx_capacity q"
  shows "\<exists>q'. queue_push_tx f s = Some (0, s\<lparr>queues := Some q'\<rparr>) \<and> mq_wf q' \<and>
     tx_contents q' = tx_contents q @ [f] \<and> rx_contents q' = rx_contents q \<and>
     tx_capacity q' = tx_capacity q \<and> rx_capacity q' = rx_capacity q"
  using assms by (cases rule: tx.push_cases [OF assms(2), of f]) (auto simp: queue_push_tx_def)

lemma queue_push_tx_full:
  assumes "queues s = Some q" "mq_wf q" "tx_capacity q \<le> length (tx_contents q)"
  shows "queue_push_tx f s = Some (-1, s)"
  using assms by (cases s) (auto simp: queue_push_tx_def tx.push_full)

lemma can_send_room:
  assumes "normal_mode bus N" "can_inv N s" "frame_fits f" "queues s = Some q"
    "length (tx_contents q) < tx_capacity q"
  shows "\<exists>s' q'. can_send bus env n f s = Some s' \<and> can_inv N s' \<and> queues s' = Some q' \<and>
     tx_contents q' = tx_contents q @ [f] \<and> rx_contents q' = rx_contents q \<and> emitted s' = emitted s"
proof -
  have q: "mq_wf q"
    using assms(2,4) by (auto simp: can_inv_def)
  obtain q' where q': "queue_push_tx f s = Some (0, s\<lparr>queues := Some q'\<rparr>)" "mq_wf q'"
      "tx_contents q' = tx_contents q @ [f]" "rx_contents q' = rx_contents q"
    using queue_push_tx_room [OF assms(4) q assms(5)] by blast
  then have inv: "can_inv N (s\<lparr>queues := Some q'\<rparr>)"
    using assms(2,3,4) by (auto simp: can_inv_def)
  have "ok (start_xmit bus (s\<lparr>queues := Some q'\<rparr>))
      (\<lambda>s'. can_inv N s' \<and> queues s' = Some q' \<and> emitted s' = emitted s)"
    by (rule start_xmit_inv [OF assms(1) inv]) simp_all
  then show ?thesis
    using q' by (subst can_send.simps) (auto simp: ok_def)
qed

text \<open>The transmit queue is full.\<close>

definition tx_full :: "'d set \<Rightarrow> 'd can_state \<Rightarrow> bool" where
  "tx_full N s \<longleftrightarrow> can_inv N s \<and>
     (\<exists>q. queues s = Some q \<and> tx_capacity q \<le> length (tx_contents q))"

lemma can_send_full:
  assumes "can_send bus env n f s = Some y" "normal_mode bus N"
    "\<forall>n s s'. tx_full N s \<longrightarrow> env n s = Some s' \<longrightarrow> tx_full N s'" "tx_full N s"
  shows False
proof -
  have "normal_mode bus N \<longrightarrow>
      (\<forall>n s s'. tx_full N s \<longrightarrow> env n s = Some s' \<longrightarrow> tx_full N s') \<longrightarrow> tx_full N s \<longrightarrow> False"
  proof (rule can_send.raw_induct [OF _ assms(1)], intro impI)
    fix rec bus env n f and s :: "'a can_state" and y
    assume IH: "\<And>bus env n f s y. rec bus env n f s = Some y \<Longrightarrow> normal_mode bus N \<longrightarrow>
        (\<forall>n s s'. tx_full N s \<longrightarrow> env n s = Some s' \<longrightarrow> tx_full N s') \<longrightarrow> tx_full N s \<longrightarrow> False"
      and body: "queue_push_tx f s \<bind> (\<lambda>(ret, s). start_xmit bus s \<bind>
        (\<lambda>s. if ret < 0 then env n s \<bind> rec bus env (Suc n) f else Some s)) = Some y"
      and n: "normal_mode bus N" and env: "\<forall>n s s'. tx_full N s \<longrightarrow> env n s = Some s' \<longrightarrow> tx_full N s'"
      and full: "tx_full N s"
    obtain q where q: "queues s = Some q" "mq_wf q" "tx_capacity q \<le> length (tx_contents q)"
      using full by (auto simp: tx_full_def can_inv_def)
    have "ok (start_xmit bus s) (\<lambda>s1. can_inv N s1 \<and> queues s1 = queues s)"
      by (rule start_xmit_inv [OF n]) (use full in \<open>auto simp: tx_full_def\<close>)
    then obtain s1 where s1: "start_xmit bus s = Some s1" "tx_full N s1"
      using q by (auto simp: ok_def tx_full_def)
    then obtain s2 where "env n s1 = Some s2" "rec bus env (Suc n) f s2 = Some y"
      using body by (auto simp: queue_push_tx_full [OF q] bind_splits)
    with IH n env s1(2) show False
      by blast
  qed
  with assms(2-4) show False
    by blast
qed

section \<open>Sending directly into a buffer\<close>

text \<open>The commands of one \<^verbatim>\<open>can_sendto\<close> into an idle buffer.\<close>

definition sendto_prio :: "nat \<Rightarrow> can_id \<Rightarrow> canid_cache list \<Rightarrow> 2 word" where
  "sendto_prio i cid c = (if canid (c ! i) = 0 then priority (cache_load i cid c ! i) else 3)"

definition sendto_cache :: "nat \<Rightarrow> can_id \<Rightarrow> canid_cache list \<Rightarrow> canid_cache list" where
  "sendto_cache i cid c = (if canid (c ! i) = 0 then cache_load i cid c else c)"

definition sendto_cmds :: "nat \<Rightarrow> can_frame \<Rightarrow> canid_cache list \<Rightarrow> u8 list list" where
  "sendto_cmds i f c =
     (if canid (c ! i) = 0 then prio_updates (cache_load i (ident f) c) i [0..<3] else []) @
     [(CMD_LOAD_TXB OR of_nat i * 2) # txb_bytes f,
      [CMD_BIT_MODIFY, TXBCTRL i, TXBCTRL_TXP_MASK, ucast (sendto_prio i (ident f) c)],
      [CMD_RTS OR BIT i]]"

lemma prio_fields [simp]:
  "txb_bytes (f\<lparr>prio := p\<rparr>) = txb_bytes f" "frame_ok (f\<lparr>prio := p\<rparr>) = frame_ok f"
  by (simp_all add: txb_bytes_def txb_header_def frame_ok_def)

lemma sendto_load:
  assumes "port_wf s" "frame_fits f"
    "\<And>s'. moved s (sends_all bus [(CMD_LOAD_TXB OR of_nat i * 2) # txb_bytes f,
      [CMD_BIT_MODIFY, TXBCTRL i, TXBCTRL_TXP_MASK, ucast p], [CMD_RTS OR BIT i]] (dev s)) s' \<Longrightarrow> P (0, s')"
  shows "ok (do { s \<leftarrow> load_txb bus i (f\<lparr>prio := p\<rparr>) s; s \<leftarrow> mcp2515_rts bus (BIT i) s; Some (0 :: int, s) }) P"
  unfolding ok_bind
proof (rule load_frame_wp [OF assms(1)])
  fix s1
  let ?f = "f\<lparr>prio := p\<rparr>"
  assume "moved s (sends_all bus [(CMD_LOAD_TXB OR (of_nat i * 2 OR 0)) # txb_header ?f @
      take (unat (dlc ?f)) (payload ?f), [CMD_BIT_MODIFY, TXBCTRL i, TXBCTRL_TXP_MASK, ucast (prio ?f)]] (dev s)) s1"
  then have s1: "moved s (sends_all bus [(CMD_LOAD_TXB OR of_nat i * 2) # txb_bytes f,
      [CMD_BIT_MODIFY, TXBCTRL i, TXBCTRL_TXP_MASK, ucast p]] (dev s)) s1"
    unfolding txb_bytes_def [symmetric] by simp
  show "ok (mcp2515_rts bus (BIT i) s1) (\<lambda>s. ok (Some (0, s)) P)"
    by (rule rts_wp [OF movedD [OF s1]]) (use moved_trans [OF s1] assms(3) moved_dev [OF s1] in simp)
qed (use assms(2) in \<open>auto simp: frame_fits_def\<close>)

lemma ucast_minus_one: "ucast (- 1 :: 2 word) = (3 :: u8)"
  by (simp add: unsigned_minus_1_eq_mask mask_eq_exp_minus_1)

lemma can_sendto_idle:
  assumes "port_wf s" "full_duplex bus" "length (txb_cache s) = 3" "i < 3" "frame_fits f"
    "decode_txb_status (answer bus [CMD_READ, TXBCTRL i] 1 (dev s) ! 0) = IDLE"
    "\<And>s'. moved (s\<lparr>txb_cache := sendto_cache i (ident f) (txb_cache s)\<rparr>)
       (sends_all bus (sendto_cmds i f (txb_cache s)) (sends bus [CMD_READ, TXBCTRL i] 1 (dev s))) s' \<Longrightarrow> P (0, s')"
  shows "ok (can_sendto bus i f s) P"
proof -
  let ?k = "\<lambda>(p, s). ok (do { s \<leftarrow> load_txb bus i (f\<lparr>prio := of_int p\<rparr>) s; s \<leftarrow> mcp2515_rts bus (BIT i) s;
     Some (0 :: int, s) }) P"
  have rest: "ok (get_frame_priority bus i (ident f) s1) ?k"
    if s1: "moved s (sends bus [CMD_READ, TXBCTRL i] 1 (dev s)) s1" for s1
  proof (cases "canid (txb_cache s ! i) = 0")
    case True
    note c = frame_simps(1) [OF s1]
    show ?thesis
    proof (rule get_frame_priority_wp)
      fix s2
      assume s2: "moved (s1\<lparr>txb_cache := cache_load i (ident f) (txb_cache s1)\<rparr>)
        (sends_all bus (prio_updates (cache_load i (ident f) (txb_cache s1)) i [0..<3]) (dev s1)) s2"
      show "?k (uint (priority (cache_load i (ident f) (txb_cache s1) ! i)), s2)"
        unfolding case_prod_conv
        by (rule sendto_load [OF movedD [OF s2] assms(5)], rule assms(7))
          (use s1 s2 True in \<open>simp add: moved_can_iff sendto_cache_def sendto_cmds_def sendto_prio_def\<close>)
    qed (use True movedD [OF s1] assms(3,4) in \<open>simp_all add: c\<close>)
  next
    case False
    note c = frame_simps(1) [OF s1]
    have "ok (do { s \<leftarrow> load_txb bus i (f\<lparr>prio := of_int (- 1)\<rparr>) s1; s \<leftarrow> mcp2515_rts bus (BIT i) s;
       Some (0 :: int, s) }) P"
      by (rule sendto_load [OF movedD [OF s1] assms(5)], rule assms(7))
        (use s1 False in \<open>simp add: ucast_minus_one moved_can_iff sendto_cache_def sendto_cmds_def sendto_prio_def\<close>)
    then show ?thesis
      using False assms(3,4) by (simp add: get_frame_priority_busy c)
  qed
  show ?thesis
    unfolding can_sendto_def txb_status_def ok_bind
    by (rule read_reg_wp [OF assms(1,2)], drule rest)
      (simp only: case_prod_conv ok_Some assms(6) txb_status_code.simps if_True ok_bind ok_Let case_prod_beta' fst_conv snd_conv refl)
qed


lemma can_sendto_busy:
  assumes "port_wf s" "full_duplex bus"
    "decode_txb_status (answer bus [CMD_READ, TXBCTRL i] 1 (dev s) ! 0) \<noteq> IDLE"
    "\<And>s'. moved s (sends bus [CMD_READ, TXBCTRL i] 1 (dev s)) s' \<Longrightarrow> P (-1, s')"
  shows "ok (can_sendto bus i f s) P"
proof -
  have "txb_status_code (decode_txb_status (answer bus [CMD_READ, TXBCTRL i] 1 (dev s) ! 0)) \<noteq> 0"
    using assms(3) by (cases "decode_txb_status (answer bus [CMD_READ, TXBCTRL i] 1 (dev s) ! 0)") simp_all
  then show ?thesis
    unfolding can_sendto_def txb_status_def ok_bind
    by (intro read_reg_wp [OF assms(1,2)]) (simp add: assms(4))
qed

section \<open>Receiving\<close>

lemma can_recv_cases:
  assumes "queues s = Some q" "mq_wf q" "queue_sem s = Suc n"
  shows "\<exists>q'. can_recv f s = Some (if rx_contents q = [] then f else hd (rx_contents q),
       s\<lparr>queue_sem := n, queues := Some q'\<rparr>) \<and> mq_wf q' \<and> rx_contents q' = tl (rx_contents q) \<and>
     tx_contents q' = tx_contents q \<and> rx_capacity q' = rx_capacity q \<and> tx_capacity q' = tx_capacity q"
  using assms by (cases rule: rx.pop_cases [OF assms(2)])
    (auto simp: can_recv_def queue_lock_wait_def)

text \<open>Successive calls of \<^verbatim>\<open>can_recv\<close>, each with the contents of the caller's frame.\<close>

definition recv_all :: "can_frame list \<Rightarrow> 'd can_state \<Rightarrow> (can_frame list \<times> 'd can_state) option" where
  "recv_all = run_ops can_recv"

lemma recv_all_queue:
  assumes "queues s = Some q" "mq_wf q" "length bufs \<le> queue_sem s"
  shows "\<exists>s' q'. recv_all bufs s = Some (take (length bufs) (rx_contents q) @ drop (length (rx_contents q)) bufs, s') \<and>
     queues s' = Some q' \<and> mq_wf q' \<and> rx_contents q' = drop (length bufs) (rx_contents q) \<and>
     queue_sem s' = queue_sem s - length bufs"
  using assms
proof (induction bufs arbitrary: s q)
  case Nil
  then show ?case by (simp add: recv_all_def)
next
  case (Cons b bufs)
  then obtain n where n: "queue_sem s = Suc n"
    by (cases "queue_sem s") auto
  from can_recv_cases [OF Cons.prems(1,2) n, of b] obtain q1 where q1:
    "can_recv b s = Some (if rx_contents q = [] then b else hd (rx_contents q), s\<lparr>queue_sem := n, queues := Some q1\<rparr>)"
    "mq_wf q1" "rx_contents q1 = tl (rx_contents q)" by blast
  from Cons.IH [of "s\<lparr>queue_sem := n, queues := Some q1\<rparr>" q1] q1 Cons.prems(3) n show ?case
    by (cases "rx_contents q") (auto simp: recv_all_def)
qed

section \<open>The driver in normal mode\<close>

text \<open>
  What can happen to the driver while the controller is in normal mode: an interrupt, one turn of
  \<^verbatim>\<open>can_send\<close>, and the other entry points that do not change the mode.
\<close>

inductive can_step :: "'d bus \<Rightarrow> 'd can_state \<Rightarrow> 'd can_state \<Rightarrow> bool" for bus where
  irq: "frame_ok old \<Longrightarrow> irq_handler bus old s = Some s' \<Longrightarrow> can_step bus s s'"
| send: "frame_fits f \<Longrightarrow> queue_push_tx f s = Some (r, s1) \<Longrightarrow> start_xmit bus s1 = Some s' \<Longrightarrow>
    can_step bus s s'"
| sendto: "frame_fits f \<Longrightarrow> i < 3 \<Longrightarrow> can_sendto bus i f s = Some (r, s') \<Longrightarrow> can_step bus s s'"
| recv: "can_recv old s = Some (f, s') \<Longrightarrow> can_step bus s s'"
| recv_rxb: "frame_ok old \<Longrightarrow> can_recv_rxb bus i old s = Some (f, s') \<Longrightarrow> can_step bus s s'"
| abort: "i < 3 \<Longrightarrow> can_abort bus i s = Some s' \<Longrightarrow> can_step bus s s'"
| status: "can_status bus i s = Some (r, s') \<Longrightarrow> can_step bus s s'"
| poll: "can_poll_rxbuf bus s = Some (n, s') \<Longrightarrow> can_step bus s s'"

inductive can_reach :: "'d bus \<Rightarrow> 'd can_state \<Rightarrow> 'd can_state \<Rightarrow> bool" for bus s0 where
  start: "can_reach bus s0 s0"
| step: "can_reach bus s0 s \<Longrightarrow> can_step bus s s' \<Longrightarrow> can_reach bus s0 s'"

lemma okD: "ok m P \<Longrightarrow> m = Some x \<Longrightarrow> P x"
  by (simp add: ok_def)

lemma TXBCTRL_neq: "i < 3 \<Longrightarrow> TXBCTRL i \<noteq> CANCTRL"
  by (auto simp: TXBCTRL_def less_Suc_eq numeral_3_eq_3)

lemma sendto_cmds_normal:
  assumes "i < 3" "c \<in> set (sendto_cmds i f cache)"
  shows "normal_cmd c"
proof -
  have "normal_cmd [CMD_RTS OR BIT i]"
    using rts_normal [of "[i]"] assms(1) by (auto simp: less_Suc_eq numeral_3_eq_3)
  moreover have "\<forall>c \<in> set (prio_updates ch i is). normal_cmd c" if "set is \<subseteq> {0, 1, 2}" for ch "is"
    using that TXBCTRL_neq by (auto simp: prio_updates_def normal_cmd_def)
  moreover have "normal_cmd ((CMD_LOAD_TXB OR of_nat i * 2) # txb_bytes f)"
    using load_cmds_normal [OF assms(1), of "((CMD_LOAD_TXB OR of_nat i * 2) # txb_bytes f, 0)" f]
    by (simp add: load_cmds_def)
  moreover have "normal_cmd [CMD_BIT_MODIFY, TXBCTRL i, TXBCTRL_TXP_MASK, x]" for x
    using TXBCTRL_neq [OF assms(1)] by (simp add: normal_cmd_def)
  moreover have "set [0..<3] \<subseteq> {0, 1, 2 :: nat}"
    by auto
  ultimately show ?thesis
    using assms(2) unfolding sendto_cmds_def
    by (auto simp del: set_upt upt_rec_numeral split: if_splits)
qed

lemma sends_all_in:
  assumes "normal_mode bus N" "d \<in> N" "\<forall>c \<in> set cs. normal_cmd c"
  shows "sends_all bus cs d \<in> N"
  using assms(2,3) by (induction cs arbitrary: d) (auto intro: normal_modeD(3) [OF assms(1)])

lemma can_sendto_inv:
  assumes "normal_mode bus N" "can_inv N s" "i < 3" "frame_fits f"
  shows "ok (can_sendto bus i f s) (\<lambda>(r, s'). can_inv N s')"
proof -
  have s: "port_wf s" "length (txb_cache s) = 3" "dev s \<in> N"
    using assms(2) by (auto simp: can_inv_def)
  have rd: "sends bus [CMD_READ, TXBCTRL i] 1 (dev s) \<in> N"
    using normal_modeD(3) [OF assms(1) s(3)] by (simp add: normal_cmd_def)
  show ?thesis
  proof (cases "decode_txb_status (answer bus [CMD_READ, TXBCTRL i] 1 (dev s) ! 0) = IDLE")
    case True
    have "sends_all bus (sendto_cmds i f (txb_cache s)) (sends bus [CMD_READ, TXBCTRL i] 1 (dev s)) \<in> N"
      using sends_all_in [OF assms(1) rd] sendto_cmds_normal [OF assms(3)] by blast
    then show ?thesis
      using assms(2) s(2)
      by (intro can_sendto_idle [OF s(1) normal_modeD(1) [OF assms(1)] s(2) assms(3,4) True])
        (auto simp: can_inv_def moved_can_iff sendto_cache_def)
  next
    case False
    show ?thesis
      by (rule can_sendto_busy [OF s(1) normal_modeD(1) [OF assms(1)] False])
        (simp add: can_inv_calm [OF assms(2) calmI [OF _ rd]])
  qed
qed

lemma can_recv_inv:
  assumes "can_inv N s" "can_recv old s = Some (f, s')"
  shows "can_inv N s'"
proof -
  obtain q n where q: "queues s = Some q" "mq_wf q" and n: "queue_sem s = Suc n"
    using assms by (cases "queue_sem s") (auto simp: can_inv_def can_recv_def queue_lock_wait_def)
  from can_recv_cases [OF q n, of old] assms show ?thesis
    using q n by (cases "rx_contents q") (auto simp: can_inv_def)
qed

lemma can_step_inv:
  assumes "can_step bus s s'" "normal_mode bus N" "can_inv N s"
  shows "can_inv N s'"
proof -
  have c: "calm N s s"
    using assms(3) by (auto simp: can_inv_def intro: calm_refl)
  show ?thesis
    using assms(1)
proof cases
  case (irq old)
  then show ?thesis
    using okD [OF irq_handler_inv [OF assms(2,3)]] by blast
next
  case (send f r s1)
  obtain q where q: "queues s = Some q" "mq_wf q"
    using assms(3) by (auto simp: can_inv_def)
  have "can_inv N s1"
    using send(2) queue_push_tx_room [OF q, of f] queue_push_tx_full [OF q, of f] assms(3) q send(1)
    by (cases "length (tx_contents q) < tx_capacity q") (auto simp: can_inv_def not_less)
  then show ?thesis
    using okD [OF start_xmit_inv [OF assms(2), where P = "can_inv N"] send(3)] by blast
next
  case (sendto f i r)
  then show ?thesis
    using okD [OF can_sendto_inv [OF assms(2,3)]] by fastforce
next
  case (recv old f)
  then show ?thesis
    using can_recv_inv [OF assms(3)] by blast
next
  case (recv_rxb old i f)
  have s: "port_wf s" "dev s \<in> N"
    using assms(3) by (auto simp: can_inv_def)
  let ?a = "answer bus [CMD_READ_RXB] MAX_BUF_LEN (dev s)"
  have "length ?a = MAX_BUF_LEN"
    using length_answer [OF normal_modeD(1) [OF assms(2)]] by simp
  then obtain g where g: "decode_rxb ?a old = Some g"
    using decode_rxb_fits [OF _ recv_rxb(1)] normal_modeD(5) [OF assms(2) s(2)] by blast
  have "ok (can_recv_rxb bus i old s) (\<lambda>(f, s'). can_inv N s')"
    unfolding can_recv_rxb_def
    by (rule recv_frame_wp [OF s(1) normal_modeD(1) [OF assms(2)] g])
      (use normal_modeD(3) [OF assms(2) s(2)] in \<open>auto intro!: can_inv_calm [OF assms(3)] calmI simp: normal_cmd_def\<close>)
  from okD [OF this recv_rxb(2)] show ?thesis
    by simp
next
  case (abort i)
  have "ok (can_abort bus i s) (can_inv N)"
    unfolding can_abort_def abort_tx_def
    by (rule calm_modify [OF assms(2) c TXBCTRL_neq [OF abort(1)]]) (rule can_inv_calm [OF assms(3)])
  from okD [OF this abort(2)] show ?thesis .
next
  case (status i r)
  have "ok (can_status bus i s) (\<lambda>(r, s'). can_inv N s')"
    unfolding can_status_def txb_status_def ok_bind
    by (rule calm_read [OF assms(2) c]) (simp add: can_inv_calm [OF assms(3)])
  from okD [OF this status] show ?thesis
    by simp
next
  case (poll n)
  have "ok (can_poll_rxbuf bus s) (\<lambda>(r, s'). can_inv N s')"
    unfolding can_poll_rxbuf_def poll_rxbuf_def ok_bind
    by (rule calm_read [OF assms(2) c]) (simp add: can_inv_calm [OF assms(3)])
  from okD [OF this poll] show ?thesis
    by simp
qed

qed


lemma can_reach_inv:
  assumes "normal_mode bus N" "can_inv N s0" "can_reach bus s0 s"
  shows "can_inv N s"
  using assms(3) by induction (use assms can_step_inv in blast)+

lemma can_reach_steps:
  "can_reach bus s0 s \<Longrightarrow> can_step bus s s' \<Longrightarrow> can_reach bus s0 s'"
  by (rule can_reach.step)

text \<open>
  C21: \<^verbatim>\<open>can_send\<close> returns at once when the transmit queue has room: the frame is at the end of the
  queue, nothing else in the queues changed, and no lock is left taken, whether or not transmission
  had to be restarted.
\<close>

theorem can_send_queues:
  assumes "normal_mode bus N" "can_inv N s" "frame_fits f" "queues s = Some q"
    "length (tx_contents q) < tx_capacity q"
  shows "\<exists>s' q'. can_send bus env n f s = Some s' \<and> can_inv N s' \<and> queues s' = Some q' \<and>
     tx_contents q' = tx_contents q @ [f] \<and> rx_contents q' = rx_contents q \<and> emitted s' = emitted s"
  by (rule can_send_room [OF assms])

definition one_mq :: mq_mem where
  "one_mq = \<lparr>pool = replicate 4 (sample_frame 7),
     txq = \<lparr>frames = 0, head = 0, tail = 0, qsize = 2, qlock = False\<rparr>,
     rxq = \<lparr>frames = 2, head = 0, tail = 0, qsize = 2, qlock = False\<rparr>\<rparr>"

lemma one_mq_facts: "mq_wf one_mq" "tx_contents one_mq = []" "rx_contents one_mq = []"
    "tx_capacity one_mq = 1" "rx_capacity one_mq = 1"
  by (simp_all add: one_mq_def mq_wf_def cb_wf_def tx_contents_def rx_contents_def mq_contents_def
      mq_count_def tx_capacity_def rx_capacity_def)

definition one_state :: "u8 list list can_state" where
  "one_state = irq_state\<lparr>queues := Some one_mq\<rparr>"

lemma one_state_inv: "can_inv UNIV one_state"
  using irq_state_inv one_mq_facts by (auto simp: one_state_def can_inv_def)

lemma sample_frame_fits [simp]: "frame_fits (sample_frame n)"
  by (simp add: sample_frame_def frame_fits_def frame_ok_def)

theorem can_send_queues_witness:
  "\<exists>s' q'. can_send (irq_bus 0) (\<lambda>n s. None) 0 (sample_frame 5) one_state = Some s' \<and>
     queues s' = Some q' \<and> tx_contents q' = [sample_frame 5]"
proof -
  have "queues one_state = Some one_mq" "length (tx_contents one_mq) < tx_capacity one_mq"
    by (simp_all add: one_state_def one_mq_facts)
  from can_send_queues [OF irq_bus_normal one_state_inv sample_frame_fits this, of 0 "\<lambda>n s. None" 0 5]
  show ?thesis
    by (auto simp: one_mq_facts)
qed

text \<open>
  When the transmit queue is full and no other thread ever takes a frame out of it, \<^verbatim>\<open>can_send\<close>
  never returns, however the other threads change the rest of the state.
\<close>

theorem can_send_blocks:
  assumes "normal_mode bus N" "tx_full N s" "\<And>n s s'. tx_full N s \<Longrightarrow> env n s = Some s' \<Longrightarrow> tx_full N s'"
  shows "can_send bus env n f s = None"
proof (cases "can_send bus env n f s")
  case (Some y)
  from can_send_full [OF this assms(1) _ assms(2)] assms(3) show ?thesis by blast
qed

definition full_mq :: mq_mem where
  "full_mq = one_mq\<lparr>txq := \<lparr>frames = 0, head = 0, tail = 1, qsize = 2, qlock = False\<rparr>\<rparr>"

lemma full_mq_facts: "mq_wf full_mq" "tx_contents full_mq = [sample_frame 7]" "rx_contents full_mq = []"
    "tx_capacity full_mq = 1"
  by (simp_all add: full_mq_def one_mq_def mq_wf_def cb_wf_def tx_contents_def rx_contents_def mq_contents_def
      mq_count_def mq_slot_def tx_capacity_def)

theorem can_send_blocks_witness:
  "can_send (irq_bus 0) (\<lambda>n. Some) 0 (sample_frame 5) (irq_state\<lparr>queues := Some full_mq\<rparr>) = None"
proof (rule can_send_blocks [OF irq_bus_normal])
  show "tx_full UNIV (irq_state\<lparr>queues := Some full_mq\<rparr>)"
    using irq_state_inv full_mq_facts by (auto simp: tx_full_def can_inv_def)
qed simp

text \<open>
  C23: \<^verbatim>\<open>can_sendto\<close> asks the controller once. A buffer that is not idle is left alone, and the result
  is -1. Into an idle buffer the frame is loaded with its priority, the other pending buffers are
  re-ranked first, and exactly this buffer is requested to send. A buffer whose previous frame was
  never acknowledged still has its identifier cached; then nothing is re-ranked, the cache keeps the
  old identifier and the frame goes out with priority 3.
\<close>

theorem can_sendto_outcome:
  assumes "port_wf s" "full_duplex bus" "length (txb_cache s) = 3" "i < 3" "frame_fits f"
    "st = decode_txb_status (answer bus [CMD_READ, TXBCTRL i] 1 (dev s) ! 0)"
  shows "\<exists>s'. can_sendto bus i f s = Some (if st = IDLE then 0 else -1, s') \<and>
     dev s' = sends_all bus (if st = IDLE then sendto_cmds i f (txb_cache s) else [])
       (sends bus [CMD_READ, TXBCTRL i] 1 (dev s)) \<and>
     txb_cache s' = (if st = IDLE then sendto_cache i (ident f) (txb_cache s) else txb_cache s) \<and>
     queues s' = queues s \<and> emitted s' = emitted s"
proof -
  have "ok (can_sendto bus i f s) (\<lambda>(r, s'). r = (if st = IDLE then 0 else -1) \<and>
     dev s' = sends_all bus (if st = IDLE then sendto_cmds i f (txb_cache s) else [])
       (sends bus [CMD_READ, TXBCTRL i] 1 (dev s)) \<and>
     txb_cache s' = (if st = IDLE then sendto_cache i (ident f) (txb_cache s) else txb_cache s) \<and>
     queues s' = queues s \<and> emitted s' = emitted s)"
  proof (cases "st = IDLE")
    case True
    show ?thesis
      by (rule can_sendto_idle [OF assms(1-5)]) (use True assms(6) in \<open>auto simp: moved_can_iff\<close>)
  next
    case False
    show ?thesis
      by (rule can_sendto_busy [OF assms(1,2)]) (use False assms(6) in \<open>auto simp: moved_can_iff\<close>)
  qed
  then show ?thesis
    unfolding ok_def by (elim exE) (auto split: prod.splits)
qed

text \<open>Buffer 1 still has identifier 0x200 cached: identifier 0x700 is sent with priority 3.\<close>

definition stale_state :: "bench can_state" where
  "stale_state = (bench_can [])\<lparr>txb_cache := [no_canid, \<lparr>canid = 0x200, cexide = 0, priority = 0\<rparr>, no_canid]\<rparr>"

theorem can_sendto_outcome_witness:
  "\<exists>s'. can_sendto bench_bus 1 (sample_frame 9) stale_state = Some (0, s') \<and>
     sent_cmds (dev s') = [[CMD_READ, TXBCTRL 1], 0x42 # txb_bytes (sample_frame 9),
        [CMD_BIT_MODIFY, TXBCTRL 1, TXBCTRL_TXP_MASK, 3], [0x82]] \<and>
     canid (txb_cache s' ! 1) = 0x200"
proof -
  have st: "IDLE = decode_txb_status (answer bench_bus [CMD_READ, TXBCTRL 1] 1 (dev stale_state) ! 0)"
    by (simp add: decode_txb_status_def answer_def bench_bus_def stale_state_def bench_can_def)
  have wf: "port_wf stale_state" "length (txb_cache stale_state) = 3"
    by (simp_all add: stale_state_def)
  from can_sendto_outcome [OF wf(1) bench_full_duplex wf(2) _ sample_frame_fits st, of 9]
  show ?thesis
    by (simp add: sendto_cmds_def sendto_cache_def sendto_prio_def stale_state_def bench_can_def sends_def
        bench_bus_def Let_def BIT_def) (erule ex_forward, simp)
qed


section \<open>Dropped frames\<close>

text \<open>
  C39: when the receive queue is full, with one semaphore count per frame, and one more frame
  arrives, that frame is dropped but counted. The readers then get the queued frames in order, and
  one more \<^verbatim>\<open>can_recv\<close> returns without having filled in its caller's frame.
\<close>

theorem dropped_frame_wakes_reader:
  assumes "port_wf s" "full_duplex bus" "queues s = Some q" "mq_wf q"
    "length (rx_contents q) = rx_capacity q" "queue_sem s = rx_capacity q"
    "rxb_fits (answer bus [CMD_READ_RXB] MAX_BUF_LEN (dev s))" "frame_ok old"
    "length bufs = rx_capacity q"
  shows "\<exists>s1 s2. receive_message bus old (BIT 0) s = Some s1 \<and>
     recv_all (bufs @ [blank]) s1 = Some (rx_contents q @ [blank], s2)"
proof -
  have "length (answer bus [CMD_READ_RXB] MAX_BUF_LEN (dev s)) = MAX_BUF_LEN"
    using length_answer [OF assms(2)] by simp
  then obtain f where "decode_rxb (answer bus [CMD_READ_RXB] MAX_BUF_LEN (dev s)) old = Some f"
    using decode_rxb_fits assms(7,8) by blast
  then have f: "received bus 1 old (dev s) = Some [f]"
    by simp
  have n: "1 = length (filter (\<lambda>i. (BIT 0 :: u8) AND BIT i \<noteq> 0) [0, 1])"
    by (simp add: BIT_def)
  have "ok (receive_message bus old (BIT 0) s) (\<lambda>s1. queue_sem s1 = Suc (rx_capacity q) \<and>
      (\<exists>q'. queues s1 = Some q' \<and> mq_wf q' \<and> rx_contents q' = rx_contents q))"
    by (rule receive_message_wp [OF assms(1-4) n f]) (use assms(5,6) in \<open>auto simp: moved_can_iff\<close>)
  then obtain s1 q' where s1: "receive_message bus old (BIT 0) s = Some s1" "queue_sem s1 = Suc (rx_capacity q)"
      "queues s1 = Some q'" "mq_wf q'" "rx_contents q' = rx_contents q"
    by (auto simp: ok_def)
  from recv_all_queue [OF s1(3,4), of "bufs @ [blank]"] s1 assms(5,9) show ?thesis
    by auto
qed

definition full_rx_mq :: mq_mem where
  "full_rx_mq = one_mq\<lparr>rxq := \<lparr>frames = 2, head = 0, tail = 1, qsize = 2, qlock = False\<rparr>\<rparr>"

lemma full_rx_facts: "mq_wf full_rx_mq" "rx_contents full_rx_mq = [sample_frame 7]" "rx_capacity full_rx_mq = 1"
  by (simp_all add: full_rx_mq_def one_mq_def mq_wf_def cb_wf_def rx_contents_def mq_contents_def
      mq_count_def mq_slot_def rx_capacity_def)

theorem dropped_frame_wakes_reader_witness:
  "\<exists>s1 s2. receive_message (irq_bus 0) blank_frame (BIT 0)
       (irq_state\<lparr>queues := Some full_rx_mq, queue_sem := 1\<rparr>) = Some s1 \<and>
     recv_all [blank_frame, blank_frame] s1 = Some ([sample_frame 7, blank_frame], s2)"
proof -
  let ?s = "irq_state\<lparr>queues := Some full_rx_mq, queue_sem := 1\<rparr>"
  have "port_wf ?s" "queues ?s = Some full_rx_mq"
    "length (rx_contents full_rx_mq) = rx_capacity full_rx_mq" "queue_sem ?s = rx_capacity full_rx_mq"
    "length [blank_frame] = rx_capacity full_rx_mq" "frame_ok blank_frame"
    "rxb_fits (answer (irq_bus 0) [CMD_READ_RXB] MAX_BUF_LEN (dev ?s))"
    using irq_state_inv normal_modeD(5) [OF irq_bus_normal]
    by (simp_all add: full_rx_facts can_inv_def blank_frame_def frame_ok_def)
  from dropped_frame_wakes_reader [OF this(1) normal_modeD(1) [OF irq_bus_normal] this(2)
      full_rx_facts(1) this(3,4,7,6,5)]
  show ?thesis
    by (simp add: full_rx_facts)
qed

text \<open>
  C4: with the controller in normal mode, and from any state that satisfies the driver's invariant, no
  sequence of interrupts and calls that do not leave that mode, each a whole step, with frames of the CAN
  format (at most eight bytes), breaks it: the locks are free between the steps, both queues are well formed and hold
  only frames of the frame format, the semaphore counts at least the received frames, and the next
  interrupt is always served.
\<close>

theorem can_driver_safe:
  assumes "normal_mode bus N" "can_inv N s0" "can_reach bus s0 s" "frame_ok old"
  shows "can_inv N s \<and> (\<exists>s'. irq_handler bus old s = Some s' \<and> can_reach bus s0 s')"
proof -
  have s: "can_inv N s"
    by (rule can_reach_inv [OF assms(1-3)])
  obtain s' where "irq_handler bus old s = Some s'"
    using irq_handler_inv [OF assms(1) s assms(4)] by (auto simp: ok_def)
  with s show ?thesis
    using can_reach.step [OF assms(3) can_step.irq [OF assms(4)]] by blast
qed

theorem can_driver_safe_witness:
  "\<exists>s'. irq_handler (irq_bus 0x15) blank_frame irq_state = Some s' \<and> can_reach (irq_bus 0x15) irq_state s'"
  using can_driver_safe [OF irq_bus_normal [of "0x15"] irq_state_inv can_reach.start, of blank_frame]
  by (simp add: blank_frame_def frame_ok_def)

section \<open>Start-up\<close>

text \<open>The device after a reset and \<open>k\<close> polls of the mode, and the mode it then reports.\<close>

definition polled :: "'d bus \<Rightarrow> 'd \<Rightarrow> nat \<Rightarrow> 'd" where
  "polled bus d k = runs bus (replicate k ([CMD_READ, CANSTAT], 1)) d"

definition mode_at :: "'d bus \<Rightarrow> 'd \<Rightarrow> u8" where
  "mode_at bus d = drop_bit CANSTAT_OPMOD_SHF (answer bus [CMD_READ, CANSTAT] 1 d ! 0)"

lemma wait_mode_wp:
  assumes "port_wf s" "full_duplex bus"
    "\<forall>j < k. mode_at bus (polled bus (dev s) j) \<noteq> op_code m" "mode_at bus (polled bus (dev s) k) = op_code m"
    "\<And>s'. moved s (polled bus (dev s) (Suc k)) s' \<Longrightarrow> P s'"
  shows "ok (wait_mode bus m s) P"
  using assms(1,3,4,5)
proof (induction k arbitrary: s)
  case 0
  then show ?case
    by (subst wait_mode.simps, unfold get_mode_def ok_bind)
      (rule read_reg_wp [OF 0(1) assms(2)], simp add: mode_at_def polled_def)
next
  case (Suc k)
  have rest: "ok (wait_mode bus m s1) P" if s1: "moved s (sends bus [CMD_READ, CANSTAT] 1 (dev s)) s1" for s1
  proof -
    have p: "polled bus (dev s1) j = polled bus (dev s) (Suc j)" for j
      by (simp add: polled_def moved_dev [OF s1])
    show ?thesis
      by (rule Suc.IH [OF movedD [OF s1]]) (use Suc.prems(2-4) moved_trans [OF s1] in \<open>auto simp: p\<close>)
  qed
  have "mode_at bus (dev s) \<noteq> op_code m"
    using Suc.prems(2) by (auto simp: polled_def dest: spec [of _ 0])
  then show ?case
    by (subst wait_mode.simps, unfold get_mode_def ok_bind)
      (rule read_reg_wp [OF Suc.prems(1) assms(2)], drule rest, simp add: mode_at_def)
qed

text \<open>The rest of \<^verbatim>\<open>can_setup\<close>, once the controller is in configuration mode.\<close>

definition setup_cmds :: "(u8 list \<times> nat) list" where
  "setup_cmds =
     [([CMD_WRITE, CNF3, 1, 0x91, 9], 0), ([CMD_WRITE, CANINTE, 0xBF], 0),
      ([CMD_BIT_MODIFY, RXBCTRL 0, RXBCTRL_RXM_MASK, 0x60], 0),
      ([CMD_BIT_MODIFY, CANCTRL, CANCTRL_REQOP_MASK, 0], 0)]"

lemma moved_emit: "moved (emit e s) d s' \<longleftrightarrow> moved (s\<lparr>emitted := emitted s @ [e]\<rparr>) d s'"
  by (simp add: emit_def)

lemma setup_tail:
  assumes "port_wf s" "rounds_to_nearest div_round"
    "\<And>s'. moved (s\<lparr>emitted := emitted s @ [Int_Reg_Callback]\<rparr>) (runs bus setup_cmds (dev s)) s' \<Longrightarrow> P s'"
  shows "ok (do { s \<leftarrow> set_baudrate div_round 1000000000 bus 125000 s; s \<leftarrow> enable_intrrupt bus s;
     s \<leftarrow> set_rx_mode bus 0 RXM_ANY s; set_mode bus REQOP_NORMAL s }) P"
proof -
  obtain s1 where s1: "set_baudrate div_round 1000000000 bus 125000 s = Some s1"
      "moved s (sends bus [CMD_WRITE, CNF3, 1, 0x91, 9] 0 (dev s)) s1"
    using baudrate_125k [OF assms(1,2), of bus] by blast
  have val: "(((CANINTE_RX0IE OR CANINTE_RX1IE) OR (CANINTE_TX0IE OR CANINTE_TX1IE OR CANINTE_TX2IE)) OR
      CANINTE_MERRE) OR CANINTE_ERRIE = (0xBF :: u8)"
    by (simp add: BIT_def)
  have "ok (do { s \<leftarrow> enable_intrrupt bus s1;
     s \<leftarrow> set_rx_mode bus 0 RXM_ANY s; set_mode bus REQOP_NORMAL s }) P"
    unfolding enable_intrrupt_def set_rx_mode_def set_mode_def ok_bind Let_def val
  proof (rule write_reg_wp [OF movedD [OF s1(2)]])
    fix s2
    assume s2: "moved s1 (sends bus [CMD_WRITE, CANINTE, 0xBF] 0 (dev s1)) s2"
    have "ok (mcp2515_bit_modify bus (RXBCTRL 0) RXBCTRL_RXM_MASK 0x60 (emit Int_Reg_Callback s2))
       (\<lambda>s. ok (mcp2515_bit_modify bus CANCTRL CANCTRL_REQOP_MASK 0 s) P)"
      by (intro bit_modify_wp assms(3))
        (use s1(2) s2 in \<open>auto simp: moved_can_iff emit_def setup_cmds_def port_wf_def\<close>)
    then show "ok (Some (emit Int_Reg_Callback s2)) (\<lambda>s. ok (if 1 < (0::nat) then Some s
        else mcp2515_bit_modify bus (RXBCTRL 0) RXBCTRL_RXM_MASK (push_bit RXBCTRL_RXM_SHF (rxm_code RXM_ANY)) s)
       (\<lambda>s. ok (mcp2515_bit_modify bus CANCTRL CANCTRL_REQOP_MASK
           (push_bit CANCTRL_REQOP_SHF (op_code REQOP_NORMAL)) s) P))"
      by simp
  qed
  then show ?thesis
    using s1(1) by simp
qed

text \<open>
  C24: \<^verbatim>\<open>can_setup(125000)\<close>, when the controller reports configuration mode at the \<open>k\<close>-th poll after
  the reset: it returns 0 having sent exactly the reset, the polls, the timing registers, the interrupt
  enables, the receive mode and the request for normal mode, in this order; it has registered the
  interrupt handler before normal mode is requested, and leaves the lock free.
\<close>

theorem can_setup_sequence:
  assumes "port_wf s" "full_duplex bus" "rounds_to_nearest div_round"
    "d0 = sends bus [CMD_RESET] 0 (dev s)"
    "\<forall>j < k. mode_at bus (polled bus d0 j) \<noteq> op_code REQOP_CONFIG"
    "mode_at bus (polled bus d0 k) = op_code REQOP_CONFIG"
  shows "\<exists>s'. can_setup div_round 1000000000 bus 125000 s = Some (0, s') \<and>
     dev s' = runs bus ([([CMD_RESET], 0)] @ replicate (Suc k) ([CMD_READ, CANSTAT], 1) @
       [([CMD_WRITE, CNF3, 1, 0x91, 9], 0), ([CMD_WRITE, CANINTE, 0xBF], 0),
        ([CMD_BIT_MODIFY, RXBCTRL 0, RXBCTRL_RXM_MASK, 0x60], 0),
        ([CMD_BIT_MODIFY, CANCTRL, CANCTRL_REQOP_MASK, 0], 0)]) (dev s) \<and>
     emitted s' = emitted s @ [Int_Reg_Callback] \<and> port_wf s'"
proof -
  have "ok (do { s \<leftarrow> mcp2515_reset bus s; s \<leftarrow> wait_mode bus REQOP_CONFIG s;
      do { s \<leftarrow> set_baudrate div_round 1000000000 bus 125000 s; s \<leftarrow> enable_intrrupt bus s;
       s \<leftarrow> set_rx_mode bus 0 RXM_ANY s; set_mode bus REQOP_NORMAL s } })
    (\<lambda>s'. dev s' = runs bus setup_cmds (polled bus d0 (Suc k)) \<and>
      emitted s' = emitted s @ [Int_Reg_Callback] \<and> port_wf s')"
    unfolding ok_bind [of "mcp2515_reset bus s"] ok_bind [of "wait_mode bus m t" for m t]
  proof (rule reset_wp [OF assms(1)])
    fix s1
    assume s1: "moved s (sends bus [CMD_RESET] 0 (dev s)) s1"
    then have d1: "dev s1 = d0"
      by (simp add: moved_dev assms(4))
    show "ok (wait_mode bus REQOP_CONFIG s1) (\<lambda>s2. ok (do { s \<leftarrow> set_baudrate div_round 1000000000 bus 125000 s2;
       s \<leftarrow> enable_intrrupt bus s; s \<leftarrow> set_rx_mode bus 0 RXM_ANY s; set_mode bus REQOP_NORMAL s })
       (\<lambda>s'. dev s' = runs bus setup_cmds (polled bus d0 (Suc k)) \<and>
        emitted s' = emitted s @ [Int_Reg_Callback] \<and> port_wf s'))"
      by (rule wait_mode_wp [OF movedD [OF s1] assms(2), of k], unfold d1, rule assms(5), rule assms(6),
          rule setup_tail [OF movedD assms(3)]) (use s1 in \<open>auto simp: moved_can_iff\<close>)
  qed
  then show ?thesis
    by (auto simp: ok_def can_setup_def bind_splits setup_cmds_def polled_def assms(4))
qed

text \<open>A controller that still reports sleep mode at the first poll and configuration mode at the second.\<close>

theorem can_setup_sequence_witness:
  "\<exists>s'. can_setup round_half_up 1000000000 bench_bus 125000 (bench_can [[0x20], [0x80]]) = Some (0, s') \<and>
     sent_cmds (dev s') = [[0xC0], [3, 0xE], [3, 0xE], [2, 0x28, 1, 0x91, 9], [2, 0x2B, 0xBF],
       [5, 0x60, 0x60, 0x60], [5, 0xF, 0xE0, 0]]"
proof -
  let ?d0 = "sends bench_bus [CMD_RESET] 0 (dev (bench_can [[0x20], [0x80]]))"
  have m: "\<forall>j < 1. mode_at bench_bus (polled bench_bus ?d0 j) \<noteq> op_code REQOP_CONFIG"
    "mode_at bench_bus (polled bench_bus ?d0 1) = op_code REQOP_CONFIG"
    by (simp_all add: polled_def mode_at_def bench_can_def answer_def sends_def bench_bus_def)
  from can_setup_sequence [OF bench_can_wf bench_full_duplex round_half_up_rounds refl m]
  show ?thesis
    by (simp add: bench_can_def sends_def bench_bus_def RXBCTRL_def numeral_2_eq_2) (erule ex_forward, simp)
qed

end
