(* ===== verification/Can_Filter_Laws.thy ===== *)
theory Can_Filter_Laws
  imports Can_Dev_Laws
begin

text \<open>
  The acceptance filters of \<^verbatim>\<open>components/can/src/controller.c\<close>: what \<^verbatim>\<open>set_rx_filter\<close> writes whatever the
  controller answers, and, over a controller that keeps its filter registers (\<open>register_file\<close>), when it
  keeps or overwrites the filters in use; \<^verbatim>\<open>clear_rx_filter\<close>; and the places where the buffer code
  leaves its arrays or waits on the wrong register.
\<close>

section \<open>What the filter operations send\<close>

definition filter_bytes :: "can_id \<Rightarrow> u8 list" where
  "filter_bytes cid =
     (let (sid, eid) = split_id (exide cid) (ucast (id_num cid)) in id_bytes sid eid (ucast (exide cid)))"

definition mask_bytes :: "1 word \<Rightarrow> u32 \<Rightarrow> u8 list" where
  "mask_bytes ext m = (let (sid, eid) = split_id ext m in id_bytes sid eid 0)"

lemma length_filter_bytes [simp]: "length (filter_bytes cid) = 4" "length (mask_bytes ext m) = 4"
  by (simp_all add: filter_bytes_def mask_bytes_def split_beta)

text \<open>The writes of \<^verbatim>\<open>write_to_filter\<close>, with their read counts.\<close>

definition filter_writes :: "nat \<Rightarrow> can_id \<Rightarrow> u32 \<Rightarrow> (u8 list \<times> nat) list" where
  "filter_writes idx cid m =
     (if m = 0 then [] else [(CMD_WRITE # RXMSIDH (if idx < FILTS_OF_MASK0 then 0 else 1) # mask_bytes (exide cid) m, 0)]) @
     [(CMD_WRITE # RXFSIDH idx # filter_bytes cid, 0)]"

lemma write_to_filter_wp [wp]:
  assumes "port_wf s" "\<And>s'. moved s (runs bus (filter_writes idx cid m) (dev s)) s' \<Longrightarrow> P s'"
  shows "ok (write_to_filter bus idx cid m s) P"
proof -
  have eq: "write_to_filter bus idx cid m s = do {
     s \<leftarrow> (if m \<noteq> 0 then mcp2515_write_nregs bus (RXMSIDH (if idx < FILTS_OF_MASK0 then 0 else 1))
            (mask_bytes (exide cid) m) FILTER_BYTES s else Some s);
     mcp2515_write_nregs bus (RXFSIDH idx) (filter_bytes cid) FILTER_BYTES s }"
    by (simp add: write_to_filter_def filter_bytes_def mask_bytes_def split_beta)
  have last: "ok (mcp2515_write_nregs bus (RXFSIDH idx) (filter_bytes cid) FILTER_BYTES s1) P"
    if "moved s (runs bus (if m = 0 then [] else [(CMD_WRITE # RXMSIDH (if idx < FILTS_OF_MASK0 then 0 else 1) #
        mask_bytes (exide cid) m, 0)]) (dev s)) s1" for s1
    by (rule write_nregs_wp [OF movedD [OF that]])
      (use moved_trans [OF that] assms(2) moved_dev [OF that] in \<open>simp_all add: filter_writes_def\<close>)
  show ?thesis
  proof (cases "m = 0")
    case True
    with last [of s] moved_refl [OF assms(1)] show ?thesis
      unfolding eq by simp
  next
    case False
    then have "ok (mcp2515_write_nregs bus (RXMSIDH (if idx < FILTS_OF_MASK0 then 0 else 1))
        (mask_bytes (exide cid) m) FILTER_BYTES s)
        (\<lambda>s. ok (mcp2515_write_nregs bus (RXFSIDH idx) (filter_bytes cid) FILTER_BYTES s) P)"
      by (intro write_nregs_wp [OF assms(1)] last) simp_all
    with False show ?thesis
      unfolding eq by simp
  qed
qed

lemma is_filter_empty_wp [wp]:
  assumes "port_wf s" "full_duplex bus"
    "\<And>s'. moved s (sends bus [CMD_READ, RXFSIDH i] FILTER_BYTES (dev s)) s' \<Longrightarrow>
       P (fold (OR) (answer bus [CMD_READ, RXFSIDH i] FILTER_BYTES (dev s)) 0 = 0, s')"
  shows "ok (is_filter_empty bus i s) P"
  unfolding is_filter_empty_def ok_bind
  by (rule read_nregs_wp [OF assms(1,2)]) (simp_all add: assms(3))

text \<open>Only register reads happened: \<open>reads_only bus d d'\<close>.\<close>

definition reads_only :: "'d bus \<Rightarrow> 'd \<Rightarrow> 'd \<Rightarrow> bool" where
  "reads_only bus d d' \<longleftrightarrow> (\<exists>rs. (\<forall>t \<in> set rs. \<exists>r. fst t = [CMD_READ, r]) \<and> d' = runs bus rs d)"

lemma reads_only_refl: "reads_only bus d d"
  unfolding reads_only_def by (rule exI [of _ "[]"]) simp

lemma reads_only_step: "reads_only bus d d' \<Longrightarrow> reads_only bus d (sends bus [CMD_READ, r] n d')"
  unfolding reads_only_def
proof (elim exE conjE)
  fix rs
  assume "\<forall>t \<in> set rs. \<exists>r. fst t = [CMD_READ, r]" "d' = runs bus rs d"
  then show "\<exists>rs. (\<forall>t \<in> set rs. \<exists>r. fst t = [CMD_READ, r]) \<and> sends bus [CMD_READ, r] n d' = runs bus rs d"
    by (intro exI [of _ "rs @ [([CMD_READ, r], n)]"]) auto
qed

lemma first_empty_filter_wp:
  assumes "port_wf s" "full_duplex bus" "reads_only bus d0 (dev s)"
    "\<And>f s'. moved s (dev s') s' \<Longrightarrow> reads_only bus d0 (dev s') \<Longrightarrow> (\<forall>j. f = Some j \<longrightarrow> j \<in> set js) \<Longrightarrow> P (f, s')"
  shows "ok (first_empty_filter bus js s) P"
  using assms(1,3,4)
proof (induction js arbitrary: s)
  case Nil
  then show ?case by (simp add: moved_refl)
next
  case (Cons j js)
  show ?case
    unfolding first_empty_filter.simps ok_bind
  proof (rule is_filter_empty_wp [OF Cons.prems(1) assms(2)])
    fix s1
    assume s1: "moved s (sends bus [CMD_READ, RXFSIDH j] FILTER_BYTES (dev s)) s1"
    have r: "reads_only bus d0 (dev s1)"
      using reads_only_step [OF Cons.prems(2)] by (simp add: moved_dev [OF s1])
    let ?e = "fold (OR) (answer bus [CMD_READ, RXFSIDH j] FILTER_BYTES (dev s)) 0 = 0"
    have "ok (if ?e then Some (Some j, s1) else first_empty_filter bus js s1) P"
      using s1 r by (auto intro!: Cons.prems(3) Cons.IH movedD [OF s1] simp: moved_dev [OF s1] dest: moved_trans [OF s1])
    then show "ok (case (?e, s1) of (e, s) \<Rightarrow> if e then Some (Some j, s) else first_empty_filter bus js s) P"
      by simp
  qed
qed

lemma set_rx_filter_from_wp:
  assumes "port_wf s" "full_duplex bus" "reads_only bus d0 (dev s)"
    "\<And>r s' d. moved s (dev s') s' \<Longrightarrow> reads_only bus d0 d \<Longrightarrow>
      (r = -1 \<and> dev s' = d) \<or> (\<exists>idx mm. r = int idx \<and> idx < 6 \<and> mm \<in> {0, m} \<and> dev s' = runs bus (filter_writes idx cid mm) d) \<Longrightarrow> P (r, s')"
    "\<forall>i \<in> set is. i < 2"
  shows "ok (set_rx_filter_from bus cid m is s) P"
  using assms(1,3-5)
proof (induction "is" arbitrary: s)
  case Nil
  then show ?case by (simp add: moved_refl)
next
  case (Cons i "is")
  then have i: "i < 2" by simp
  have tail: "ok (set_rx_filter_from bus cid m is s1) P"
    if "moved s (dev s1) s1" "reads_only bus d0 (dev s1)" for s1
    by (rule Cons.IH [OF movedD [OF that(1)] that(2)])
      (use Cons.prems(3,4) moved_trans [OF that(1)] in \<open>auto\<close>)
  have wr: "ok (do { s \<leftarrow> write_to_filter bus idx cid mm s1; Some (int idx, s) }) P"
    if "moved s (dev s1) s1" "reads_only bus d0 (dev s1)" "idx < 6" "mm \<in> {0, m}" for s1 idx mm
    unfolding ok_bind
    by (rule write_to_filter_wp [OF movedD [OF that(1)]], unfold ok_Some, rule Cons.prems(3) [OF _ that(2)])
      (use that(3,4) moved_trans [OF that(1)] moved_dev in \<open>fastforce+\<close>)
  have scan: "ok (do { (f, s) \<leftarrow> first_empty_filter bus [i * FILTS_OF_MASK0..<i * FILTS_OF_MASK1 + FILTS_OF_MASK0] s1;
      case f of Some j \<Rightarrow> do { s \<leftarrow> write_to_filter bus j cid 0 s; Some (int j, s) }
       | None \<Rightarrow> set_rx_filter_from bus cid m is s }) P"
    if "moved s (dev s1) s1" "reads_only bus d0 (dev s1)" for s1
    unfolding ok_bind
  proof (rule first_empty_filter_wp [OF movedD [OF that(1)] assms(2) that(2)])
    fix f s2
    assume s2: "moved s1 (dev s2) s2" "reads_only bus d0 (dev s2)"
      and f: "\<forall>j. f = Some j \<longrightarrow> j \<in> set [i * FILTS_OF_MASK0..<i * FILTS_OF_MASK1 + FILTS_OF_MASK0]"
    have m2: "moved s (dev s2) s2"
      by (rule moved_trans [OF that(1) s2(1)])
    have "j < 6" if "f = Some j" for j
      using f that i by auto
    then have "ok (case f of Some j \<Rightarrow> do { s \<leftarrow> write_to_filter bus j cid 0 s2; Some (int j, s) }
       | None \<Rightarrow> set_rx_filter_from bus cid m is s2) P"
      using tail [OF m2 s2(2)] wr [OF m2 s2(2), of _ 0] by (cases f) auto
    then show "ok (case (f, s2) of (f, s) \<Rightarrow> case f of Some j \<Rightarrow> do { s \<leftarrow> write_to_filter bus j cid 0 s; Some (int j, s) }
       | None \<Rightarrow> set_rx_filter_from bus cid m is s) P"
      by simp
  qed
  have one: "i * 2 < 6"
    using i by simp
  have step: "ok (let cur_mask = mask_word (exide cid) buf in
      if cur_mask = 0 \<and> mask_eid buf = 0 then do { s \<leftarrow> write_to_filter bus (i * FILTS_OF_MASK0) cid m s1;
         Some (int (i * FILTS_OF_MASK0), s) }
      else if cur_mask = m then do { (f, s) \<leftarrow> first_empty_filter bus [i * FILTS_OF_MASK0..<i * FILTS_OF_MASK1 + FILTS_OF_MASK0] s1;
        case f of Some j \<Rightarrow> do { s \<leftarrow> write_to_filter bus j cid 0 s; Some (int j, s) }
         | None \<Rightarrow> set_rx_filter_from bus cid m is s }
      else set_rx_filter_from bus cid m is s1) P"
    if "moved s (dev s1) s1" "reads_only bus d0 (dev s1)" for s1 buf
    using tail [OF that] wr [OF that one, of m] scan [OF that] by (auto simp: Let_def)
  show ?case
    unfolding set_rx_filter_from.simps ok_bind [of "mcp2515_read_nregs b r c d e" for b r c d e]
  proof (rule read_nregs_wp [OF Cons.prems(1) assms(2)])
    fix s1
    assume s1: "moved s (sends bus [CMD_READ, RXMSIDH i] FILTER_BYTES (dev s)) s1"
    then have "moved s (dev s1) s1" "reads_only bus d0 (dev s1)"
      using reads_only_step [OF Cons.prems(2)] by (simp_all add: moved_dev [OF s1])
    from step [OF this, of "answer bus [CMD_READ, RXMSIDH i] FILTER_BYTES (dev s)"]
    show "ok (case (answer bus [CMD_READ, RXMSIDH i] FILTER_BYTES (dev s), s1) of (buf, s) \<Rightarrow>
      let cur_mask = mask_word (exide cid) buf in
      if cur_mask = 0 \<and> mask_eid buf = 0 then do { s \<leftarrow> write_to_filter bus (i * FILTS_OF_MASK0) cid m s;
         Some (int (i * FILTS_OF_MASK0), s) }
      else if cur_mask = m then do { (f, s) \<leftarrow> first_empty_filter bus [i * FILTS_OF_MASK0..<i * FILTS_OF_MASK1 + FILTS_OF_MASK0] s;
        case f of Some j \<Rightarrow> do { s \<leftarrow> write_to_filter bus j cid 0 s; Some (int j, s) }
         | None \<Rightarrow> set_rx_filter_from bus cid m is s }
      else set_rx_filter_from bus cid m is s) P"
      by simp
  qed simp_all
qed

text \<open>
  C32: whatever the controller's registers hold, \<^verbatim>\<open>set_rx_filter\<close> returns -1 having written nothing,
  or the index of a filter (0 to 5), having read some registers and then written at most the mask of
  that filter, with the bytes of the given mask, and last the four bytes of that filter.
\<close>

theorem set_rx_filter_writes:
  assumes "port_wf s" "full_duplex bus"
  shows "\<exists>r s' d. set_rx_filter bus cid m s = Some (r, s') \<and> reads_only bus (dev s) d \<and> port_wf s' \<and>
     (r = -1 \<and> dev s' = d \<or>
      (\<exists>idx mm. r = int idx \<and> idx < 6 \<and> mm \<in> {0, m} \<and> dev s' = runs bus (filter_writes idx cid mm) d))"
proof -
  have "ok (set_rx_filter bus cid m s) (\<lambda>(r, s'). \<exists>d. reads_only bus (dev s) d \<and> port_wf s' \<and>
     (r = -1 \<and> dev s' = d \<or>
      (\<exists>idx mm. r = int idx \<and> idx < 6 \<and> mm \<in> {0, m} \<and> dev s' = runs bus (filter_writes idx cid mm) d)))"
    unfolding set_rx_filter_def
    by (rule set_rx_filter_from_wp [OF assms reads_only_refl]) auto
  then show ?thesis
    unfolding ok_def by blast
qed


theorem set_rx_filter_writes_witness:
  "\<exists>r s' d. set_rx_filter bench_bus (ident bench_frame) 0x7F0 (bench_can []) = Some (r, s') \<and>
     reads_only bench_bus (dev (bench_can [])) d \<and>
     (r = -1 \<and> dev s' = d \<or> (\<exists>idx mm. r = int idx \<and> idx < 6 \<and>
        dev s' = runs bench_bus (filter_writes idx (ident bench_frame) mm) d))"
  using set_rx_filter_writes [OF bench_can_wf [of "[]"] bench_full_duplex,
      where cid = "ident bench_frame" and m = "0x7F0"] by blast

section \<open>Reading a mask back\<close>

lemma mask_word_std:
  assumes "unat m < 2 ^ CAN_SID_BITS"
  shows "mask_word 0 (mask_bytes 0 m) = m AND 0xFF" "mask_eid (mask_bytes 0 m) = 0"
proof -
  have m: "bit m k \<Longrightarrow> k < 11" for k
    by (rule bit_less_exp [OF assms])
  have mb: "mask_bytes 0 m = id_bytes m 0 0"
    by (simp add: mask_bytes_def split_id_def)
  define B where "B = mask_bytes 0 m"
  have B: "bit (B ! 0) k \<longleftrightarrow> k < 8 \<and> bit m (k + 3)"
    "bit (B ! Suc 0) k \<longleftrightarrow> 5 \<le> k \<and> k < 8 \<and> bit m (k - 5)" for k
    unfolding B_def mb One_nat_def [symmetric] id_bytes_bits by auto
  have B2: "B ! 2 = 0" "B ! 3 = 0"
    by (simp_all add: B_def mask_bytes_def split_id_def id_bytes_def)
  show eid: "mask_eid (mask_bytes 0 m) = 0"
    unfolding B_def [symmetric]
    by (rule bit_word_eqI) (auto simp: mask_eid_def B2 bits bit_layout)
  have sid: "bit (mask_sid B) k \<longleftrightarrow> k < 8 \<and> bit m k" for k
    by (cases "k < 3") (auto simp: mask_sid_def bits B)
  show "mask_word 0 (mask_bytes 0 m) = m AND 0xFF"
    unfolding B_def [symmetric]
    by (intro bit_word_eqI) (auto simp: mask_word_def Let_def eid [folded B_def] bits bit_layout sid)
qed

lemma low_byte: "unat m < 0x100 \<Longrightarrow> m AND 0xFF = m" for m :: u32
  using bit_less_exp [of m 8] by (intro bit_word_eqI) (auto simp: bits bit_layout)

section \<open>Over a plain register file\<close>

text \<open>
  What the filter operations rely on while the controller is in configuration mode (\<open>get d a\<close> is the
  register at address \<open>a\<close>): the registers of filters 0 to 2 and of the masks read as they were last
  written, at consecutive addresses.
\<close>

definition in_filters :: "nat \<Rightarrow> nat \<Rightarrow> bool" where
  "in_filters r n \<longleftrightarrow> r + n \<le> 0xC \<or> 0x20 \<le> r \<and> r + n \<le> 0x28"

definition write_regs :: "nat \<Rightarrow> u8 list \<Rightarrow> (nat \<Rightarrow> u8) \<Rightarrow> nat \<Rightarrow> u8" where
  "write_regs r vs g a = (if r \<le> a \<and> a < r + length vs then vs ! (a - r) else g a)"

definition read_regs :: "(nat \<Rightarrow> u8) \<Rightarrow> nat \<Rightarrow> u8 list" where
  "read_regs g r = map (\<lambda>i. g (r + i)) [0..<FILTER_BYTES]"

definition register_file :: "'d bus \<Rightarrow> ('d \<Rightarrow> nat \<Rightarrow> u8) \<Rightarrow> bool" where
  "register_file bus get \<longleftrightarrow> full_duplex bus \<and>
     (\<forall>d r. in_filters (unat r) FILTER_BYTES \<longrightarrow>
        answer bus [CMD_READ, r] FILTER_BYTES d = read_regs (get d) (unat r) \<and>
        get (sends bus [CMD_READ, r] FILTER_BYTES d) = get d) \<and>
     (\<forall>d r vs. in_filters (unat r) (length vs) \<longrightarrow>
        get (sends bus (CMD_WRITE # r # vs) 0 d) = write_regs (unat r) vs (get d))"

lemma read_write_regs:
  "length vs = 4 \<Longrightarrow> read_regs (write_regs r vs g) r = vs"
  "length vs = 4 \<Longrightarrow> r' + 4 \<le> r \<or> r + 4 \<le> r' \<Longrightarrow> read_regs (write_regs r vs g) r' = read_regs g r'"
  by (auto simp: read_regs_def write_regs_def intro!: nth_equalityI)

lemma register_addresses [simp]:
  "unat (RXFSIDH 0) = 0" "unat (RXFSIDH (Suc 0)) = 4" "unat (RXMSIDH 0) = 0x20" "unat (RXMSIDH (Suc 0)) = 0x24"
  by (simp_all add: RXFSIDH_def RXMSIDH_def)

lemma in_filters_addresses [simp]:
  "in_filters 0 4" "in_filters 4 4" "in_filters 0x20 4" "in_filters 0x24 4"
  by (simp_all add: in_filters_def)

lemma register_fileD:
  assumes "register_file bus get" "in_filters (unat r) FILTER_BYTES"
  shows "full_duplex bus" "answer bus [CMD_READ, r] FILTER_BYTES d = read_regs (get d) (unat r)"
    "get (sends bus [CMD_READ, r] FILTER_BYTES d) = get d"
    "length vs = FILTER_BYTES \<Longrightarrow> get (sends bus (CMD_WRITE # r # vs) 0 d) = write_regs (unat r) vs (get d)"
  using assms unfolding register_file_def by (metis+)

lemma or_zero_iff: "fold (OR) bs (x :: u8) = 0 \<longleftrightarrow> x = 0 \<and> (\<forall>b \<in> set bs. b = 0)"
  by (induction bs arbitrary: x) (auto simp: or_eq_0_iff)

text \<open>
  C33: \<^verbatim>\<open>set_rx_filter\<close> for a standard identifier, with a non-zero mask \<open>m\<close> of at most 11 bits that mask 0
  already holds, filter 0 in use and filter 1 free. The intention is that filter 1 is taken and filter 0 is kept. That is what happens when \<open>m\<close>
  fits eight bits; when the low eight bits of \<open>m\<close> are zero, the mask that is read back through the
  eight-bit variables is zero, the function takes mask 0 for unused, and overwrites filter 0.
\<close>

theorem set_rx_filter_reuse:
  assumes "port_wf s" "register_file bus get" "exide cid = 0" "m \<noteq> 0" "unat m < 2 ^ CAN_SID_BITS"
    "read_regs (get (dev s)) 0x20 = mask_bytes 0 m"
    "read_regs (get (dev s)) 0 = old" "\<exists>b \<in> set old. b \<noteq> 0" "read_regs (get (dev s)) 4 = [0, 0, 0, 0]"
  shows "\<exists>r s'. set_rx_filter bus cid m s = Some (r, s') \<and>
     (unat m < 0x100 \<longrightarrow> r = 1 \<and> read_regs (get (dev s')) 0 = old \<and>
        read_regs (get (dev s')) 4 = filter_bytes cid) \<and>
     (m AND 0xFF = 0 \<longrightarrow> r = 0 \<and> read_regs (get (dev s')) 0 = filter_bytes cid)"
proof -
  note rf = register_fileD [OF assms(2)]
  let ?Q = "\<lambda>(r, s'). (unat m < 0x100 \<longrightarrow> r = 1 \<and> read_regs (get (dev s')) 0 = old \<and>
        read_regs (get (dev s')) 4 = filter_bytes cid) \<and>
     (m AND 0xFF = 0 \<longrightarrow> r = (0 :: int) \<and> read_regs (get (dev s')) 0 = filter_bytes cid)"
  have in0: "in_filters (unat (RXMSIDH 0)) FILTER_BYTES" "in_filters (unat (RXFSIDH 0)) FILTER_BYTES"
      "in_filters (unat (RXFSIDH 1)) FILTER_BYTES"
    by simp_all
  have fd: "full_duplex bus"
    using assms(2) by (simp add: register_file_def)
  have mask: "mask_word (exide cid) (read_regs (get (dev s)) 0x20) = m AND 0xFF"
      "mask_eid (read_regs (get (dev s)) 0x20) = 0"
    using mask_word_std [OF assms(5)] by (simp_all add: assms(3,6))
  consider "unat m < 0x100" | "\<not> unat m < 0x100" "m AND 0xFF = 0" | "\<not> unat m < 0x100" "m AND 0xFF \<noteq> 0"
    by blast
  then have "ok (set_rx_filter bus cid m s) ?Q"
  proof cases
    case 3
    have "ok (set_rx_filter bus cid m s) (\<lambda>_. True)"
      unfolding set_rx_filter_def by (rule set_rx_filter_from_wp [OF assms(1) fd reads_only_refl]) auto
    then show ?thesis
      by (rule ok_mono) (use 3 in auto)
  next
    case 2
    have "ok (write_to_filter bus 0 cid m s1) (\<lambda>s. ?Q (0, s))"
      if "moved s (sends bus [CMD_READ, RXMSIDH 0] FILTER_BYTES (dev s)) s1" for s1
      by (rule write_to_filter_wp [OF movedD [OF that]])
        (use 2 assms(4) rf(4) [OF in0(1), simplified] rf(4) [OF in0(2), simplified] in
          \<open>auto simp: moved_dev filter_writes_def read_write_regs\<close>)
    then show ?thesis
      unfolding set_rx_filter_def
      apply (simp add: upt_rec)
      apply (rule read_nregs_wp [OF assms(1) fd])
        apply simp
       apply simp
      apply (simp add: rf(2) [OF in0(1), simplified] mask 2 assms(4))
      done
  next
    case 1
    have m: "m AND 0xFF = m"
      by (rule low_byte [OF 1])
    note regs = moved_dev rf(2,3) [OF in0(1), simplified] rf(2-4) [OF in0(2), simplified]
      rf(2-4) [OF in0(3), simplified]
    have empty: "fold (OR) old 0 = 0 \<longleftrightarrow> False" "fold (OR) [0, 0, 0, 0 :: u8] 0 = 0"
      using assms(8) by (auto simp: or_zero_iff)
    show ?thesis
      unfolding set_rx_filter_def
      apply (simp add: upt_rec)
      apply (rule read_nregs_wp [OF assms(1) fd])
        apply simp
       apply simp
      apply (simp add: rf(2) [OF in0(1), simplified] mask m assms(4))
      apply (rule is_filter_empty_wp [OF _ fd], erule movedD)
      apply (simp add: regs assms(7) empty)
      apply (rule is_filter_empty_wp [OF _ fd], erule movedD)
      apply (simp add: regs assms(9))
      apply (rule write_to_filter_wp, erule movedD)
      apply (simp add: regs filter_writes_def read_write_regs assms(7))
      done
  qed
  then show ?thesis
    unfolding ok_def by auto
qed

text \<open>A controller that is nothing but registers.\<close>

definition reg_bus :: "(nat \<Rightarrow> u8) bus" where
  "reg_bus app out r d =
     (replicate (length out) 0 @
        (if length out = 2 \<and> hd out = CMD_READ then map (\<lambda>i. d (unat (out ! 1) + i)) [0..<r] else replicate r 0),
      if 2 \<le> length out \<and> hd out = CMD_WRITE then write_regs (unat (out ! 1)) (drop 2 out) d else d)"

lemma reg_bus_register_file: "register_file reg_bus (\<lambda>d. d)"
  by (auto simp: register_file_def full_duplex_def reg_bus_def answer_def sends_def read_regs_def)

definition reg_state :: "(nat \<Rightarrow> u8) \<Rightarrow> (nat \<Rightarrow> u8) can_state" where
  "reg_state g =
     \<lparr>txbuf = replicate 255 0, rxbuf = replicate 255 0, spi_lock = False, dev = g,
      txb_cache = replicate 3 no_canid, queues = None, xmit_stopped = 1, txb_lock = False,
      queue_sem = 0, emitted = []\<rparr>"

lemma reg_state_simps [simp]: "port_wf (reg_state g)" "dev (reg_state g) = g"
  by (simp_all add: reg_state_def port_wf_def)

text \<open>Mask 0x700 and identifier 0x123 in filter 0; then a filter for identifier 0x456 with the same mask.\<close>

definition used_regs :: "nat \<Rightarrow> u8" where
  "used_regs a = (if a = 0 then 0x24 else if a = 1 then 0x60 else if a = 0x20 then 0xE0 else 0)"

theorem set_rx_filter_reuse_witness:
  "\<exists>r s'. set_rx_filter reg_bus \<lparr>id_num = 0x456, exide = 0, rtr = 0, err = 0\<rparr> 0x700 (reg_state used_regs) = Some (r, s') \<and>
     r = 0 \<and> read_regs (dev s') 0 = [0x8A, 0xC0, 0, 0]"
proof -
  let ?cid = "\<lparr>id_num = 0x456, exide = 0, rtr = 0, err = 0\<rparr>"
  have r: "read_regs used_regs 0x20 = mask_bytes 0 0x700" "read_regs used_regs 0 = [0x24, 0x60, 0, 0]"
      "read_regs used_regs 4 = [0, 0, 0, 0]"
    by (simp_all add: read_regs_def used_regs_def mask_bytes_def split_id_def id_bytes_def upt_rec)
  have f: "filter_bytes ?cid = [0x8A, 0xC0, 0, 0]"
    by (simp add: filter_bytes_def split_id_def id_bytes_def)
  from set_rx_filter_reuse [OF reg_state_simps(1) [of used_regs] reg_bus_register_file, where cid = ?cid and m = "0x700" and old = "[0x24, 0x60, 0, 0]"]
  show ?thesis
    by (auto simp: r f)
qed

section \<open>Clearing a filter\<close>

text \<open>
  \<^verbatim>\<open>clear_rx_filter\<close> on filter 0 or 1 zeroes the registers of that filter, keeps the other one, and
  zeroes mask 0 exactly when the other filter is not in use either.
\<close>

theorem clear_rx_filter_mask0:
  assumes "port_wf s" "register_file bus get" "idx = of_nat i" "j = 1 - i" "i < 2"
    "other = read_regs (get (dev s)) (4 * j)" "m = read_regs (get (dev s)) 0x20"
  shows "\<exists>s'. clear_rx_filter bus idx s = Some s' \<and> port_wf s' \<and>
     read_regs (get (dev s')) (4 * i) = [0, 0, 0, 0] \<and> read_regs (get (dev s')) (4 * j) = other \<and>
     read_regs (get (dev s')) 0x20 = (if other = [0, 0, 0, 0] then [0, 0, 0, 0] else m)"
proof -
  let ?Q = "\<lambda>s'. port_wf s' \<and>
     read_regs (get (dev s')) (4 * i) = [0, 0, 0, 0] \<and> read_regs (get (dev s')) (4 * j) = other \<and>
     read_regs (get (dev s')) 0x20 = (if other = [0, 0, 0, 0] then [0, 0, 0, 0] else m)"
  note rf = register_fileD [OF assms(2)]
  have in0: "in_filters (unat (RXMSIDH 0)) FILTER_BYTES" "in_filters (unat (RXFSIDH 0)) FILTER_BYTES"
      "in_filters (unat (RXFSIDH 1)) FILTER_BYTES"
    by simp_all
  have fd: "full_duplex bus"
    using assms(2) by (simp add: register_file_def)
  note regs = moved_dev rf(2-4) [OF in0(1), simplified] rf(2-4) [OF in0(2), simplified]
      rf(2-4) [OF in0(3), simplified] read_write_regs
  have four: "replicate 4 (0 :: u8) = [0, 0, 0, 0]"
    by (simp add: numeral_nat)
  have zero: "fold (OR) other 0 = 0 \<longleftrightarrow> other = [0, 0, 0, 0]"
    unfolding or_zero_iff by (auto simp: assms(6) read_regs_def upt_rec)
  have mask: "ok (mcp2515_write_nregs bus (RXMSIDH 0) [0, 0, 0, 0] 4 s1) ?Q"
    if "port_wf s1" "read_regs (get (dev s1)) (4 * i) = [0, 0, 0, 0]" "read_regs (get (dev s1)) (4 * j) = other"
      "other = [0, 0, 0, 0]" for s1
  proof -
    have "4 * i + 4 \<le> 0x20" "4 * j + 4 \<le> 0x20"
      using assms(4,5) by arith+
    then show ?thesis
      by (intro write_nregs_wp [OF that(1)]) (use that in \<open>auto simp: regs\<close>)
  qed
  have i: "i = 0 \<and> j = 1 \<or> i = 1 \<and> j = 0"
    using assms(4,5) by arith
  have eq: "clear_rx_filter bus idx s = do {
     s \<leftarrow> mcp2515_write_nregs bus (RXFSIDH i) [0, 0, 0, 0] 4 s;
     (k, s) \<leftarrow> first_used_filter bus 2 [0, 1] s;
     if k = 2 then mcp2515_write_nregs bus (RXMSIDH 0) [0, 0, 0, 0] 4 s else Some s }"
    using i assms(3)
    by (auto simp: clear_rx_filter_def four Let_def upt_rec simp del: first_used_filter.simps
        simp flip: numeral_2_eq_2)
  have zeros: "fold (OR) [0, 0, 0, 0 :: u8] 0 = 0"
    by simp
  have scan: "ok (first_used_filter bus 2 [0, 1] s1) (\<lambda>(k, s2). port_wf s2 \<and> get (dev s2) = get (dev s1) \<and>
      (k = 2 \<longleftrightarrow> other = [0, 0, 0, 0]))"
    if "port_wf s1" "read_regs (get (dev s1)) (4 * i) = [0, 0, 0, 0]" "read_regs (get (dev s1)) (4 * j) = other" for s1
    unfolding first_used_filter.simps ok_bind
    apply (rule is_filter_empty_wp [OF that(1) fd])
    apply (simp add: regs)
    apply (intro conjI impI)
      apply (erule movedD)
    using i that(2,3) zero zeros
     apply auto [1]
    apply (rule is_filter_empty_wp [OF movedD fd], assumption)
    using i that(2,3) zero zeros
    apply (auto simp: regs)
    done
  have "ok (clear_rx_filter bus idx s) ?Q"
    unfolding eq ok_bind
  proof (rule write_nregs_wp [OF assms(1)])
    fix s1
    assume s1: "moved s (sends bus (CMD_WRITE # RXFSIDH i # take 4 [0, 0, 0, 0]) 0 (dev s)) s1"
    have g: "port_wf s1" "read_regs (get (dev s1)) (4 * i) = [0, 0, 0, 0]"
        "read_regs (get (dev s1)) (4 * j) = other" "read_regs (get (dev s1)) 0x20 = m"
      using i movedD [OF s1] by (auto simp: moved_dev [OF s1] regs assms(6,7))
    from scan [OF g(1-3)]
    obtain k s2 where "first_used_filter bus 2 [0, 1] s1 = Some (k, s2)" "port_wf s2"
        "get (dev s2) = get (dev s1)" "k = 2 \<longleftrightarrow> other = [0, 0, 0, 0]"
      by (auto simp: ok_def)
    with g mask [of s2] show "ok (first_used_filter bus 2 [0, 1] s1) (\<lambda>x. ok (case x of (k, s) \<Rightarrow>
        if k = 2 then mcp2515_write_nregs bus (RXMSIDH 0) [0, 0, 0, 0] 4 s else Some s) ?Q)"
      by auto
  qed simp_all
  then show ?thesis
    by (simp add: ok_def)
qed

text \<open>
  C37: filters 3 to 5 are at the addresses 0x10, 0x14 and 0x18 on the controller; the driver's macro
  gives 0x0C, 0x10 and 0x14. Writing filter 3 is one write from address 0x0C on, whose last byte goes
  to CANCTRL, the register that holds the requested mode: the low byte of an extended identifier, or
  zero.
\<close>

theorem filter3_writes_canctrl:
  assumes "port_wf s"
  shows "\<exists>s'. write_to_filter bus 3 cid 0 s = Some s' \<and>
     dev s' = sends bus (CMD_WRITE # (CANCTRL - 3) # filter_bytes cid) 0 (dev s) \<and>
     filter_bytes cid ! 3 = (if exide cid = 0 then 0 else ucast (id_num cid))"
proof -
  have "ok (write_to_filter bus 3 cid 0 s) (\<lambda>s'. dev s' = runs bus (filter_writes 3 cid 0) (dev s))"
    by (rule write_to_filter_wp [OF assms]) (simp add: moved_dev)
  moreover have "ucast ((ucast x AND 0x3FFFF) AND 0xFF :: u32) = (ucast x :: u8)" for x :: "29 word"
    by (rule bit_word_eqI) (auto simp: bits bit_layout)
  ultimately show ?thesis
    by (auto simp: ok_def filter_writes_def filter_bytes_def split_id_def id_bytes_def RXFSIDH_def)
qed

theorem clear_rx_filter_mask0_witness:
  "\<exists>s'. clear_rx_filter reg_bus 0 (reg_state used_regs) = Some s' \<and>
     read_regs (dev s') 0 = [0, 0, 0, 0] \<and> read_regs (dev s') 0x20 = [0, 0, 0, 0]"
proof -
  have r: "read_regs used_regs 4 = [0, 0, 0, 0]"
    by (simp add: read_regs_def used_regs_def upt_rec)
  from clear_rx_filter_mask0 [OF reg_state_simps(1) [of used_regs] reg_bus_register_file, of 0 0 1, OF _ _ _ refl refl]
  show ?thesis
    by (auto simp: r)
qed

theorem filter3_writes_canctrl_witness:
  "\<exists>s'. write_to_filter bench_bus 3 \<lparr>id_num = 0x12345678, exide = 1, rtr = 0, err = 0\<rparr> 0 (bench_can []) = Some s' \<and>
     sent_cmds (dev s') = [[CMD_WRITE, 0x0C, 0x91, 0xA8, 0x56, 0x78]]"
proof -
  have f: "filter_bytes \<lparr>id_num = 0x12345678, exide = 1, rtr = 0, err = 0\<rparr> = [0x91, 0xA8, 0x56, 0x78]"
    by code_simp
  from filter3_writes_canctrl [OF bench_can_wf [of "[]"], where bus = bench_bus and
      cid = "\<lparr>id_num = 0x12345678, exide = 1, rtr = 0, err = 0\<rparr>"]
  show ?thesis
    by (auto simp: f bench_can_def)
qed

section \<open>Length codes above 8\<close>

text \<open>
  C38: a data length code above 8 has no defined outcome in either direction. \<^verbatim>\<open>load_txb\<close> copies that
  many bytes out of the eight-byte payload into an array with room for eight, and \<^verbatim>\<open>recv_rxb\<close> takes the
  code of a received data frame unchecked and copies that many bytes into the caller's eight. (On the
  bus a code of 9 to 15 is legal and means eight bytes.)
\<close>

theorem long_frames_overflow:
  "(frame_ok f \<and> 8 < unat (dlc f) \<longrightarrow> load_txb bus i f s = None) \<and>
   (port_wf s \<and> full_duplex bus \<and> frame_ok old \<and>
      \<not> rxb_fits (answer bus [CMD_READ_RXB] MAX_BUF_LEN (dev s)) \<longrightarrow> recv_rxb bus n old s = None)"
proof (intro conjI impI; (elim conjE)?)
  assume "frame_ok f" "8 < unat (dlc f)"
  then show "load_txb bus i f s = None"
    by (simp add: load_txb_def split_beta memcpy_out frame_ok_def)
next
  assume s: "port_wf s" "full_duplex bus" "frame_ok old"
    "\<not> rxb_fits (answer bus [CMD_READ_RXB] MAX_BUF_LEN (dev s))"
  have "ok (mcp2515_read_rxb bus (replicate MAX_BUF_LEN 0) (of_nat MAX_BUF_LEN) (of_nat n) 0 s)
      (\<lambda>(buf, s'). decode_rxb buf old = None)"
    by (rule read_rxb_wp [OF s(1,2)]) (use s(3,4) decode_rxb_overflow in simp_all)
  then show "recv_rxb bus n old s = None"
    by (auto simp: ok_def recv_rxb_def)
qed

theorem long_frames_overflow_witness:
  "load_txb bench_bus 0 (bench_frame\<lparr>dlc := 15\<rparr>) (bench_can []) = None \<and>
   recv_rxb bench_bus 0 blank_frame (bench_can [[0, 0, 0, 0, 9]]) = None"
proof -
  have "frame_ok (bench_frame\<lparr>dlc := 15\<rparr>)" "8 < unat (dlc (bench_frame\<lparr>dlc := 15\<rparr>))" "frame_ok blank_frame"
    by (simp_all add: bench_frame_def blank_frame_def frame_ok_def)
  moreover have "\<not> rxb_fits (answer bench_bus [CMD_READ_RXB] MAX_BUF_LEN (dev (bench_can [[0, 0, 0, 0, 9]])))"
    by (simp add: rxb_fits_def answer_def bench_bus_def bench_can_def BIT_def)
  ultimately show ?thesis
    using long_frames_overflow [of "bench_frame\<lparr>dlc := 15\<rparr>" bench_bus 0 "bench_can []"]
      long_frames_overflow [of bench_frame bench_bus 0 "bench_can [[0, 0, 0, 0, 9]]" blank_frame 0]
      bench_full_duplex by simp
qed

section \<open>Waiting for the previous message\<close>

lemma wait_sent_stuck:
  assumes "wait_sent bus i s = Some y" "i < 3" "full_duplex bus" "port_wf s"
    "\<forall>d. answer bus [CMD_READ, 0] 1 d ! 0 \<noteq> 0"
  shows False
proof -
  have "i < 3 \<longrightarrow> full_duplex bus \<longrightarrow> port_wf s \<longrightarrow> (\<forall>d. answer bus [CMD_READ, 0] 1 d ! 0 \<noteq> 0) \<longrightarrow> False"
  proof (rule wait_sent.raw_induct [OF _ assms(1)], intro impI)
    fix rec bus i y and s :: "'a can_state"
    assume IH: "\<And>bus i s y. rec bus i s = Some y \<Longrightarrow> i < 3 \<longrightarrow> full_duplex bus \<longrightarrow> port_wf s \<longrightarrow>
        (\<forall>d. answer bus [CMD_READ, 0] 1 d ! 0 \<noteq> 0) \<longrightarrow> False"
      and body: "mcp2515_read_reg bus (TXBCTRL i AND TXBCTRL_TXREQ) s \<bind>
        (\<lambda>(r, s). if r \<noteq> 0 then rec bus i s else Some s) = Some y"
      and h: "i < 3" "full_duplex bus" "port_wf s" "\<forall>d. answer bus [CMD_READ, 0] 1 d ! 0 \<noteq> 0"
    have "ok (mcp2515_read_reg bus 0 s) (\<lambda>(r, s'). r \<noteq> 0 \<and> port_wf s')"
      by (rule read_reg_wp [OF h(3,2)]) (use h(4) in auto)
    then obtain r s' where "mcp2515_read_reg bus 0 s = Some (r, s')" "r \<noteq> 0" "port_wf s'"
      by (auto simp: ok_def)
    with body have "rec bus i s' = Some y"
      by (simp add: TXBCTRL_low_bits [OF h(1)])
    with IH h \<open>port_wf s'\<close> show False by blast
  qed
  with assms(2-5) show False by blast
qed

text \<open>
  C40: ``make sure the previous message is sent'' does not look at the transmit buffer. The mask is
  applied to the register number, so for every buffer the wait reads register 0, the first filter
  register: when that reads zero the wait ends at once, whatever the buffer's request bit says, and
  when it always reads something else it never ends. \<^verbatim>\<open>txbuf_ready\<close> returns register 0 as well.
\<close>

theorem wait_reads_register_0:
  assumes "i < 3" "port_wf s" "full_duplex bus"
  shows "txbuf_ready bus i s = mcp2515_read_reg bus 0 s \<and>
    (answer bus [CMD_READ, 0] 1 (dev s) ! 0 = 0 \<longrightarrow>
       (\<exists>s'. wait_sent bus i s = Some s' \<and> dev s' = sends bus [CMD_READ, 0] 1 (dev s))) \<and>
    ((\<forall>d. answer bus [CMD_READ, 0] 1 d ! 0 \<noteq> 0) \<longrightarrow> wait_sent bus i s = None)"
proof (intro conjI impI)
  show "txbuf_ready bus i s = mcp2515_read_reg bus 0 s"
    by (simp add: txbuf_ready_def TXBCTRL_low_bits [OF assms(1)])
next
  assume "answer bus [CMD_READ, 0] 1 (dev s) ! 0 = 0"
  then have "ok (wait_sent bus i s) (\<lambda>s'. dev s' = sends bus [CMD_READ, 0] 1 (dev s))"
    by (subst wait_sent.simps, simp only: ok_bind TXBCTRL_low_bits [OF assms(1)])
      (rule read_reg_wp [OF assms(2,3)], simp add: moved_dev)
  then show "\<exists>s'. wait_sent bus i s = Some s' \<and> dev s' = sends bus [CMD_READ, 0] 1 (dev s)"
    by (simp add: ok_def)
next
  assume h: "\<forall>d. answer bus [CMD_READ, 0] 1 d ! 0 \<noteq> 0"
  show "wait_sent bus i s = None"
    using wait_sent_stuck [OF _ assms(1,3,2) h] by (cases "wait_sent bus i s") auto
qed

text \<open>Buffer 2 has its request bit set (register 0x50 reads 8), and the wait is over after one read.\<close>

definition busy_regs :: "nat \<Rightarrow> u8" where
  "busy_regs a = (if a = 0x50 then 8 else 0)"

theorem wait_reads_register_0_witness:
  "\<exists>s'. wait_sent reg_bus 2 (reg_state busy_regs) = Some s' \<and> dev s' = busy_regs"
proof -
  have "full_duplex reg_bus"
    using reg_bus_register_file by (simp add: register_file_def)
  moreover have "answer reg_bus [CMD_READ, 0] 1 busy_regs ! 0 = 0"
    by (simp add: answer_def reg_bus_def busy_regs_def)
  ultimately show ?thesis
    using wait_reads_register_0 [OF _ reg_state_simps(1) [of busy_regs], of 2 reg_bus]
    by (simp add: sends_def reg_bus_def)
qed

end
