(* ===== verification/Can_Queue_Conc.thy ===== *)
theory Can_Queue_Conc
  imports Can_Queue
begin

text \<open>
  The queue operations as the threads of the driver interleave them. The fullness and emptiness
  tests of \<^verbatim>\<open>queue.c\<close> run outside the spinlock, so a push is several steps: test, lock, append,
  unlock; and a pop likewise. Any number of producers and consumers may run; the theorems fix one
  of each, as the driver does (the RPC thread pushes and the interrupt handler pops the transmit
  queue, and the other way round for the receive queue).
\<close>

section \<open>Threads and steps\<close>

datatype ppc = PIdle | PChecked can_frame | PLocked can_frame | PDone
datatype cpc = CIdle | CChecked | CLocked | CDone

text \<open>
  \<open>sent\<close> and \<open>got\<close> are history: the frames appended so far and the frames handed out so far.
\<close>

record ring_sys =
  rmem :: "can_frame list"
  rcb :: mq_cb
  ppcs :: "nat \<Rightarrow> ppc"
  cpcs :: "nat \<Rightarrow> cpc"
  sent :: "can_frame list"
  got :: "can_frame list"

inductive ring_step :: "nat set \<Rightarrow> nat set \<Rightarrow> ring_sys \<Rightarrow> ring_sys \<Rightarrow> bool"
  for P :: "nat set" and C :: "nat set" where
  push_refused: "i \<in> P \<Longrightarrow> ppcs s i = PIdle \<Longrightarrow> mq_is_full (rcb s) = Some True \<Longrightarrow> ring_step P C s s"
| push_check: "i \<in> P \<Longrightarrow> ppcs s i = PIdle \<Longrightarrow> mq_is_full (rcb s) = Some False \<Longrightarrow>
    ring_step P C s (s\<lparr>ppcs := (ppcs s)(i := PChecked f)\<rparr>)"
| push_lock: "i \<in> P \<Longrightarrow> ppcs s i = PChecked f \<Longrightarrow> cb_lock (rcb s) = Some cb' \<Longrightarrow>
    ring_step P C s (s\<lparr>rcb := cb', ppcs := (ppcs s)(i := PLocked f)\<rparr>)"
| push_append: "i \<in> P \<Longrightarrow> ppcs s i = PLocked f \<Longrightarrow>
    mq_append_msg (rmem s) (rcb s) f = Some (mem', cb') \<Longrightarrow>
    ring_step P C s (s\<lparr>rmem := mem', rcb := cb', ppcs := (ppcs s)(i := PDone), sent := sent s @ [f]\<rparr>)"
| push_unlock: "i \<in> P \<Longrightarrow> ppcs s i = PDone \<Longrightarrow>
    ring_step P C s (s\<lparr>rcb := cb_unlock (rcb s), ppcs := (ppcs s)(i := PIdle)\<rparr>)"
| pop_refused: "i \<in> C \<Longrightarrow> cpcs s i = CIdle \<Longrightarrow> mq_is_empty (rcb s) \<Longrightarrow> ring_step P C s s"
| pop_check: "i \<in> C \<Longrightarrow> cpcs s i = CIdle \<Longrightarrow> \<not> mq_is_empty (rcb s) \<Longrightarrow>
    ring_step P C s (s\<lparr>cpcs := (cpcs s)(i := CChecked)\<rparr>)"
| pop_lock: "i \<in> C \<Longrightarrow> cpcs s i = CChecked \<Longrightarrow> cb_lock (rcb s) = Some cb' \<Longrightarrow>
    ring_step P C s (s\<lparr>rcb := cb', cpcs := (cpcs s)(i := CLocked)\<rparr>)"
| pop_remove: "i \<in> C \<Longrightarrow> cpcs s i = CLocked \<Longrightarrow>
    mq_remove_msg (rmem s) (rcb s) = Some (f, cb') \<Longrightarrow>
    ring_step P C s (s\<lparr>rcb := cb', cpcs := (cpcs s)(i := CDone), got := got s @ [f]\<rparr>)"
| pop_unlock: "i \<in> C \<Longrightarrow> cpcs s i = CDone \<Longrightarrow>
    ring_step P C s (s\<lparr>rcb := cb_unlock (rcb s), cpcs := (cpcs s)(i := CIdle)\<rparr>)"

definition ring_init :: "nat \<Rightarrow> can_frame list \<Rightarrow> ring_sys" where
  "ring_init sz m =
     \<lparr>rmem = m, rcb = \<lparr>frames = 0, head = 0, tail = 0, qsize = sz, qlock = False\<rparr>,
      ppcs = \<lambda>_. PIdle, cpcs = \<lambda>_. CIdle, sent = [], got = []\<rparr>"

inductive ring_reach :: "nat set \<Rightarrow> nat set \<Rightarrow> ring_sys \<Rightarrow> ring_sys \<Rightarrow> bool"
  for P :: "nat set" and C :: "nat set" and s0 :: ring_sys where
  start: "ring_reach P C s0 s0"
| step: "ring_reach P C s0 s \<Longrightarrow> ring_step P C s t \<Longrightarrow> ring_reach P C s0 t"

section \<open>One producer, one consumer\<close>

definition p_holds :: "ppc \<Rightarrow> bool" where
  "p_holds pc \<longleftrightarrow> (case pc of PLocked _ \<Rightarrow> True | PDone \<Rightarrow> True | _ \<Rightarrow> False)"

definition c_holds :: "cpc \<Rightarrow> bool" where
  "c_holds pc \<longleftrightarrow> pc = CLocked \<or> pc = CDone"

definition p_room :: "ppc \<Rightarrow> bool" where
  "p_room pc \<longleftrightarrow> (case pc of PLocked _ \<Rightarrow> True | PChecked _ \<Rightarrow> True | _ \<Rightarrow> False)"

definition spsc_inv :: "nat \<Rightarrow> nat \<Rightarrow> ring_sys \<Rightarrow> bool" where
  "spsc_inv p c s \<longleftrightarrow>
     cb_wf (rmem s) (rcb s) \<and>
     sent s = got s @ mq_contents (rmem s) (rcb s) \<and>
     (qlock (rcb s) \<longleftrightarrow> p_holds (ppcs s p) \<or> c_holds (cpcs s c)) \<and>
     \<not> (p_holds (ppcs s p) \<and> c_holds (cpcs s c)) \<and>
     (p_room (ppcs s p) \<longrightarrow> mq_count (rcb s) \<noteq> qsize (rcb s) - 1) \<and>
     (cpcs s c = CChecked \<or> cpcs s c = CLocked \<longrightarrow> mq_count (rcb s) \<noteq> 0)"

lemma cb_wf_lock [simp]: "cb_wf m (cb\<lparr>qlock := b\<rparr>) = cb_wf m cb"
  by (simp add: cb_wf_def)

lemma mq_count_lock [simp]: "mq_count (cb\<lparr>qlock := b\<rparr>) = mq_count cb"
  by (simp add: mq_count_def)

lemma append_step:
  assumes "cb_wf m cb" "mq_count cb \<noteq> qsize cb - 1" "mq_append_msg m cb f = Some (m', cb')"
  shows "cb_wf m' cb' \<and> mq_contents m' cb' = mq_contents m cb @ [f] \<and>
     mq_count cb' = Suc (mq_count cb) \<and> qsize cb' = qsize cb \<and> qlock cb' = qlock cb"
proof -
  have "0 < qsize cb" "frames cb + tail cb < length m"
    using assms(1) by (simp_all add: cb_wf_def)
  with assms(3) have "m' = m[frames cb + tail cb := f]" "cb' = cb\<lparr>tail := Suc (tail cb) mod qsize cb\<rparr>"
    by (auto simp: mq_append_msg_def)
  with assms(1) show ?thesis
    by (simp add: mq_contents_append [OF assms(1,2)] mq_count_append [OF assms(1,2)])
      (simp add: cb_wf_def)
qed

lemma remove_step:
  assumes "cb_wf m cb" "mq_count cb \<noteq> 0" "mq_remove_msg m cb = Some (f, cb')"
  shows "cb_wf m cb' \<and> mq_contents m cb = f # mq_contents m cb' \<and>
     Suc (mq_count cb') = mq_count cb \<and> qsize cb' = qsize cb \<and> qlock cb' = qlock cb"
proof -
  obtain n where n: "mq_count cb = Suc n"
    using assms(2) by (cases "mq_count cb") auto
  have "0 < qsize cb" "frames cb + head cb < length m"
    using assms(1) by (simp_all add: cb_wf_def)
  with assms(3) have "f = m ! (frames cb + head cb)" "cb' = cb\<lparr>head := Suc (head cb) mod qsize cb\<rparr>"
    by (auto simp: mq_remove_msg_def)
  with assms(1) show ?thesis
    by (simp add: mq_contents_remove [OF assms(1) n] mq_count_remove [OF assms(1) n] n)
      (simp add: cb_wf_def)
qed

lemmas pc_simps = p_holds_def c_holds_def p_room_def

lemma spsc_step:
  assumes "ring_step {p} {c} s t" "spsc_inv p c s"
  shows "spsc_inv p c t"
  using assms
proof (induction rule: ring_step.induct)
  case (push_check i s f)
  then show ?case
    using mq_is_full_iff [of "rmem s" "rcb s"] by (auto simp: spsc_inv_def pc_simps)
next
  case (push_lock i s f cb')
  then show ?case
    by (auto simp: spsc_inv_def pc_simps cb_lock_def bind_splits lock_take_def split: if_splits)
next
  case (push_append i s f mem' cb')
  then have "cb_wf (rmem s) (rcb s)" "mq_count (rcb s) \<noteq> qsize (rcb s) - 1"
    by (auto simp: spsc_inv_def pc_simps)
  from append_step [OF this push_append(3)] push_append show ?case
    by (auto simp: spsc_inv_def pc_simps)
next
  case (pop_check i s)
  then show ?case
    using mq_is_empty_iff [of "rmem s" "rcb s"] by (auto simp: spsc_inv_def pc_simps)
next
  case (pop_lock i s cb')
  then show ?case
    by (auto simp: spsc_inv_def pc_simps cb_lock_def bind_splits lock_take_def split: if_splits)
next
  case (pop_remove i s f cb')
  then have wf: "cb_wf (rmem s) (rcb s)" "mq_count (rcb s) \<noteq> 0"
    by (auto simp: spsc_inv_def pc_simps)
  have "mq_count (rcb s) < qsize (rcb s)"
    using wf(1) by (rule mq_count_less)
  with remove_step [OF wf pop_remove(3)] pop_remove show ?case
    by (auto simp: spsc_inv_def pc_simps)
qed (auto simp: spsc_inv_def pc_simps cb_unlock_def)

lemma spsc_init: "0 < sz \<Longrightarrow> sz \<le> length m \<Longrightarrow> spsc_inv p c (ring_init sz m)"
  by (simp add: spsc_inv_def ring_init_def cb_wf_def mq_contents_def mq_count_def pc_simps)

lemma spsc_reach:
  assumes "ring_reach {p} {c} (ring_init sz m) s" "0 < sz" "sz \<le> length m"
  shows "spsc_inv p c s"
  using assms(1)
  by (induction rule: ring_reach.induct) (auto intro: spsc_init spsc_step assms(2,3))

text \<open>A thread that passed its test finds the room, or the frame, when it has the lock.\<close>

lemma spsc_locked_steps:
  assumes "ring_reach {p} {c} (ring_init sz m) s" and "0 < sz" and "sz \<le> length m"
  shows "ppcs s p = PLocked f \<Longrightarrow> mq_append_msg (rmem s) (rcb s) f \<noteq> None"
    and "cpcs s c = CLocked \<Longrightarrow> mq_remove_msg (rmem s) (rcb s) \<noteq> None"
    and "ppcs s p = PChecked f \<Longrightarrow> mq_is_full (rcb s) = Some False"
    and "cpcs s c = CChecked \<Longrightarrow> \<not> mq_is_empty (rcb s)"
proof -
  have inv: "spsc_inv p c s"
    using assms by (rule spsc_reach)
  then have wf: "cb_wf (rmem s) (rcb s)"
    by (simp add: spsc_inv_def)
  show "mq_append_msg (rmem s) (rcb s) f \<noteq> None" if "ppcs s p = PLocked f"
    using wf by (simp add: mq_append_msg_def cb_wf_def)
  show "mq_remove_msg (rmem s) (rcb s) \<noteq> None" if "cpcs s c = CLocked"
    using wf by (simp add: mq_remove_msg_def cb_wf_def)
  show "mq_is_full (rcb s) = Some False" if "ppcs s p = PChecked f"
    using inv that by (simp add: mq_is_full_iff [OF wf] spsc_inv_def p_room_def)
  show "\<not> mq_is_empty (rcb s)" if "cpcs s c = CChecked"
    using inv that by (simp add: mq_is_empty_iff [OF wf] spsc_inv_def)
qed

text \<open>
  C20: with one producer and one consumer, whatever the interleaving of their steps, the ring holds
  exactly the frames accepted and not yet handed out, in order, and never more than
  \<^verbatim>\<open>size - 1\<close> of them.
\<close>

theorem spsc_queue_linearizable:
  assumes "ring_reach {p} {c} (ring_init sz m) s" and "0 < sz" and "sz \<le> length m"
  shows "sent s = got s @ mq_contents (rmem s) (rcb s) \<and>
     length (mq_contents (rmem s) (rcb s)) \<le> qsize (rcb s) - 1"
proof -
  have "spsc_inv p c s"
    using assms by (rule spsc_reach)
  then show ?thesis
    using mq_count_less [of "rmem s" "rcb s"] by (simp add: spsc_inv_def)
qed

section \<open>Concrete runs\<close>

text \<open>A whole push by producer \<open>i\<close> that has already passed its test.\<close>

lemma cb_update_order: "cb\<lparr>tail := t, qlock := b\<rparr> = cb\<lparr>qlock := b, tail := t\<rparr>"
  by (cases cb) simp

lemma reach_push_rest:
  assumes "ring_reach P C s0 s" "i \<in> P" "ppcs s i = PChecked f" "\<not> qlock (rcb s)"
    "frames (rcb s) + tail (rcb s) < length (rmem s)" "0 < qsize (rcb s)"
  shows "ring_reach P C s0
    (s\<lparr>rmem := (rmem s)[frames (rcb s) + tail (rcb s) := f],
       rcb := (rcb s)\<lparr>qlock := False, tail := Suc (tail (rcb s)) mod qsize (rcb s)\<rparr>,
       ppcs := (ppcs s)(i := PIdle), sent := sent s @ [f]\<rparr>)"
proof -
  have "ring_reach P C s0 (s\<lparr>rcb := (rcb s)\<lparr>qlock := True\<rparr>, ppcs := (ppcs s)(i := PLocked f)\<rparr>)"
    using assms by (intro ring_reach.step [OF assms(1)] ring_step.push_lock) (auto simp: cb_lock_def)
  from ring_reach.step [OF this ring_step.push_append [OF assms(2)]] assms
  have "ring_reach P C s0
    (s\<lparr>rmem := (rmem s)[frames (rcb s) + tail (rcb s) := f],
       rcb := (rcb s)\<lparr>qlock := True, tail := Suc (tail (rcb s)) mod qsize (rcb s)\<rparr>,
       ppcs := (ppcs s)(i := PDone), sent := sent s @ [f]\<rparr>)"
    by (simp add: mq_append_msg_def)
  from ring_reach.step [OF this ring_step.push_unlock [OF assms(2)]] show ?thesis
    by (cases s) (simp add: cb_unlock_def cb_update_order)
qed

lemma reach_push_check:
  "ring_reach P C s0 s \<Longrightarrow> i \<in> P \<Longrightarrow> ppcs s i = PIdle \<Longrightarrow> mq_is_full (rcb s) = Some False \<Longrightarrow>
   ring_reach P C s0 (s\<lparr>ppcs := (ppcs s)(i := PChecked f)\<rparr>)"
  by (rule ring_reach.step, assumption, rule ring_step.push_check)

text \<open>One push on a fresh ring, written out as a state.\<close>

definition ring_pushed :: "nat \<Rightarrow> can_frame \<Rightarrow> can_frame list \<Rightarrow> ring_sys" where
  "ring_pushed sz f m =
     \<lparr>rmem = m[0 := f],
      rcb = \<lparr>frames = 0, head = 0, tail = 1 mod sz, qsize = sz, qlock = False\<rparr>,
      ppcs = (\<lambda>_. PIdle), cpcs = (\<lambda>_. CIdle), sent = [f], got = []\<rparr>"

lemma ring_pushed_reachable:
  assumes "1 < sz" "sz \<le> length m" "i \<in> P"
  shows "ring_reach P C (ring_init sz m) (ring_pushed sz f m)"
proof -
  have "ring_reach P C (ring_init sz m) ((ring_init sz m)\<lparr>ppcs := (\<lambda>_. PIdle)(i := PChecked f)\<rparr>)"
    using assms reach_push_check [OF ring_reach.start, of i P "ring_init sz m" C f]
    by (simp add: ring_init_def mq_is_full_def mod_Suc)
  moreover have "m \<noteq> []"
    using assms by auto
  ultimately show ?thesis
    using reach_push_rest [of P C "ring_init sz m" _ i f] assms by (force simp add: ring_init_def ring_pushed_def fun_upd_def cong: if_cong)
qed

theorem spsc_queue_linearizable_witness:
  "\<forall>f g. sent (ring_pushed 3 f [g, g, g]) = [f] \<and>
   sent (ring_pushed 3 f [g, g, g]) =
     got (ring_pushed 3 f [g, g, g]) @
     mq_contents (rmem (ring_pushed 3 f [g, g, g])) (rcb (ring_pushed 3 f [g, g, g]))"
proof (intro allI)
  fix f g
  have "ring_reach {0} {1} (ring_init 3 [g, g, g]) (ring_pushed 3 f [g, g, g])"
    by (rule ring_pushed_reachable) auto
  from spsc_queue_linearizable [OF this]
  show "sent (ring_pushed 3 f [g, g, g]) = [f] \<and>
   sent (ring_pushed 3 f [g, g, g]) =
     got (ring_pushed 3 f [g, g, g]) @
     mq_contents (rmem (ring_pushed 3 f [g, g, g])) (rcb (ring_pushed 3 f [g, g, g]))"
    by (simp add: ring_pushed_def)
qed

text \<open>
  C35: the unlocked test makes a second producer unsafe: both can pass it while one slot is free, and
  the second append then moves the tail onto the head, so that both accepted frames are lost.
\<close>

theorem two_producers_lose_frames:
  "\<exists>s. ring_reach {0, 1} {} (ring_init 2 [g, g]) s \<and>
       sent s = [f, f'] \<and> got s = [] \<and> mq_contents (rmem s) (rcb s) = []"
proof -
  let ?s0 = "ring_init 2 [g, g]"
  let ?pc = "(\<lambda>_. PIdle)(0 := PChecked f, 1 := PChecked f') :: nat \<Rightarrow> ppc"
  have "ring_reach {0, 1} {} ?s0 (?s0\<lparr>ppcs := (\<lambda>_. PIdle)(0 := PChecked f)\<rparr>)"
    using reach_push_check [OF ring_reach.start, of 0 "{0, 1}" ?s0 "{}" f]
    by (simp add: ring_init_def mq_is_full_def)
  from reach_push_check [OF this, of 1 f']
  have both: "ring_reach {0, 1} {} ?s0 (?s0\<lparr>ppcs := ?pc\<rparr>)"
    by (simp add: ring_init_def mq_is_full_def)
  from reach_push_rest [OF both, of 0 f]
  have "ring_reach {0, 1} {} ?s0
    (?s0\<lparr>rmem := [f, g], rcb := (rcb ?s0)\<lparr>tail := 1\<rparr>,
         ppcs := ?pc(0 := PIdle), sent := [f]\<rparr>)"
    by (simp add: ring_init_def)
  from reach_push_rest [OF this, of 1 f']
  have lost: "ring_reach {0, 1} {} ?s0
    (?s0\<lparr>rmem := [f, f'], rcb := (rcb ?s0)\<lparr>tail := 0\<rparr>,
         ppcs := ?pc(0 := PIdle, 1 := PIdle), sent := [f, f']\<rparr>)"
    by (simp add: ring_init_def)
  show ?thesis
    by (rule exI, rule conjI, rule lost) (simp add: ring_init_def mq_contents_def mq_count_def)
qed

end
