(* ===== verification/Can_Stream.thy ===== *)
theory Can_Stream
  imports Can_Dev_Laws "HOL-Library.Sublist"
begin

text \<open>
  The CAN driver from end to end, between the application's calls and the transactions on the bus:
  the frames given to \<^verbatim>\<open>can_send\<close> are loaded into the controller in order and none is lost, and the
  frames that \<^verbatim>\<open>can_recv\<close> hands out are frames the controller delivered, in order, lost only where
  the receive queue had no room. Everything a run does to the controller is a list of transactions
  (\<open>runs\<close>), so that both statements are about what was really sent and answered.
\<close>

section \<open>Transactions that move frames\<close>

definition is_load :: "u8 list \<Rightarrow> bool" where
  "is_load out \<longleftrightarrow> out \<noteq> [] \<and> hd out \<in> {0x40, 0x42, 0x44}"

definition plain :: "u8 list \<Rightarrow> bool" where
  "plain out \<longleftrightarrow> normal_cmd out \<and> \<not> is_load out \<and> out \<noteq> [CMD_READ_RXB]"

text \<open>The buffer contents loaded, and what the controller answered to the reads of a receive buffer.\<close>

definition loaded_bytes :: "(u8 list \<times> nat) list \<Rightarrow> u8 list list" where
  "loaded_bytes ts = map tl (filter is_load (map fst ts))"

fun rxb_answers :: "'d bus \<Rightarrow> (u8 list \<times> nat) list \<Rightarrow> 'd \<Rightarrow> u8 list list" where
  "rxb_answers bus [] d = []"
| "rxb_answers bus (t # ts) d =
     (if fst t = [CMD_READ_RXB] then [answer bus (fst t) (snd t) d] else []) @
     rxb_answers bus ts (sends bus (fst t) (snd t) d)"

text \<open>A frame that an answer carries; the bytes behind its payload are those of the buffer it overwrote.\<close>

definition carries :: "u8 list \<Rightarrow> can_frame \<Rightarrow> bool" where
  "carries a f \<longleftrightarrow> (\<exists>old. frame_ok old \<and> decode_rxb a old = Some f)"

lemma loaded_bytes_append [simp]: "loaded_bytes (ts @ ts') = loaded_bytes ts @ loaded_bytes ts'"
  by (simp add: loaded_bytes_def)

lemma rxb_answers_append [simp]:
  "rxb_answers bus (ts @ ts') d = rxb_answers bus ts d @ rxb_answers bus ts' (runs bus ts d)"
  by (induction ts arbitrary: d) simp_all

lemma loaded_bytes_simps [simp]:
  "loaded_bytes [] = []"
  "loaded_bytes (t # ts) = (if is_load (fst t) then [tl (fst t)] else []) @ loaded_bytes ts"
  by (simp_all add: loaded_bytes_def)

lemma plainD: "plain out \<Longrightarrow> \<not> is_load out" "plain out \<Longrightarrow> out \<noteq> [CMD_READ_RXB]"
  by (simp_all add: plain_def)

lemma plain_moves_nothing:
  "\<forall>t \<in> set ts. plain (fst t) \<Longrightarrow> loaded_bytes ts = []"
  "\<forall>t \<in> set ts. plain (fst t) \<Longrightarrow> rxb_answers bus ts d = []"
  by (induction ts arbitrary: d) (auto dest: plainD)

lemma txb_bytes_nonempty: "txb_bytes f \<noteq> []"
  by (metis append_is_Nil_conv length_txb_header list.size(3) numeral_neq_zero txb_bytes_def)

lemma load_cmds_moves:
  assumes "i < 3"
  shows "loaded_bytes (load_cmds (i, f)) = [txb_bytes f]"
proof -
  have "CMD_LOAD_TXB OR of_nat i * 2 \<in> {0x40, 0x42, 0x44}"
    using assms by (auto simp: less_Suc_eq numeral_3_eq_3)
  then show ?thesis
    unfolding loaded_bytes_def load_cmds_def is_load_def by simp
qed

lemma loaded_bytes_loads:
  "\<forall>i \<in> set sel. i < 3 \<Longrightarrow>
   loaded_bytes (concat (map load_cmds (zip sel fs))) = map txb_bytes (take (length sel) fs)"
proof (induction sel arbitrary: fs)
  case Nil
  show ?case by (simp add: loaded_bytes_def)
next
  case (Cons i sel)
  then show ?case
    by (cases fs) (simp_all add: load_cmds_moves)
qed

lemma rxb_answers_loads: "rxb_answers bus (concat (map load_cmds xs)) d = []"
proof (induction xs arbitrary: d)
  case Nil
  show ?case by simp
next
  case (Cons x xs)
  then show ?case by (cases x) (simp add: load_cmds_def txb_bytes_nonempty)
qed

lemma received_carries:
  assumes "received bus n old d = Some fs" "frame_ok old"
  shows "list_all2 carries (rxb_answers bus (replicate n ([CMD_READ_RXB], MAX_BUF_LEN)) d) fs"
  using assms
proof (induction n arbitrary: old d fs)
  case 0
  then show ?case by simp
next
  case (Suc n)
  then obtain f gs where f: "decode_rxb (answer bus [CMD_READ_RXB] MAX_BUF_LEN d) old = Some f"
      "received bus n f (sends bus [CMD_READ_RXB] MAX_BUF_LEN d) = Some gs" "fs = f # gs"
    by (auto simp: bind_splits)
  have "frame_ok f"
    using f(1) Suc.prems(2) by (auto simp: decode_rxb_def frame_ok_def Let_def bind_splits dest: memcpy_length)
  with Suc.IH [OF f(2)] f Suc.prems(2) show ?case
    by (auto simp: carries_def)
qed

section \<open>Parts of the driver that move no frame\<close>

definition quiet :: "'d bus \<Rightarrow> 'd set \<Rightarrow> 'd can_state \<Rightarrow> 'd can_state \<Rightarrow> bool" where
  "quiet bus N s0 s \<longleftrightarrow> calm N s0 s \<and>
     (\<exists>ts. dev s = runs bus ts (dev s0) \<and> (\<forall>t \<in> set ts. plain (fst t)))"

lemma quiet_refl: "port_wf s \<Longrightarrow> dev s \<in> N \<Longrightarrow> quiet bus N s s"
  by (auto simp: quiet_def calm_refl intro!: exI [of _ "[]"])

lemma quiet_calm: "quiet bus N s0 s \<Longrightarrow> calm N s0 s"
  by (simp add: quiet_def)

lemma quiet_step:
  assumes "normal_mode bus N" "quiet bus N s0 s" "moved s (sends bus out r (dev s)) s'" "plain out"
  shows "quiet bus N s0 s'"
proof -
  have c: "calm N s0 s" using assms(2) by (rule quiet_calm)
  obtain ts where ts: "dev s = runs bus ts (dev s0)" "\<forall>t \<in> set ts. plain (fst t)"
    using assms(2) by (auto simp: quiet_def)
  have "calm N s0 s'"
    using assms(3,4) normal_modeD(3) [OF assms(1) calm_wf(2) [OF c]]
    by (intro calm_trans [OF c] calmI) (auto simp: plain_def)
  moreover have "dev s' = runs bus (ts @ [(out, r)]) (dev s0)"
    using ts(1) by (simp add: moved_dev [OF assms(3)])
  ultimately show ?thesis
    unfolding quiet_def using ts(2) assms(4)
    by (intro conjI exI [of _ "ts @ [(out, r)]"]) auto
qed

lemma plain_modify: "r \<noteq> CANCTRL \<Longrightarrow> plain [CMD_BIT_MODIFY, r, m, v]"
  and plain_read: "plain [CMD_READ, r]"
  by (auto simp: plain_def normal_cmd_def is_load_def)

lemma rts_plain:
  assumes "set is \<subseteq> {0, 1, 2}"
  shows "plain [CMD_RTS OR fold (\<lambda>i r. r OR BIT i) is 0]"
proof -
  let ?c = "CMD_RTS OR fold (\<lambda>i r. r OR BIT i) is 0 :: u8"
  have "\<not> bit ?c 6" "\<not> bit ?c 4"
    using assms by (auto simp: bit_or_iff bit_rts_mask)
  then have "?c \<noteq> 0x40" "?c \<noteq> 0x42" "?c \<noteq> 0x44" "?c \<noteq> CMD_READ_RXB"
    by auto
  with rts_normal [OF assms] show ?thesis
    by (simp add: plain_def is_load_def)
qed

lemma quiet_modify:
  assumes "normal_mode bus N" "quiet bus N s0 s" "r \<noteq> CANCTRL" "\<And>s'. quiet bus N s0 s' \<Longrightarrow> P s'"
  shows "ok (mcp2515_bit_modify bus r m v s) P"
  by (rule bit_modify_wp [OF calm_wf(1) [OF quiet_calm [OF assms(2)]]])
    (rule assms(4) [OF quiet_step [OF assms(1,2) _ plain_modify [OF assms(3)]]])

lemma quiet_read:
  assumes "normal_mode bus N" "quiet bus N s0 s"
    "\<And>s'. quiet bus N s0 s' \<Longrightarrow> P (answer bus [CMD_READ, r] 1 (dev s) ! 0, s')"
  shows "ok (mcp2515_read_reg bus r s) P"
  by (rule read_reg_wp [OF calm_wf(1) [OF quiet_calm [OF assms(2)]] normal_modeD(1) [OF assms(1)]])
    (rule assms(3) [OF quiet_step [OF assms(1,2) _ plain_read]])

lemma report_error_quiet:
  assumes "normal_mode bus N" "quiet bus N s0 s" "\<And>s'. quiet bus N s0 s' \<Longrightarrow> P s'"
  shows "ok (report_error bus s) P"
proof -
  note m = quiet_modify [OF assms(1)] and r = quiet_read [OF assms(1)]
  show ?thesis
    unfolding report_error_def ok_bind
    by (rule r [OF assms(2)]) (auto intro!: m assms(3) simp: ok_if split: if_splits)
qed

lemma report_message_error_quiet:
  assumes "normal_mode bus N" "quiet bus N s0 s" "\<And>s'. quiet bus N s0 s' \<Longrightarrow> P s'"
  shows "ok (report_message_error bus s) P"
proof -
  have "drop_bit 5 (answer bus [CMD_READ, CANSTAT] 1 (dev s) ! 0) = 0"
    using normal_modeD(4) [OF assms(1) calm_wf(2) [OF quiet_calm [OF assms(2)]]] by simp
  then show ?thesis
    unfolding report_message_error_def get_mode_def ok_bind
    by (intro quiet_read [OF assms(1,2)]) (simp, erule quiet_modify [OF assms(1)], simp_all add: assms(3))
qed

lemma quiet_stopped:
  "quiet bus N s0 s \<Longrightarrow> quiet bus N (s0\<lparr>xmit_stopped := x\<rparr>) (s\<lparr>xmit_stopped := x\<rparr>)"
  by (simp add: quiet_def calm_stopped)

lemma trigger_loop_quiet:
  assumes "normal_mode bus N" "quiet bus N s0 s"
    "\<And>s' x. quiet bus N (s0\<lparr>xmit_stopped := x\<rparr>) s' \<Longrightarrow> P s'"
  shows "ok (trigger_loop bus is s) P"
  using assms(2,3)
proof (induction "is" arbitrary: s s0)
  case Nil
  have "s0\<lparr>xmit_stopped := xmit_stopped s0\<rparr> = s0" by simp
  then show ?case
    using Nil.prems(1) Nil.prems(2) [of "xmit_stopped s0" s] by simp
next
  case (Cons i "is")
  have raised: "ok (trigger_loop bus is (s1\<lparr>xmit_stopped := 0\<rparr>)) P" if "quiet bus N s0 s1" for s1
    by (rule Cons.IH [OF quiet_stopped [OF that]]) (auto intro: Cons.prems(2))
  show ?case
    unfolding trigger_loop.simps ok_bind
    by (rule quiet_read [OF assms(1) Cons.prems(1)])
      (auto intro!: Cons.IH Cons.prems(2) raised quiet_modify [OF assms(1)])
qed

section \<open>The stream invariant\<close>

text \<open>
  From the start \<open>s0\<close> to \<open>s\<close>, with \<open>sent\<close> the frames accepted by \<^verbatim>\<open>can_send\<close> and \<open>handed\<close> those that
  \<^verbatim>\<open>can_recv\<close> has filled in; \<open>full\<close> says that some interrupt found room for less than two frames in
  the receive queue.
\<close>

definition stream ::
  "'d bus \<Rightarrow> 'd \<Rightarrow> 'd can_state \<Rightarrow> can_frame list \<Rightarrow> can_frame list \<Rightarrow> bool \<Rightarrow> bool" where
  "stream bus d0 s sent handed full \<longleftrightarrow> (\<exists>ts q loaded arrived.
     dev s = runs bus ts d0 \<and> queues s = Some q \<and>
     loaded_bytes ts = map txb_bytes loaded \<and> sent = loaded @ tx_contents q \<and>
     list_all2 carries (rxb_answers bus ts d0) arrived \<and>
     subseq (handed @ rx_contents q) arrived \<and> (\<not> full \<longrightarrow> handed @ rx_contents q = arrived))"

lemma stream_quiet:
  assumes "stream bus d0 s sent handed full" "quiet bus N s s'"
  shows "stream bus d0 s' sent handed full"
proof -
  obtain ts' where ts': "dev s' = runs bus ts' (dev s)" "\<forall>t \<in> set ts'. plain (fst t)" "queues s' = queues s"
    using assms(2) by (auto simp: quiet_def calm_def moved_can_iff)
  obtain ts q loaded arrived where st: "dev s = runs bus ts d0" "queues s = Some q"
     "loaded_bytes ts = map txb_bytes loaded" "sent = loaded @ tx_contents q"
     "list_all2 carries (rxb_answers bus ts d0) arrived"
     "subseq (handed @ rx_contents q) arrived" "\<not> full \<longrightarrow> handed @ rx_contents q = arrived"
    using assms(1) by (auto simp: stream_def)
  show ?thesis
    unfolding stream_def
    by (rule exI [of _ "ts @ ts'"], rule exI [of _ q], rule exI [of _ loaded], rule exI [of _ arrived])
      (use ts' st in \<open>simp add: plain_moves_nothing [OF ts'(2)]\<close>)
qed

text \<open>What the other side of the handler needs of the receive queue.\<close>

definition rx_room :: "'d can_state \<Rightarrow> nat \<Rightarrow> bool" where
  "rx_room s n \<longleftrightarrow> (case queues s of None \<Rightarrow> False | Some q \<Rightarrow> length (rx_contents q) + n \<le> rx_capacity q)"

lemma quiet_room: "quiet bus N s s' \<Longrightarrow> rx_room s' n = rx_room s n"
  by (auto simp: quiet_def calm_def moved_can_iff rx_room_def)

lemma transmit_message_stream:
  assumes "normal_mode bus N" "can_inv N s" "stream bus d0 s sent handed full"
  shows "ok (transmit_message bus tx s) (\<lambda>s'. can_inv N s' \<and> stream bus d0 s' sent handed full \<and>
    rx_room s' 2 = rx_room s 2)"
proof -
  have inv: "ok (transmit_message bus tx s) (can_inv N)"
    by (rule transmit_message_inv [OF assms(1,2)])
  obtain ts q loaded arrived where st: "dev s = runs bus ts d0" "queues s = Some q"
     "loaded_bytes ts = map txb_bytes loaded" "sent = loaded @ tx_contents q"
     "list_all2 carries (rxb_answers bus ts d0) arrived"
     "subseq (handed @ rx_contents q) arrived" "\<not> full \<longrightarrow> handed @ rx_contents q = arrived"
    using assms(3) by (auto simp: stream_def)
  have s: "port_wf s" "\<not> txb_lock s" "can_queued q" "length (txb_cache s) = 3" "dev s \<in> N"
    using assms(2) st(2) by (auto simp: can_inv_def can_queued_def frame_fits_def)
  let ?sel = "served tx [2, 1, 0]"
  have "ok (transmit_message bus tx s) (\<lambda>s'. stream bus d0 s' sent handed full \<and> rx_room s' 2 = rx_room s 2)"
  proof (rule transmit_message_wp [OF s(1,2) st(2) s(3,4) normal_modeD(2) [OF assms(1)] s(5)])
    fix s1 s2 s' q'
    let ?flags = "([CMD_BIT_MODIFY, CANINTF, push_bit TXIF_SHF tx, 0], 0)"
    let ?loads = "concat (map load_cmds (zip ?sel (tx_contents q)))"
    let ?rts = "[CMD_RTS OR fold (\<lambda>i r. r OR BIT i) (take (length (tx_contents q)) ?sel) 0]"
    assume s1: "moved s (sends bus [CMD_BIT_MODIFY, CANINTF, push_bit TXIF_SHF tx, 0] 0 (dev s)) s1"
      and s2: "refilled bus ?sel q s1 q' s2"
      and s': "moved s2 (sends bus ?rts 0 (dev s2)) s'"
    have sel: "\<forall>i \<in> set ?sel. i < 3" by (auto simp: served_def)
    have rts: "plain ?rts"
      by (rule rts_plain) (auto simp: served_def dest: in_set_takeD)
    have dev: "dev s' = runs bus (ts @ [?flags] @ ?loads @ [(?rts, 0)]) d0"
      using s2 st(1) by (simp add: moved_dev [OF s'] moved_dev [OF s1] refilled_def)
    have q': "queues s' = Some q'" "tx_contents q' = drop (length ?sel) (tx_contents q)"
        "rx_contents q' = rx_contents q" "rx_capacity q' = rx_capacity q"
      using s2 by (simp_all add: frame_simps [OF s'] refilled_def)
    have "loaded_bytes (ts @ [?flags] @ ?loads @ [(?rts, 0)]) =
        map txb_bytes (loaded @ take (length ?sel) (tx_contents q))"
      using st(3) plainD(1) [OF rts] plainD(1) [OF plain_modify [of CANINTF]]
      by (simp add: loaded_bytes_loads [OF sel] del: One_nat_def)
    moreover have "rxb_answers bus (ts @ [?flags] @ ?loads @ [(?rts, 0)]) d0 = rxb_answers bus ts d0"
      using plainD(2) [OF rts] by (simp add: rxb_answers_loads)
    ultimately show "stream bus d0 s' sent handed full \<and> rx_room s' 2 = rx_room s 2"
      unfolding stream_def using dev q' st
      by (intro conjI exI [of _ "ts @ [?flags] @ ?loads @ [(?rts, 0)]"] exI [of _ q']
          exI [of _ "loaded @ take (length ?sel) (tx_contents q)"] exI [of _ arrived])
        (simp_all add: rx_room_def)
  qed
  with inv show ?thesis
    by (auto intro: ok_conj elim: ok_mono)
qed

lemma subseq_take_append:
  assumes "subseq (xs @ ys) zs" "length ys \<le> n"
  shows "subseq (xs @ take n (ys @ fs)) (zs @ fs)"
proof -
  have "take n (ys @ fs) = ys @ take (n - length ys) fs" using assms(2) by simp
  moreover have "subseq (take (n - length ys) fs) fs"
    by (simp add: prefix_imp_subseq take_is_prefix)
  ultimately show ?thesis
    using list_emb_append_mono [OF assms(1)] by fastforce
qed

lemma receive_message_stream:
  assumes "normal_mode bus N" "can_inv N s" "frame_ok frame" "stream bus d0 s sent handed full"
  shows "ok (receive_message bus frame rx s) (\<lambda>s'. can_inv N s' \<and>
    stream bus d0 s' sent handed (full \<or> \<not> rx_room s 2))"
proof -
  have inv: "ok (receive_message bus frame rx s) (can_inv N)"
    by (rule receive_message_inv [OF assms(1-3)])
  obtain ts q loaded arrived where st: "dev s = runs bus ts d0" "queues s = Some q"
     "loaded_bytes ts = map txb_bytes loaded" "sent = loaded @ tx_contents q"
     "list_all2 carries (rxb_answers bus ts d0) arrived"
     "subseq (handed @ rx_contents q) arrived" "\<not> full \<longrightarrow> handed @ rx_contents q = arrived"
    using assms(4) by (auto simp: stream_def)
  have s: "port_wf s" "mq_wf q" "dev s \<in> N"
    using assms(2) st(2) by (auto simp: can_inv_def)
  define n where "n = length (filter (\<lambda>i. rx AND BIT i \<noteq> 0) [0, 1])"
  have n: "n \<le> 2" using length_filter_le [of _ "[0, 1]"] by (simp add: n_def)
  obtain fs where fs: "received bus n frame (dev s) = Some fs" "length fs = n"
    using received_fits [OF assms(1) s(3) assms(3)] by blast
  have "ok (receive_message bus frame rx s) (\<lambda>s'. stream bus d0 s' sent handed (full \<or> \<not> rx_room s 2))"
  proof (rule receive_message_wp [OF s(1) normal_modeD(1) [OF assms(1)] st(2) s(2) n_def fs(1)])
    fix s' q'
    let ?reads = "replicate n ([CMD_READ_RXB], MAX_BUF_LEN)"
    assume q': "tx_contents q' = tx_contents q" "rx_contents q' = take (rx_capacity q) (rx_contents q @ fs)"
      and s': "moved (s\<lparr>queues := Some q', queue_sem := queue_sem s + n\<rparr>) (runs bus ?reads (dev s)) s'"
    have "loaded_bytes ?reads = []"
      by (induction n) (simp_all add: is_load_def)
    moreover have "list_all2 carries (rxb_answers bus (ts @ ?reads) d0) (arrived @ fs)"
      using st(5) received_carries [OF fs(1) assms(3)] by (simp add: st(1) list_all2_appendI)
    moreover have "subseq (handed @ rx_contents q') (arrived @ fs)"
      unfolding q'(2) by (rule subseq_take_append [OF st(6) rx_contents_bounded [OF s(2)]])
    moreover have "handed @ rx_contents q' = arrived @ fs" if "\<not> (full \<or> \<not> rx_room s 2)"
      using that st(2,7) n fs(2) by (auto simp: q'(2) rx_room_def)
    ultimately show "stream bus d0 s' sent handed (full \<or> \<not> rx_room s 2)"
      unfolding stream_def using s' q'(1) st(1,3,4)
      by (intro exI [of _ "ts @ ?reads"] exI [of _ q'] exI [of _ loaded] exI [of _ "arrived @ fs"])
        (auto simp: moved_can_iff)
  qed
  with inv show ?thesis
    by (auto intro: ok_conj elim: ok_mono)
qed

lemma stream_emit [simp]: "stream bus d0 (emit e s) = stream bus d0 s"
  by (simp add: stream_def emit_def fun_eq_iff)

lemma stream_weaken: "stream bus d0 s sent handed full \<Longrightarrow> stream bus d0 s sent handed (full \<or> b)"
  unfolding stream_def by blast

lemma irq_handler_stream:
  assumes "normal_mode bus N" "can_inv N s" "frame_ok frame" "stream bus d0 s sent handed full"
  shows "ok (irq_handler bus frame s) (\<lambda>s'. stream bus d0 s' sent handed (full \<or> \<not> rx_room s 2))"
proof -
  have c: "quiet bus N s s"
    using assms(2) by (auto simp: can_inv_def intro: quiet_refl)
  let ?I = "\<lambda>s'. can_inv N s' \<and> stream bus d0 s' sent handed full \<and> rx_room s' 2 = rx_room s 2"
  have inv: "?I s'" if "quiet bus N s s'" for s'
    using can_inv_calm [OF assms(2) quiet_calm [OF that]] stream_quiet [OF assms(4) that] quiet_room [OF that]
    by simp
  have tx: "ok (if b then transmit_message bus tx s' else Some s') ?I" if "quiet bus N s s'" for s' tx b
    by (rule ok_optI, rule inv [OF that])
      (use transmit_message_stream [OF assms(1), of s'] inv [OF that] in \<open>auto elim: ok_mono\<close>)
  have rx: "ok (if b then receive_message bus frame rx s' else Some s')
      (\<lambda>s'. stream bus d0 s' sent handed (full \<or> \<not> rx_room s 2))" if "?I s'" for s' rx b
  proof (rule ok_optI)
    show "stream bus d0 s' sent handed (full \<or> \<not> rx_room s 2)"
      using that by (intro stream_weaken) simp
    have "ok (receive_message bus frame rx s') (\<lambda>s''. can_inv N s'' \<and>
        stream bus d0 s'' sent handed (full \<or> \<not> rx_room s' 2))"
      by (rule receive_message_stream [OF assms(1) _ assms(3)]) (use that in simp_all)
    then show "ok (receive_message bus frame rx s') (\<lambda>s''. stream bus d0 s'' sent handed (full \<or> \<not> rx_room s 2))"
      by (rule ok_mono) (use that in simp)
  qed
  show ?thesis
    unfolding irq_handler_def
    apply (rule ok_bindI [where I = "\<lambda>(f, s'). quiet bus N s s'"])
     apply (rule quiet_read [OF assms(1) c], simp)
    apply (clarify)
    apply (rule ok_bindI [where I = "quiet bus N s"])
     apply (rule ok_optI, assumption, erule report_message_error_quiet [OF assms(1)], assumption)
    apply (rule ok_bindI [where I = "quiet bus N s"])
     apply (rule ok_optI, assumption, erule quiet_modify [OF assms(1)], simp, assumption)
    apply (rule ok_bindI [where I = "quiet bus N s"])
     apply (rule ok_optI, assumption, erule report_error_quiet [OF assms(1)], assumption)
    apply (rule ok_bindI [OF tx], assumption)
    apply (rule ok_bindI [OF rx], assumption)
    apply simp
    done
qed

section \<open>Runs of the driver\<close>

lemma stream_push:
  assumes "stream bus d0 s sent handed full" "queues s = Some q"
    "queues s1 = Some q'" "dev s1 = dev s" "tx_contents q' = tx_contents q @ fs" "rx_contents q' = rx_contents q"
  shows "stream bus d0 s1 (sent @ fs) handed full"
proof -
  obtain ts loaded arrived where "dev s = runs bus ts d0"
     "loaded_bytes ts = map txb_bytes loaded" "sent = loaded @ tx_contents q"
     "list_all2 carries (rxb_answers bus ts d0) arrived"
     "subseq (handed @ rx_contents q) arrived" "\<not> full \<longrightarrow> handed @ rx_contents q = arrived"
    using assms(1,2) by (auto simp: stream_def)
  then show ?thesis
    unfolding stream_def using assms(3-6)
    by (intro exI [of _ ts] exI [of _ q'] exI [of _ loaded] exI [of _ arrived]) simp
qed

lemma push_send_stream:
  assumes "normal_mode bus N" "can_inv N s" "stream bus d0 s sent handed full"
    "queue_push_tx f s = Some (r, s1)" "frame_fits f"
  shows "ok (start_xmit bus s1) (\<lambda>s'. stream bus d0 s' (if r < 0 then sent else sent @ [f]) handed full)"
proof -
  obtain q where q: "queues s = Some q" "mq_wf q"
    using assms(2) by (auto simp: can_inv_def)
  have s1: "can_inv N s1 \<and> stream bus d0 s1 (if r < 0 then sent else sent @ [f]) handed full"
  proof (cases "length (tx_contents q) < tx_capacity q")
    case True
    then show ?thesis
      using queue_push_tx_room [OF q, of f] stream_push [OF assms(3) q(1)] assms(2,4,5) q
      by (auto simp: can_inv_def)
  next
    case False
    then show ?thesis
      using queue_push_tx_full [OF q, of f] assms(2-4) by (simp add: not_less)
  qed
  show ?thesis
  proof (cases "xmit_stopped s1 = 0")
    case True
    then show ?thesis using s1 by (simp add: start_xmit_def)
  next
    case False
    have l: "\<not> txb_lock s1" "quiet bus N (s1\<lparr>txb_lock := True\<rparr>) (s1\<lparr>txb_lock := True\<rparr>)"
      using s1 by (auto simp: can_inv_def intro!: quiet_refl)
    let ?sent = "if r < 0 then sent else sent @ [f]"
    have "stream bus d0 (s\<lparr>txb_lock := False\<rparr>) ?sent handed full"
      if "quiet bus N (s1\<lparr>txb_lock := True, xmit_stopped := x\<rparr>) s" for s x
    proof -
      have "stream bus d0 (s1\<lparr>txb_lock := True, xmit_stopped := x\<rparr>) ?sent handed full"
        using s1 by (simp add: stream_def)
      from stream_quiet [OF this that] show ?thesis by (simp add: stream_def)
    qed
    then have "ok (trigger_loop bus [0..<TXB_NUM] (s1\<lparr>txb_lock := True\<rparr>))
        (\<lambda>s. stream bus d0 (s\<lparr>txb_lock := lock_release (txb_lock s)\<rparr>) ?sent handed full)"
      by (intro trigger_loop_quiet [OF assms(1) l(2)]) simp
    then show ?thesis
      using False l(1) by (simp add: start_xmit_def)
  qed
qed

text \<open>
  The runs of the driver while the controller is in normal mode, and while the application keeps to
  \<^verbatim>\<open>can_send\<close> and \<^verbatim>\<open>can_recv\<close> (\<^verbatim>\<open>can_sendto\<close> and \<^verbatim>\<open>can_recv_rxb\<close> reach past the queues): interrupts,
  turns of \<^verbatim>\<open>can_send\<close>, receptions and the calls that only ask or abort, in any order.
\<close>

inductive can_run ::
  "'d bus \<Rightarrow> 'd can_state \<Rightarrow> 'd can_state \<Rightarrow> can_frame list \<Rightarrow> can_frame list \<Rightarrow> bool \<Rightarrow> bool" for bus s0 where
  start: "can_run bus s0 s0 [] [] False"
| irq: "can_run bus s0 s sent handed full \<Longrightarrow> frame_ok old \<Longrightarrow> irq_handler bus old s = Some s' \<Longrightarrow>
    can_run bus s0 s' sent handed (full \<or> \<not> rx_room s 2)"
| send: "can_run bus s0 s sent handed full \<Longrightarrow> frame_fits f \<Longrightarrow> queue_push_tx f s = Some (r, s1) \<Longrightarrow>
    start_xmit bus s1 = Some s' \<Longrightarrow> can_run bus s0 s' (if r < 0 then sent else sent @ [f]) handed full"
| recv: "can_run bus s0 s sent handed full \<Longrightarrow> can_recv old s = Some (f, s') \<Longrightarrow>
    can_run bus s0 s' sent (if map_option rx_contents (queues s) = Some [] then handed else handed @ [f]) full"
| abort: "can_run bus s0 s sent handed full \<Longrightarrow> i < 3 \<Longrightarrow> can_abort bus i s = Some s' \<Longrightarrow>
    can_run bus s0 s' sent handed full"
| status: "can_run bus s0 s sent handed full \<Longrightarrow> can_status bus i s = Some (v, s') \<Longrightarrow>
    can_run bus s0 s' sent handed full"
| poll: "can_run bus s0 s sent handed full \<Longrightarrow> can_poll_rxbuf bus s = Some (n, s') \<Longrightarrow>
    can_run bus s0 s' sent handed full"

lemma can_run_reach: "can_run bus s0 s sent handed full \<Longrightarrow> can_reach bus s0 s"
proof (induction rule: can_run.induct)
  case start
  then show ?case by (rule can_reach.start)
qed (blast intro: can_reach.step can_step.intros)+

lemma can_run_stream:
  assumes "can_run bus s0 s sent handed full" "normal_mode bus N" "can_inv N s0"
    "queues s0 = Some q0" "tx_contents q0 = []" "rx_contents q0 = []"
  shows "stream bus (dev s0) s sent handed full"
  using assms(1)
proof (induction rule: can_run.induct)
  case start
  show ?case
    unfolding stream_def using assms(4-6)
    by (intro exI [of _ "[]"] exI [of _ q0]) simp
next
  case (irq s sent handed full old s')
  from okD [OF irq_handler_stream [OF assms(2) can_reach_inv [OF assms(2,3) can_run_reach [OF irq(1)]]
      irq(2) irq.IH] irq(3)] show ?case .
next
  case (send s sent handed full f r s1 s')
  from okD [OF push_send_stream [OF assms(2) can_reach_inv [OF assms(2,3) can_run_reach [OF send(1)]]
      send.IH send(3,2)] send(4)] show ?case .
next
  case (recv s sent handed full old f s')
  have "can_inv N s" by (rule can_reach_inv [OF assms(2,3) can_run_reach [OF recv(1)]])
  then obtain q where q: "queues s = Some q" "mq_wf q" by (auto simp: can_inv_def)
  obtain n where n: "queue_sem s = Suc n"
    using recv(2) by (cases "queue_sem s") (auto simp: can_recv_def queue_lock_wait_def)
  from can_recv_cases [OF q n, of old] recv(2) obtain q' where
    "f = (if rx_contents q = [] then old else hd (rx_contents q))"
    "s' = s\<lparr>queue_sem := n, queues := Some q'\<rparr>" "rx_contents q' = tl (rx_contents q)"
    "tx_contents q' = tx_contents q" by auto
  with recv.IH q show ?case
    by (cases "rx_contents q") (auto simp: stream_def)
next
  case (abort s sent handed full i s')
  have inv: "can_inv N s" by (rule can_reach_inv [OF assms(2,3) can_run_reach [OF abort(1)]])
  then have c: "quiet bus N s s" by (auto simp: can_inv_def intro: quiet_refl)
  have "ok (can_abort bus i s) (\<lambda>s'. stream bus (dev s0) s' sent handed full)"
    unfolding can_abort_def abort_tx_def
    by (rule quiet_modify [OF assms(2) c TXBCTRL_neq [OF abort(2)]]) (rule stream_quiet [OF abort.IH])
  from okD [OF this abort(3)] show ?case .
next
  case (status s sent handed full i v s')
  have inv: "can_inv N s" by (rule can_reach_inv [OF assms(2,3) can_run_reach [OF status(1)]])
  then have c: "quiet bus N s s" by (auto simp: can_inv_def intro: quiet_refl)
  have "ok (can_status bus i s) (\<lambda>(r, s'). stream bus (dev s0) s' sent handed full)"
    unfolding can_status_def txb_status_def ok_bind
    by (rule quiet_read [OF assms(2) c]) (simp add: stream_quiet [OF status.IH])
  from okD [OF this status(2)] show ?case by simp
next
  case (poll s sent handed full n s')
  have inv: "can_inv N s" by (rule can_reach_inv [OF assms(2,3) can_run_reach [OF poll(1)]])
  then have c: "quiet bus N s s" by (auto simp: can_inv_def intro: quiet_refl)
  have "ok (can_poll_rxbuf bus s) (\<lambda>(r, s'). stream bus (dev s0) s' sent handed full)"
    unfolding can_poll_rxbuf_def poll_rxbuf_def ok_bind
    by (rule quiet_read [OF assms(2) c]) (simp add: stream_quiet [OF poll.IH])
  from okD [OF this poll(2)] show ?case by simp
qed

text \<open>
  C5: In normal mode the driver is a pipe in both directions, for every interleaving of interrupts
  and calls that starts with empty queues: the buffer contents it has loaded into the controller are
  those of the first accepted frames in the order of acceptance, and the rest is still queued; the
  frames handed out and those still queued are, in order, frames that the controller's answers
  carried, and all of them as long as no interrupt found the receive queue short of two free places.
\<close>

theorem can_driver_pipes:
  assumes "can_run bus s0 s sent handed full" "normal_mode bus N" "can_inv N s0"
    "queues s0 = Some q0" "tx_contents q0 = []" "rx_contents q0 = []"
  shows "\<exists>ts q loaded arrived. dev s = runs bus ts (dev s0) \<and> queues s = Some q \<and>
     loaded_bytes ts = map txb_bytes loaded \<and> sent = loaded @ tx_contents q \<and>
     list_all2 carries (rxb_answers bus ts (dev s0)) arrived \<and>
     subseq (handed @ rx_contents q) arrived \<and> (\<not> full \<longrightarrow> handed @ rx_contents q = arrived)"
  using can_run_stream [OF assms] by (simp add: stream_def)

text \<open>A frame is accepted, transmission is triggered, and the interrupt of buffer 0 loads it.\<close>

theorem can_driver_pipes_witness:
  "\<exists>s' full. can_run (irq_bus 0x04) one_state s' [sample_frame 5] [] full \<and>
     (\<exists>ts q loaded. dev s' = runs (irq_bus 0x04) ts (dev one_state) \<and> queues s' = Some q \<and>
        loaded_bytes ts = map txb_bytes loaded \<and> [sample_frame 5] = loaded @ tx_contents q)"
proof -
  let ?bus = "irq_bus 0x04"
  have q: "queues one_state = Some one_mq" by (simp add: one_state_def)
  obtain q' where push: "queue_push_tx (sample_frame 5) one_state = Some (0, one_state\<lparr>queues := Some q'\<rparr>)"
      "mq_wf q'" "tx_contents q' = [sample_frame 5]" "rx_contents q' = []"
    using queue_push_tx_room [OF q one_mq_facts(1), of "sample_frame 5"] one_mq_facts by auto
  have inv: "can_inv UNIV (one_state\<lparr>queues := Some q'\<rparr>)"
    using one_state_inv push(2-4) by (auto simp: can_inv_def)
  have "ok (start_xmit ?bus (one_state\<lparr>queues := Some q'\<rparr>)) (can_inv UNIV)"
    by (rule start_xmit_inv [OF irq_bus_normal inv])
  then obtain s1 where s1: "start_xmit ?bus (one_state\<lparr>queues := Some q'\<rparr>) = Some s1" "can_inv UNIV s1"
    by (auto simp: ok_def)
  obtain s2 where s2: "irq_handler ?bus blank_frame s1 = Some s2"
    using irq_handler_inv [OF irq_bus_normal s1(2), of blank_frame]
    by (auto simp: ok_def blank_frame_def frame_ok_def)
  have "can_run ?bus one_state s2 [sample_frame 5] [] (\<not> rx_room s1 2)"
    using can_run.irq [OF can_run.send [OF can_run.start sample_frame_fits push(1) s1(1)] _ s2]
    by (simp add: blank_frame_def frame_ok_def)
  from this can_driver_pipes [OF this irq_bus_normal one_state_inv q one_mq_facts(2,3)]
  show ?thesis by blast
qed

end
