(* ===== verification/Can_App.thy ===== *)
theory Can_App
  imports Can_Dev_Laws
begin

text \<open>
  The CAN test application, \<^verbatim>\<open>apps/can-test/components/canbus/src/canbus.c\<close>: it sets the driver up and
  then waits for one frame after the other, with its frames \<open>tx\<close> and \<open>rx\<close> on the stack for all of
  them. Whether it replies depends on \<^verbatim>\<open>CAN_TEST_REPLY\<close>, the parameter \<open>reply\<close>; the source leaves it
  undefined, so that \<open>error\<close> is 0 throughout.
\<close>

section \<open>The acknowledgement callbacks\<close>

text \<open>A callback is used up by its call, and each of the three registers itself again first.\<close>

datatype canbus_event = Ack_Reg_Callback nat | Ack_Printed nat

definition txb_ack_callback :: "nat \<Rightarrow> canbus_event list \<Rightarrow> canbus_event list" where
  "txb_ack_callback n ev = ev @ [Ack_Reg_Callback n, Ack_Printed n]"

definition register_acks :: "canbus_event list" where
  "register_acks = [Ack_Reg_Callback 0, Ack_Reg_Callback 1, Ack_Reg_Callback 2]"

section \<open>The loop\<close>

record canbus_vars =
  cb_tx :: can_frame
  cb_tx1 :: can_frame
  cb_rx :: can_frame
  cb_error :: int
  sendcount :: nat

text \<open>What the stack holds before, \<open>v\<close>, shows through in the fields that are not assigned.\<close>

definition canbus_prepare :: "canbus_vars \<Rightarrow> canbus_vars" where
  "canbus_prepare v = v\<lparr>
     cb_tx := (cb_tx v)\<lparr>ident := (ident (cb_tx v))\<lparr>id_num := 0x123, exide := 0, rtr := 0\<rparr>, dlc := 8,
       payload := [0x01, 0x02, 0x03, 0xDE, 0xAD, 0xBE, 0xEF, 0x08]\<rparr>,
     cb_tx1 := (cb_tx1 v)\<lparr>ident := (ident (cb_tx1 v))\<lparr>id_num := 0x321, exide := 0, rtr := 0\<rparr>, dlc := 8,
       payload := [0xA1, 0xB2, 0xC3, 0xDE, 0xEA, 0xFE, 0x1F, 0x28]\<rparr>,
     sendcount := 0, cb_error := 0\<rparr>"

text \<open>One turn of the loop; \<open>env n\<close> is what the interrupts do while the application waits.\<close>

definition canbus_turn ::
  "bool \<Rightarrow> 'd bus \<Rightarrow> (nat \<Rightarrow> 'd can_state \<Rightarrow> 'd can_state option) \<Rightarrow> nat \<Rightarrow> canbus_vars \<Rightarrow> 'd can_state \<Rightarrow>
   (canbus_vars \<times> 'd can_state) option" where
  "canbus_turn reply bus env n v s = do {
     let v = v\<lparr>cb_tx := (cb_tx v)\<lparr>ident := (ident (cb_tx v))\<lparr>id_num := 0x300\<rparr>\<rparr>\<rparr>;
     s \<leftarrow> (if cb_error v \<noteq> 0 then can_abort bus 0 s else Some s);
     s \<leftarrow> env n s;
     (f, s) \<leftarrow> can_recv (cb_rx v) s;
     let v = v\<lparr>cb_rx := f\<rparr>;
     if reply \<and> sendcount v < 10 then do {
       (e, s) \<leftarrow> can_sendto bus 0 (cb_tx v) s;
       Some (v\<lparr>cb_error := e, sendcount := sendcount v + 1\<rparr>, s)
     } else Some (v, s)
   }"

partial_function (option) canbus_loop ::
  "bool \<Rightarrow> 'd bus \<Rightarrow> (nat \<Rightarrow> 'd can_state \<Rightarrow> 'd can_state option) \<Rightarrow> nat \<Rightarrow> canbus_vars \<Rightarrow> 'd can_state \<Rightarrow>
   int option" where
  "canbus_loop reply bus env n v s =
     Option.bind (canbus_turn reply bus env n v s) (\<lambda>(v, s). canbus_loop reply bus env (Suc n) v s)"

definition canbus_run ::
  "bool \<Rightarrow> (nat \<Rightarrow> nat \<Rightarrow> nat) \<Rightarrow> nat \<Rightarrow> 'd bus \<Rightarrow> (nat \<Rightarrow> 'd can_state \<Rightarrow> 'd can_state option) \<Rightarrow>
   canbus_vars \<Rightarrow> 'd can_state \<Rightarrow> int option" where
  "canbus_run reply div_round ns_in_s bus env v s = do {
     (_, s) \<leftarrow> can_setup div_round ns_in_s bus 125000 s;
     canbus_loop reply bus env 0 (canbus_prepare v) s
   }"

text \<open>The first \<open>k\<close> turns, with the frames they print.\<close>

fun canbus_turns ::
  "bool \<Rightarrow> 'd bus \<Rightarrow> (nat \<Rightarrow> 'd can_state \<Rightarrow> 'd can_state option) \<Rightarrow> nat \<Rightarrow> nat \<Rightarrow> canbus_vars \<Rightarrow>
   'd can_state \<Rightarrow> (can_frame list \<times> canbus_vars \<times> 'd can_state) option" where
  "canbus_turns reply bus env 0 n v s = Some ([], v, s)"
| "canbus_turns reply bus env (Suc k) n v s = do {
     (v, s) \<leftarrow> canbus_turn reply bus env n v s;
     (fs, w, s) \<leftarrow> canbus_turns reply bus env k (Suc n) v s;
     Some (cb_rx v # fs, w, s)
   }"

section \<open>What it does\<close>

text \<open>After its call a callback is registered again, one print for each registration but the last.\<close>

lemma acks_registered:
  "count_list (fold txb_ack_callback ns register_acks) (Ack_Printed i) = count_list ns i \<and>
   count_list (fold txb_ack_callback ns register_acks) (Ack_Reg_Callback i) =
     count_list ns i + (if i < 3 then 1 else 0)"
  by (induction ns rule: rev_induct) (auto simp: register_acks_def txb_ack_callback_def)

lemma canbus_never_returns: "canbus_loop reply bus env n v s = None"
proof (cases "canbus_loop reply bus env n v s")
  case (Some r)
  have "False"
    by (rule canbus_loop.raw_induct [of "\<lambda>_ _ _ _ _ _ _. False", OF _ Some]) (auto simp: bind_splits)
  then show ?thesis ..
qed simp

lemma canbus_run_never_returns: "canbus_run reply div_round ns_in_s bus env v s = None"
  by (simp add: canbus_run_def canbus_never_returns split: Option.bind_split)

text \<open>
  With the reply compiled in, every received frame is answered until ten replies have been tried;
  \<open>error\<close> is the result of the last of them from then on, so that a tenth reply refused has every later
  turn abort buffer 0 again.
\<close>

lemma canbus_replies:
  assumes "canbus_turns reply bus env k n v s = Some (fs, v', s')"
  shows "length fs = k \<and> sendcount v' = (if reply then max (sendcount v) (min 10 (sendcount v + k)) else sendcount v) \<and>
    (\<not> reply \<or> 10 \<le> sendcount v \<longrightarrow> cb_error v' = cb_error v)"
  using assms
proof (induction k arbitrary: n v s fs)
  case (Suc k)
  then obtain v1 s1 gs where t: "canbus_turn reply bus env n v s = Some (v1, s1)"
      "canbus_turns reply bus env k (Suc n) v1 s1 = Some (gs, v', s')" "length fs = Suc (length gs)"
    by (auto simp: bind_splits)
  have "sendcount v1 = (if reply \<and> sendcount v < 10 then sendcount v + 1 else sendcount v)"
    "\<not> reply \<or> 10 \<le> sendcount v \<Longrightarrow> cb_error v1 = cb_error v"
    using t(1) by (auto simp: canbus_turn_def bind_splits split: if_splits)
  with Suc.IH [OF t(2)] t(3) show ?case by (auto split: if_splits)
qed simp

text \<open>
  A frame dropped by the interrupt handler makes the application print the frame before it once more:
  when the semaphore counts more frames than are queued, the missing turns repeat the last frame.
\<close>

lemma canbus_prints:
  assumes "queues s = Some q" "mq_wf q" "k \<le> queue_sem s" "cb_error v = 0"
  shows "\<exists>v' s'. canbus_turns False bus (\<lambda>n. Some) k n v s = Some (take k (rx_contents q) @
       replicate (k - length (rx_contents q))
         (if rx_contents q = [] then cb_rx v else last (rx_contents q)), v', s')"
  using assms
proof (induction k arbitrary: n v s q)
  case 0
  then show ?case by simp
next
  case (Suc k)
  then obtain m where m: "queue_sem s = Suc m"
    by (cases "queue_sem s") auto
  let ?rx = "if rx_contents q = [] then cb_rx v else hd (rx_contents q)"
  from can_recv_cases [OF Suc.prems(1,2) m, of "cb_rx v"] obtain q1 where q1:
    "can_recv (cb_rx v) s = Some (?rx, s\<lparr>queue_sem := m, queues := Some q1\<rparr>)"
    "mq_wf q1" "rx_contents q1 = tl (rx_contents q)" by blast
  let ?s = "s\<lparr>queue_sem := m, queues := Some q1\<rparr>"
  obtain v1 where v1: "canbus_turn False bus (\<lambda>n. Some) n v s = Some (v1, ?s)" "cb_rx v1 = ?rx" "cb_error v1 = 0"
    using q1(1) Suc.prems(4) by (simp add: canbus_turn_def)
  obtain v' s' where "canbus_turns False bus (\<lambda>n. Some) k (Suc n) v1 ?s = Some (take k (rx_contents q1) @
       replicate (k - length (rx_contents q1))
         (if rx_contents q1 = [] then cb_rx v1 else last (rx_contents q1)), v', s')"
    using Suc.IH [of ?s q1 v1 "Suc n"] q1(2) Suc.prems(3) m v1(3) by auto
  with v1(1,2) q1(3) show ?case
    by (cases "rx_contents q") (auto split: if_splits)
qed

end
