(* ===== verification/Gpio.thy ===== *)
theory Gpio
  imports Prelude
begin

text \<open>
  The GPIO component, \<^verbatim>\<open>components/gpio/src/gpio.c\<close>: it drives the chip select of the CAN controller
  and passes the controller's interrupt line on to the CAN driver. The GPIO driver of libplatsupport
  and the CAmkES connections are the events of a trace; whether the CAN line is pending is what
  \<^verbatim>\<open>gpio_is_pending\<close> answers.
\<close>

datatype gpio_pin = I_spi_can_int | R_spi_can1_cs | R_spi_can2_cs | R_usb_vbus_en1

datatype gpio_event =
    Gpio_set gpio_pin
  | Gpio_clr gpio_pin
  | Gpio_pending_clear gpio_pin
  | Irq_grp5_acknowledge
  | CAN1Int_emit
  | CANIntAck_reg_callback
  | Tegra_mux_init
  | Gpio_init
  | Gpio_new gpio_pin

definition irq_grp5_int_handle :: "bool \<Rightarrow> gpio_event list \<Rightarrow> gpio_event list" where
  "irq_grp5_int_handle pending ev =
     (if pending then ev @ [CAN1Int_emit]
      else ev @ [Gpio_pending_clear I_spi_can_int, Irq_grp5_acknowledge])"

definition CANIntAck_handler :: "gpio_event list \<Rightarrow> gpio_event list" where
  "CANIntAck_handler ev =
     ev @ [CANIntAck_reg_callback, Gpio_pending_clear I_spi_can_int, Irq_grp5_acknowledge]"

definition gpio_spi_can1_cs_set :: "int \<Rightarrow> gpio_event list \<Rightarrow> gpio_event list" where
  "gpio_spi_can1_cs_set enable ev =
     (if enable \<noteq> 0 then ev @ [Gpio_set R_spi_can1_cs] else ev @ [Gpio_clr R_spi_can1_cs])"

definition gpio_usb_vbus_en1_set :: "int \<Rightarrow> gpio_event list \<Rightarrow> gpio_event list" where
  "gpio_usb_vbus_en1_set enable ev =
     (if enable \<noteq> 0 then ev @ [Gpio_set R_usb_vbus_en1] else ev @ [Gpio_clr R_usb_vbus_en1])"

definition gpio_pre_init :: "gpio_event list \<Rightarrow> gpio_event list" where
  "gpio_pre_init ev =
     ev @ [CANIntAck_reg_callback, Tegra_mux_init, Gpio_init, Gpio_new I_spi_can_int,
           Gpio_new R_spi_can1_cs, Gpio_new R_spi_can2_cs, Gpio_new R_usb_vbus_en1]"

section \<open>The interrupt protocol\<close>

text \<open>
  The kernel does not deliver the interrupt again before it is acknowledged, and calls the handler
  of \<^verbatim>\<open>CANIntAck\<close> only while one is registered. The CAN driver answers an event \<^verbatim>\<open>CAN1Int\<close> with
  one \<^verbatim>\<open>CANIntAck\<close> (the last act of its handler).
\<close>

record int_line =
  events :: "gpio_event list"
  delivered :: nat

definition acks :: "gpio_event list \<Rightarrow> nat" where
  "acks ev = count_list ev Irq_grp5_acknowledge"

definition emits :: "gpio_event list \<Rightarrow> nat" where
  "emits ev = count_list ev CAN1Int_emit"

text \<open>\<open>callbacks\<close>: registrations of the acknowledgement handler; a call uses one up.\<close>

definition registered :: "gpio_event list \<Rightarrow> nat" where
  "registered ev = count_list ev CANIntAck_reg_callback"

inductive line_step :: "int_line \<times> nat \<Rightarrow> int_line \<times> nat \<Rightarrow> bool" where
  deliver: "acks (events l) = delivered l \<Longrightarrow>
    line_step (l, n) (l\<lparr>events := irq_grp5_int_handle pending (events l), delivered := delivered l + 1\<rparr>, n)"
| can_answers: "n < emits (events l) \<Longrightarrow> n < registered (events l) \<Longrightarrow>
    line_step (l, n) (l\<lparr>events := CANIntAck_handler (events l)\<rparr>, n + 1)"
| chip_select: "line_step (l, n) (l\<lparr>events := gpio_spi_can1_cs_set v (events l)\<rparr>, n)"
| usb_power: "line_step (l, n) (l\<lparr>events := gpio_usb_vbus_en1_set v (events l)\<rparr>, n)"

definition line_init :: int_line where
  "line_init = \<lparr>events = gpio_pre_init [], delivered = 0\<rparr>"

definition line_inv :: "int_line \<times> nat \<Rightarrow> bool" where
  "line_inv ln \<longleftrightarrow> (case ln of (l, n) \<Rightarrow>
     n \<le> emits (events l) \<and> emits (events l) \<le> n + 1 \<and>
     registered (events l) = n + 1 \<and>
     acks (events l) + (emits (events l) - n) = delivered l)"

lemma line_init_inv: "line_inv (line_init, 0)"
  by (simp add: line_inv_def line_init_def gpio_pre_init_def emits_def registered_def acks_def)

lemma line_step_inv: "line_step x y \<Longrightarrow> line_inv x \<Longrightarrow> line_inv y"
  by (induction rule: line_step.induct)
    (auto simp: line_inv_def emits_def registered_def acks_def irq_grp5_int_handle_def
      CANIntAck_handler_def gpio_spi_can1_cs_set_def gpio_usb_vbus_en1_set_def)

lemma line_reach_inv: "line_step\<^sup>*\<^sup>* (line_init, 0) y \<Longrightarrow> line_inv y"
  by (induction rule: rtranclp_induct) (auto intro: line_init_inv line_step_inv)

text \<open>
  In every interleaving of interrupts, answers of the CAN driver and pin changes, at most one
  \<^verbatim>\<open>CAN1Int\<close> is unanswered, the acknowledgement handler is registered whenever the CAN driver may
  call it, and each interrupt is acknowledged exactly once: at once when the line is not pending,
  and otherwise when the CAN driver has answered.
\<close>

theorem interrupt_acknowledged_once:
  assumes "line_step\<^sup>*\<^sup>* (line_init, 0) (l, n)"
  shows "n \<le> emits (events l) \<and> emits (events l) \<le> n + 1 \<and> n < registered (events l) \<and>
    delivered l = acks (events l) + (emits (events l) - n) \<and>
    (emits (events l) = n \<longleftrightarrow> acks (events l) = delivered l)"
  using line_reach_inv [OF assms] by (auto simp: line_inv_def)

theorem interrupt_acknowledged_once_witness:
  "emits [CANIntAck_reg_callback, Tegra_mux_init, Gpio_init, Gpio_new I_spi_can_int,
     Gpio_new R_spi_can1_cs, Gpio_new R_spi_can2_cs, Gpio_new R_usb_vbus_en1, CAN1Int_emit] = 1 \<and>
   line_step\<^sup>*\<^sup>* (line_init, 0) (line_init\<lparr>events := events line_init @ [CAN1Int_emit], delivered := 1\<rparr>, 0) \<and>
   acks (events line_init @ [CAN1Int_emit]) \<noteq> 1"
proof -
  have "line_step (line_init, 0) (line_init\<lparr>events := irq_grp5_int_handle True (events line_init),
      delivered := delivered line_init + 1\<rparr>, 0)"
    by (rule deliver) (simp add: line_init_def gpio_pre_init_def acks_def)
  then have run: "line_step\<^sup>*\<^sup>* (line_init, 0)
      (line_init\<lparr>events := events line_init @ [CAN1Int_emit], delivered := 1\<rparr>, 0)"
    by (intro r_into_rtranclp) (simp add: irq_grp5_int_handle_def line_init_def)
  from interrupt_acknowledged_once [OF this] run show ?thesis
    by (simp add: emits_def line_init_def gpio_pre_init_def)
qed

end
