(* ===== verification/Can_System.thy ===== *)
theory Can_System
  imports Can_Dev_Laws Gpio
begin

text \<open>
  The CAN driver (\<^verbatim>\<open>components/can\<close>) and the GPIO server (\<^verbatim>\<open>components/gpio/src/gpio.c\<close>) together: the
  way of an interrupt from the pin of the controller through the GPIO server to the driver and back.
  \<^verbatim>\<open>gpio.c\<close> configures the pin for falling edges (\<^verbatim>\<open>GPIO_DIR_IRQ_FALL\<close>), while the controller holds
  it low for as long as any flag is set. What that means is proved here.
\<close>

section \<open>The hardware\<close>

text \<open>
  Of the hardware the model only knows whether the pin is low, whether the GPIO controller has
  latched an edge, how the latch is cleared, and what the controller can do by itself.
\<close>

record 'd can_hw =
  pin_low :: "'d \<Rightarrow> bool"
  edge_seen :: "'d \<Rightarrow> bool"
  edge_clear :: "'d \<Rightarrow> 'd"
  hw_step :: "'d \<Rightarrow> 'd \<Rightarrow> bool"

definition hw_normal :: "'d can_hw \<Rightarrow> 'd set \<Rightarrow> bool" where
  "hw_normal hw N \<longleftrightarrow> (\<forall>d \<in> N. edge_clear hw d \<in> N \<and> (\<forall>d'. hw_step hw d d' \<longrightarrow> d' \<in> N))"

text \<open>
  The commands that clear none of the interrupt flags and leave their enable bits alone: not a reset, a
  write, or one of the instructions that read a receive buffer and clear its flag; and of the bit
  modifies only those of a transmit buffer's control register and those that set flags.
\<close>

definition keeps_flags :: "u8 list \<Rightarrow> bool" where
  "keeps_flags out \<longleftrightarrow> out \<noteq> [] \<and> hd out \<notin> {CMD_RESET, CMD_WRITE, 0x90, 0x92, 0x94, 0x96} \<and>
     (hd out = CMD_BIT_MODIFY \<longrightarrow> (\<exists>i < 3. \<exists>m v. out = [CMD_BIT_MODIFY, TXBCTRL i, m, v]) \<or>
        (\<exists>m. out = [CMD_BIT_MODIFY, CANINTF, m, 0xFF]))"

text \<open>
  Documented of the two controllers: clearing the latch does not move the pin; a pin that is low
  stays low, and latches no edge, whatever the controller does by itself and while the driver only
  gives commands that keep the flags.
\<close>

definition held_low :: "'d can_hw \<Rightarrow> 'd \<Rightarrow> bool" where
  "held_low hw d \<longleftrightarrow> pin_low hw d \<and> \<not> edge_seen hw d"

definition level_pin :: "'d can_hw \<Rightarrow> 'd bus \<Rightarrow> bool" where
  "level_pin hw bus \<longleftrightarrow>
     (\<forall>d. pin_low hw d \<longrightarrow> held_low hw (edge_clear hw d)) \<and>
     (\<forall>d d'. hw_step hw d d' \<longrightarrow> held_low hw d \<longrightarrow> held_low hw d') \<and>
     (\<forall>d out r. keeps_flags out \<longrightarrow> held_low hw d \<longrightarrow> held_low hw (sends bus out r d))"

section \<open>The composed system\<close>

text \<open>
  \<open>board\<close> is the state of the GPIO server, \<open>driver\<close> that of the CAN driver, which contains the
  hardware, and \<open>answers\<close> counts the calls of \<^verbatim>\<open>CANIntAck_handler\<close>.
\<close>

record 'd can_system =
  board :: int_line
  driver :: "'d can_state"
  answers :: nat

definition handled :: "'d can_system \<Rightarrow> nat" where
  "handled x = count_list (emitted (driver x)) Int_Ack"

definition listening :: "'d can_system \<Rightarrow> nat" where
  "listening x = count_list (emitted (driver x)) Int_Reg_Callback"

text \<open>
  The kernel delivers the interrupt of the pin's group, for this pin or another one, when it has been
  acknowledged; \<^verbatim>\<open>gpio_is_pending\<close> reads the latch, \<^verbatim>\<open>gpio_pending_clear\<close> clears it.
\<close>

definition deliver_int :: "'d can_hw \<Rightarrow> 'd can_system \<Rightarrow> 'd can_system" where
  "deliver_int hw x =
     (let d = dev (driver x); pending = edge_seen hw d
      in x\<lparr>board := \<lparr>events = irq_grp5_int_handle pending (events (board x)),
                     delivered = delivered (board x) + 1\<rparr>,
           driver := (driver x)\<lparr>dev := if pending then d else edge_clear hw d\<rparr>\<rparr>)"

definition answer_int :: "'d can_hw \<Rightarrow> 'd can_system \<Rightarrow> 'd can_system" where
  "answer_int hw x =
     x\<lparr>board := (board x)\<lparr>events := CANIntAck_handler (events (board x))\<rparr>,
       driver := (driver x)\<lparr>dev := edge_clear hw (dev (driver x))\<rparr>,
       answers := answers x + 1\<rparr>"

text \<open>
  The calls of the clients, in normal mode; those of \<^verbatim>\<open>can_recv_rxb\<close>, the only one of them that clears a
  flag of the controller, are among them if \<open>rxb\<close> is set. The remaining calls (\<^verbatim>\<open>can_setup\<close>,
  \<^verbatim>\<open>can_setup_loopback\<close> and the three that configure filters) leave normal mode.
\<close>

inductive can_call :: "bool \<Rightarrow> 'd bus \<Rightarrow> 'd can_state \<Rightarrow> 'd can_state \<Rightarrow> bool" for rxb bus where
  send: "frame_fits f \<Longrightarrow> queue_push_tx f s = Some (r, s1) \<Longrightarrow> start_xmit bus s1 = Some s' \<Longrightarrow>
    can_call rxb bus s s'"
| sendto: "frame_fits f \<Longrightarrow> i < 3 \<Longrightarrow> can_sendto bus i f s = Some (r, s') \<Longrightarrow> can_call rxb bus s s'"
| recv: "can_recv old s = Some (f, s') \<Longrightarrow> can_call rxb bus s s'"
| recv_rxb: "rxb \<Longrightarrow> frame_ok old \<Longrightarrow> can_recv_rxb bus i old s = Some (f, s') \<Longrightarrow> can_call rxb bus s s'"
| abort: "i < 3 \<Longrightarrow> can_abort bus i s = Some s' \<Longrightarrow> can_call rxb bus s s'"
| status: "can_status bus i s = Some (r, s') \<Longrightarrow> can_call rxb bus s s'"
| poll: "can_poll_rxbuf bus s = Some (n, s') \<Longrightarrow> can_call rxb bus s s'"

text \<open>
  An event is handled once it has been emitted and while a callback is registered for it. With the
  handler, \<open>can_call\<close> makes all the steps of \<open>can_step\<close>.
\<close>

inductive sys_step :: "bool \<Rightarrow> 'd can_hw \<Rightarrow> 'd bus \<Rightarrow> 'd can_system \<Rightarrow> 'd can_system \<Rightarrow> bool"
  for rxb hw bus where
  deliver: "acks (events (board x)) = delivered (board x) \<Longrightarrow> sys_step rxb hw bus x (deliver_int hw x)"
| handle: "handled x < emits (events (board x)) \<Longrightarrow> handled x < listening x \<Longrightarrow> frame_ok old \<Longrightarrow>
    irq_handler bus old (driver x) = Some s \<Longrightarrow> sys_step rxb hw bus x (x\<lparr>driver := s\<rparr>)"
| answer: "answers x < handled x \<Longrightarrow> answers x < registered (events (board x)) \<Longrightarrow>
    sys_step rxb hw bus x (answer_int hw x)"
| hardware: "hw_step hw (dev (driver x)) d \<Longrightarrow>
    sys_step rxb hw bus x (x\<lparr>driver := (driver x)\<lparr>dev := d\<rparr>\<rparr>)"
| call: "can_call rxb bus (driver x) s \<Longrightarrow> sys_step rxb hw bus x (x\<lparr>driver := s\<rparr>)"

definition sys_start :: "'d can_state \<Rightarrow> 'd can_system" where
  "sys_start s = \<lparr>board = line_init, driver = s, answers = 0\<rparr>"

section \<open>Invariant\<close>

text \<open>
  At most one interrupt is on its way; the kernel's acknowledgement is outstanding exactly while it
  is; and both sides listen for what they wait for.
\<close>

definition sys_inv :: "'d set \<Rightarrow> 'd can_system \<Rightarrow> bool" where
  "sys_inv N x \<longleftrightarrow> can_inv N (driver x) \<and> listening x = handled x + 1 \<and>
     registered (events (board x)) = answers x + 1 \<and>
     answers x \<le> handled x \<and> handled x \<le> emits (events (board x)) \<and>
     emits (events (board x)) \<le> answers x + 1 \<and>
     delivered (board x) = acks (events (board x)) + (emits (events (board x)) - answers x)"

lemma sys_start_inv:
  assumes "can_inv N s" "emitted s = [Int_Reg_Callback]"
  shows "sys_inv N (sys_start s)"
  using assms by (simp add: sys_inv_def sys_start_def handled_def listening_def line_init_def
      gpio_pre_init_def registered_def emits_def acks_def)

lemma can_inv_dev: "can_inv N s \<Longrightarrow> d \<in> N \<Longrightarrow> can_inv N (s\<lparr>dev := d\<rparr>)"
  by (simp add: can_inv_def port_wf_def)

lemma count_acks: "count_list (map Txb_Ack is) Int_Ack = 0" "count_list (map Txb_Ack is) Int_Reg_Callback = 0"
  by (induction "is") auto

text \<open>The calls of the applications tell nobody anything and never post the semaphore.\<close>

lemma push_emits:
  assumes "queue_push_tx f s = Some (r, s1)"
  shows "emitted s1 = emitted s" "queue_sem s1 = queue_sem s" "dev s1 = dev s" "port_wf s1 = port_wf s"
  using assms by (auto simp: queue_push_tx_def bind_splits port_wf_def)

lemma push_inv:
  assumes "queue_push_tx f s = Some (r, s1)" "can_inv N s" "frame_fits f"
  shows "can_inv N s1"
proof -
  obtain q where q: "queues s = Some q" "mq_wf q"
    using assms(2) by (auto simp: can_inv_def)
  show ?thesis
    using assms queue_push_tx_room [OF q, of f] queue_push_tx_full [OF q, of f] q
    by (cases "length (tx_contents q) < tx_capacity q") (auto simp: can_inv_def not_less)
qed

lemma send_frame:
  assumes "normal_mode bus N" "can_inv N s" "frame_fits f"
    "queue_push_tx f s = Some (r, s1)" "start_xmit bus s1 = Some s'"
  shows "emitted s' = emitted s \<and> queue_sem s' = queue_sem s"
  using okD [OF start_xmit_inv [OF assms(1) push_inv [OF assms(4,2,3)],
      where P = "\<lambda>s'. emitted s' = emitted s1 \<and> queue_sem s' = queue_sem s1"] assms(5)]
    push_emits [OF assms(4)] by simp

lemma recv_frame:
  assumes "can_recv old s = Some (f, s')"
  shows "emitted s' = emitted s" "dev s' = dev s" "queue_sem s' \<le> queue_sem s" "queue_sem s \<noteq> 0"
  using assms by (auto simp: can_recv_def queue_lock_wait_def bind_splits split: if_splits)

text \<open>
  Every call is made of commands of a class \<open>K\<close>, which contains those that keep the flags, and what no
  command of the class changes of the controller (\<open>H\<close>), no call changes.
\<close>

definition preserves :: "'d bus \<Rightarrow> (u8 list \<Rightarrow> bool) \<Rightarrow> ('d \<Rightarrow> bool) \<Rightarrow> bool" where
  "preserves bus K H \<longleftrightarrow> (\<forall>d out r. K out \<longrightarrow> H d \<longrightarrow> H (sends bus out r d))"

lemma preservesD: "preserves bus K H \<Longrightarrow> K out \<Longrightarrow> H d \<Longrightarrow> H (sends bus out r d)"
  by (simp add: preserves_def)

lemma preserves_mono: "preserves bus K H \<Longrightarrow> (\<And>out. K' out \<Longrightarrow> K out) \<Longrightarrow> preserves bus K' H"
  by (simp add: preserves_def)

lemma keeps_flags_simple [simp]:
  "keeps_flags [CMD_READ, r]" "keeps_flags [CMD_BIT_MODIFY, CANINTF, m, 0xFF]"
  "i < 3 \<Longrightarrow> keeps_flags [CMD_BIT_MODIFY, TXBCTRL i, m, v]"
  by (auto simp: keeps_flags_def)

lemma trigger_loop_keeps:
  assumes "full_duplex bus" "preserves bus keeps_flags H" "port_wf s" "H (dev s)"
  shows "ok (trigger_loop bus is s) (\<lambda>s'. H (dev s'))"
  using assms(3,4)
proof (induction "is" arbitrary: s)
  case (Cons i "is")
  show ?case
    unfolding trigger_loop.simps ok_bind
    by (rule read_reg_wp [OF Cons.prems(1) assms(1)])
      (auto intro!: bit_modify_wp Cons.IH preservesD [OF assms(2)] dest: movedD
        simp: moved_dev Cons.prems(2))
qed simp

lemma start_xmit_keeps:
  assumes "full_duplex bus" "preserves bus keeps_flags H" "port_wf s" "H (dev s)" "start_xmit bus s = Some s'"
  shows "H (dev s')"
  using assms(5) okD [OF trigger_loop_keeps [OF assms(1,2), of "s\<lparr>txb_lock := True\<rparr>"]] assms(3,4)
  by (auto simp: start_xmit_def bind_splits lock_take_def port_wf_def split: if_splits)

lemma sendto_cmds_keep:
  assumes "i < 3" "c \<in> set (sendto_cmds i f cache)"
  shows "keeps_flags c"
proof -
  have "keeps_flags [CMD_RTS OR BIT i]" "keeps_flags ((CMD_LOAD_TXB OR of_nat i * 2) # txb_bytes f)"
    using assms(1) by (auto simp: keeps_flags_def BIT_def less_Suc_eq numeral_3_eq_3)
  moreover have "\<forall>c \<in> set (prio_updates ch i [0..<3]). keeps_flags c" for ch
    by (auto simp: prio_updates_def simp del: upt_rec_numeral)
  ultimately show ?thesis
    using assms unfolding sendto_cmds_def
    by (auto simp del: set_upt upt_rec_numeral split: if_splits)
qed

lemma sends_all_keep:
  "preserves bus K H \<Longrightarrow> \<forall>c \<in> set cs. K c \<Longrightarrow> H d \<Longrightarrow> H (sends_all bus cs d)"
  by (induction cs arbitrary: d) (auto intro: preservesD)

text \<open>What the calls change, for the emitted events, the semaphore and \<open>H\<close>.\<close>

definition quietly :: "('d \<Rightarrow> bool) \<Rightarrow> 'd can_state \<Rightarrow> 'd can_state \<Rightarrow> bool" where
  "quietly H s s' \<longleftrightarrow> emitted s' = emitted s \<and> queue_sem s' \<le> queue_sem s \<and> (H (dev s) \<longrightarrow> H (dev s'))"

lemma quietly_moved:
  "moved s d s' \<Longrightarrow> (H (dev s) \<Longrightarrow> H d) \<Longrightarrow> quietly H s s'"
  by (auto simp: quietly_def moved_can_iff)

lemma sendto_quiet:
  assumes "normal_mode bus N" "can_inv N s" "i < 3" "frame_fits f" "preserves bus keeps_flags H"
  shows "ok (can_sendto bus i f s) (\<lambda>(r, s'). quietly H s s')"
proof -
  have s: "port_wf s" "length (txb_cache s) = 3" using assms(2) by (auto simp: can_inv_def)
  have rd: "H (sends bus [CMD_READ, TXBCTRL i] 1 (dev s))" if "H (dev s)"
    using that by (intro preservesD [OF assms(5)]) simp_all
  show ?thesis
  proof (cases "decode_txb_status (answer bus [CMD_READ, TXBCTRL i] 1 (dev s) ! 0) = IDLE")
    case True
    have "H (sends_all bus (sendto_cmds i f (txb_cache s)) (sends bus [CMD_READ, TXBCTRL i] 1 (dev s)))"
      if "H (dev s)"
      using sends_all_keep [OF assms(5) _ rd [OF that]] sendto_cmds_keep [OF assms(3)] by blast
    then show ?thesis
      by (intro can_sendto_idle [OF s(1) normal_modeD(1) [OF assms(1)] s(2) assms(3,4) True])
        (auto simp: quietly_def moved_can_iff)
  next
    case False
    show ?thesis
      by (rule can_sendto_busy [OF s(1) normal_modeD(1) [OF assms(1)] False])
        (use rd in \<open>auto intro: quietly_moved\<close>)
  qed
qed

lemma read_rxb_quiet:
  assumes "normal_mode bus N" "can_inv N s" "frame_ok old" "preserves bus K H" "K [CMD_READ_RXB]"
  shows "ok (can_recv_rxb bus i old s) (\<lambda>(f, s'). quietly H s s')"
proof -
  have s: "port_wf s" "dev s \<in> N" using assms(2) by (auto simp: can_inv_def)
  let ?a = "answer bus [CMD_READ_RXB] MAX_BUF_LEN (dev s)"
  have "length ?a = MAX_BUF_LEN" using length_answer [OF normal_modeD(1) [OF assms(1)]] by simp
  then obtain g where g: "decode_rxb ?a old = Some g"
    using decode_rxb_fits [OF _ assms(3)] normal_modeD(5) [OF assms(1) s(2)] by blast
  show ?thesis
    unfolding can_recv_rxb_def
    by (rule recv_frame_wp [OF s(1) normal_modeD(1) [OF assms(1)] g])
      (use preservesD [OF assms(4,5)] in \<open>auto intro: quietly_moved\<close>)
qed

lemma can_call_quiet:
  assumes "can_call rxb bus s s'" "normal_mode bus N" "can_inv N s"
    "preserves bus K H" "\<And>out. keeps_flags out \<Longrightarrow> K out" "rxb \<Longrightarrow> K [CMD_READ_RXB]"
  shows "quietly H s s'"
  using assms(1)
proof cases
  have H: "preserves bus keeps_flags H" using assms(4,5) by (rule preserves_mono)
  have wf: "port_wf s" and fd: "full_duplex bus"
    using assms(2,3) normal_modeD(1) by (auto simp: can_inv_def)
  have read: "ok (do { (v, s) \<leftarrow> mcp2515_read_reg bus r s; Some (g v, s) }) (\<lambda>(v, s'). quietly H s s')" for r and g :: "u8 \<Rightarrow> 'b"
    unfolding ok_bind
    by (rule read_reg_wp [OF wf fd]) (use preservesD [OF H] in \<open>auto intro: quietly_moved\<close>)
  {
    case (send f r s1)
    note p = push_emits [OF send(2)]
    have "H (dev s')" if "H (dev s)"
      using start_xmit_keeps [OF fd H _ _ send(3)] that wf p by simp
    then show ?thesis using send_frame [OF assms(2,3) send] by (simp add: quietly_def)
  next
    case (sendto f i r)
    from okD [OF sendto_quiet [OF assms(2,3) sendto(2,1) H] sendto(3)] show ?thesis by simp
  next
    case (recv old f)
    from recv_frame [OF recv] show ?thesis by (simp add: quietly_def)
  next
    case (recv_rxb old i f)
    from okD [OF read_rxb_quiet [OF assms(2,3) recv_rxb(2) assms(4) assms(6) [OF recv_rxb(1)]] recv_rxb(3)]
    show ?thesis by simp
  next
    case (abort i)
    have "ok (can_abort bus i s) (quietly H s)"
      unfolding can_abort_def abort_tx_def
      by (rule bit_modify_wp [OF wf]) (use preservesD [OF H] abort(1) in \<open>auto intro: quietly_moved\<close>)
    from okD [OF this abort(2)] show ?thesis .
  next
    case (status i r)
    from okD [OF read status [unfolded can_status_def txb_status_def]] show ?thesis by simp
  next
    case (poll n)
    from okD [OF read poll [unfolded can_poll_rxbuf_def poll_rxbuf_def]] show ?thesis by simp
  }
qed

lemma can_call_step: "can_call rxb bus s s' \<Longrightarrow> can_step bus s s'"
  by (induction rule: can_call.induct) (auto intro: can_step.intros)

lemma can_call_emits:
  assumes "can_call rxb bus s s'" "normal_mode bus N" "can_inv N s"
  shows "can_inv N s'" "emitted s' = emitted s"
  using can_step_inv [OF can_call_step [OF assms(1)] assms(2,3)]
    can_call_quiet [OF assms, where K = "\<lambda>_. True" and H = "\<lambda>_. True"]
  by (simp_all add: quietly_def preserves_def)

lemmas sys_defs = sys_inv_def handled_def listening_def deliver_int_def answer_int_def Let_def
  irq_grp5_int_handle_def CANIntAck_handler_def emits_def acks_def registered_def

lemma sys_step_inv:
  assumes "sys_step rxb hw bus x y" "normal_mode bus N" "hw_normal hw N" "sys_inv N x"
  shows "sys_inv N y"
  using assms(1)
proof cases
  case deliver
  have "can_inv N (driver x)" "dev (driver x) \<in> N" using assms(4) by (auto simp: sys_inv_def can_inv_def)
  moreover from this have "edge_clear hw (dev (driver x)) \<in> N" using assms(3) by (simp add: hw_normal_def)
  ultimately show ?thesis
    using deliver assms(4) can_inv_dev by (auto simp: sys_defs)
next
  case (handle old s)
  have "can_inv N (driver x)" using assms(4) by (simp add: sys_inv_def)
  from okD [OF irq_handler_inv [OF assms(2) this handle(4)] handle(5)]
  show ?thesis using handle assms(4) by (auto simp: sys_defs count_acks)
next
  case answer
  have "can_inv N (driver x)" "dev (driver x) \<in> N" using assms(4) by (auto simp: sys_inv_def can_inv_def)
  then have "can_inv N ((driver x)\<lparr>dev := edge_clear hw (dev (driver x))\<rparr>)"
    using assms(3) by (auto intro!: can_inv_dev simp: hw_normal_def)
  then show ?thesis using answer assms(4) by (auto simp: sys_defs)
next
  case (hardware d)
  have "can_inv N (driver x)" "dev (driver x) \<in> N" using assms(4) by (auto simp: sys_inv_def can_inv_def)
  with hardware(2) assms(3) have "can_inv N ((driver x)\<lparr>dev := d\<rparr>)"
    by (auto intro!: can_inv_dev simp: hw_normal_def)
  then show ?thesis using hardware assms(4) by (auto simp: sys_defs)
next
  case (call s)
  have "can_inv N (driver x)" using assms(4) by (simp add: sys_inv_def)
  from can_call_emits [OF call(2) assms(2) this] show ?thesis
    using call(1) assms(4) by (auto simp: sys_defs)
qed

lemma sys_reach_inv:
  assumes "(sys_step rxb hw bus)\<^sup>*\<^sup>* x y" "normal_mode bus N" "hw_normal hw N" "sys_inv N x"
  shows "sys_inv N y"
  using assms(1) by (induction rule: rtranclp_induct) (use assms sys_step_inv in blast)+

section \<open>Every interrupt delivered is answered\<close>

lemma handler_runs:
  assumes "normal_mode bus N" "sys_inv N x" "handled x < emits (events (board x))"
  obtains s where "sys_step rxb hw bus x (x\<lparr>driver := s\<rparr>)" "handled (x\<lparr>driver := s\<rparr>) = handled x + 1"
proof -
  have inv: "can_inv N (driver x)" "handled x < listening x" using assms(2) by (auto simp: sys_inv_def)
  have old: "frame_ok blank_frame" by (simp add: blank_frame_def frame_ok_def)
  from irq_handler_inv [OF assms(1) inv(1) old] obtain s where
    s: "irq_handler bus blank_frame (driver x) = Some s" "handled (x\<lparr>driver := s\<rparr>) = handled x + 1"
    by (auto simp: ok_def handled_def count_acks)
  show thesis by (rule that [OF sys_step.handle [OF assms(3) inv(2) old s(1)] s(2)])
qed

lemma answer_step:
  assumes "sys_inv N x" "answers x < handled x"
  shows "sys_step rxb hw bus x (answer_int hw x)"
  using assms by (intro sys_step.answer) (auto simp: sys_inv_def)

text \<open>
  C9: In every interleaving of the two components, the kernel's interrupt is masked exactly while one
  \<^verbatim>\<open>CAN1Int\<close> is unanswered, and then the handlers still to run, of the CAN driver and of the GPIO
  server, are registered and return, after which the interrupt is enabled again.
\<close>

theorem masked_interrupt_is_answered:
  assumes "normal_mode bus N" "hw_normal hw N" "can_inv N s0" "emitted s0 = [Int_Reg_Callback]"
    "(sys_step rxb hw bus)\<^sup>*\<^sup>* (sys_start s0) x"
  shows "(acks (events (board x)) \<noteq> delivered (board x) \<longleftrightarrow> emits (events (board x)) = answers x + 1) \<and>
    (\<exists>y. (sys_step rxb hw bus)\<^sup>*\<^sup>* x y \<and> acks (events (board y)) = delivered (board x) \<and>
       delivered (board y) = delivered (board x) \<and> handled y = emits (events (board x)) \<and>
       emits (events (board y)) = emits (events (board x)))"
proof -
  have inv: "sys_inv N x"
    by (rule sys_reach_inv [OF assms(5,1,2) sys_start_inv [OF assms(3,4)]])
  let ?goal = "\<lambda>y. acks (events (board y)) = delivered (board x) \<and>
       delivered (board y) = delivered (board x) \<and> handled y = emits (events (board x)) \<and>
       emits (events (board y)) = emits (events (board x))"
  have answer: "\<exists>y. (sys_step rxb hw bus)\<^sup>*\<^sup>* x' y \<and> ?goal y"
    if "sys_inv N x'" "handled x' = emits (events (board x))" "board x' = board x" "answers x' = answers x" for x'
  proof (cases "answers x' = handled x'")
    case True
    then show ?thesis using that inv by (intro exI [of _ x']) (auto simp: sys_inv_def)
  next
    case False
    then have lt: "answers x' < handled x'" using that(1) by (auto simp: sys_inv_def)
    have "?goal (answer_int hw x')"
      using that inv lt by (auto simp: sys_defs)
    with answer_step [OF that(1) lt] show ?thesis by blast
  qed
  have "\<exists>y. (sys_step rxb hw bus)\<^sup>*\<^sup>* x y \<and> ?goal y"
  proof (cases "handled x = emits (events (board x))")
    case True
    from answer [OF inv True] show ?thesis by blast
  next
    case False
    then have lt: "handled x < emits (events (board x))" using inv by (auto simp: sys_inv_def)
    from handler_runs [OF assms(1) inv lt] obtain s where
      s: "sys_step rxb hw bus x (x\<lparr>driver := s\<rparr>)" "handled (x\<lparr>driver := s\<rparr>) = handled x + 1" by blast
    have "handled x + 1 = emits (events (board x))" using inv lt by (auto simp: sys_inv_def)
    with answer [OF sys_step_inv [OF s(1) assms(1,2) inv]] s show ?thesis
      by (auto intro: converse_rtranclp_into_rtranclp)
  qed
  moreover have "acks (events (board x)) \<noteq> delivered (board x) \<longleftrightarrow> emits (events (board x)) = answers x + 1"
    using inv by (auto simp: sys_inv_def)
  ultimately show ?thesis by blast
qed

section \<open>A controller and its pin\<close>

text \<open>
  The hardware of the closed examples: the interrupt flags, which a bit modify changes and the
  controller may raise at any time, and the latch of the pin.
\<close>

record pin_dev =
  raised :: u8
  latched :: bool

definition set_flags :: "u8 \<Rightarrow> pin_dev \<Rightarrow> pin_dev" where
  "set_flags v d = \<lparr>raised = v, latched = (latched d \<or> raised d = 0 \<and> v \<noteq> 0)\<rparr>"

definition pin_bus :: "pin_dev bus" where
  "pin_bus app out r d =
     (replicate (length out) 0 @ replicate r (if out = [CMD_READ, CANINTF] then raised d else 0),
      case out of
        [c, a, m, v] \<Rightarrow> if c = CMD_BIT_MODIFY \<and> a = CANINTF
          then set_flags ((raised d AND NOT m) OR (v AND m)) d else d
      | _ \<Rightarrow> d)"

definition pin_hw :: "pin_dev can_hw" where
  "pin_hw = \<lparr>pin_low = (\<lambda>d. raised d \<noteq> 0), edge_seen = latched, edge_clear = (\<lambda>d. d\<lparr>latched := False\<rparr>),
     hw_step = (\<lambda>d d'. \<exists>m. d' = set_flags (raised d OR m) d)\<rparr>"

definition pin_state :: "pin_dev can_state" where
  "pin_state =
     \<lparr>txbuf = replicate 255 0, rxbuf = replicate 255 0, spi_lock = False, dev = \<lparr>raised = 0, latched = False\<rparr>,
      txb_cache = replicate 3 no_canid, queues = Some one_mq, xmit_stopped = 1, txb_lock = False,
      queue_sem = 0, emitted = [Int_Reg_Callback]\<rparr>"

lemma pin_bus_normal: "normal_mode pin_bus UNIV"
  by (auto simp: normal_mode_def filters_hidden_def full_duplex_def answer_def pin_bus_def rxb_fits_def)

lemma pin_hw_normal: "hw_normal pin_hw UNIV"
  by (simp add: hw_normal_def)

lemma or_mask_nonzero: "(w :: u8) \<noteq> 0 \<Longrightarrow> (w AND NOT m) OR (0xFF AND m) \<noteq> 0"
proof -
  have ff: "(0xFF :: u8) = - 1" by simp
  have "(0xFF AND m :: u8) = m" unfolding ff by simp
  then have "(w AND NOT m) OR (0xFF AND m) = w OR m"
    by (auto intro!: bit_word_eqI simp: bit_simps)
  then show "w \<noteq> 0 \<Longrightarrow> (w AND NOT m) OR (0xFF AND m) \<noteq> 0" by (simp add: or_eq_0_iff)
qed

lemma TXBCTRL_no_flags: "i < 3 \<Longrightarrow> TXBCTRL i \<noteq> CANINTF \<and> TXBCTRL i \<noteq> CANINTE"
  by (auto simp: TXBCTRL_def less_Suc_eq numeral_3_eq_3)

lemma pin_keeps:
  assumes "keeps_flags out"
  obtains "sends pin_bus out r d = d" | m where "sends pin_bus out r d = set_flags ((raised d AND NOT m) OR (0xFF AND m)) d"
proof (cases "\<exists>m. out = [CMD_BIT_MODIFY, CANINTF, m, 0xFF]")
  case True
  then show thesis using that(2) by (auto simp: sends_def pin_bus_def)
next
  case False
  then show thesis
    using assms TXBCTRL_no_flags
    by (intro that(1)) (auto simp: keeps_flags_def sends_def pin_bus_def split: list.splits)
qed

lemma pin_level: "level_pin pin_hw pin_bus"
proof -
  have "held_low pin_hw (sends pin_bus out r d)" if "keeps_flags out" "held_low pin_hw d" for out r d
    using that(1)
  proof (rule pin_keeps [of out r d])
    show "held_low pin_hw (sends pin_bus out r d)" if "sends pin_bus out r d = d"
      using that \<open>held_low pin_hw d\<close> by simp
    show "held_low pin_hw (sends pin_bus out r d)"
      if "sends pin_bus out r d = set_flags ((raised d AND NOT m) OR (0xFF AND m)) d" for m
      using \<open>held_low pin_hw d\<close> or_mask_nonzero [of "raised d" m]
      unfolding that by (simp add: held_low_def pin_hw_def set_flags_def)
  qed
  then show ?thesis
    by (auto simp: level_pin_def held_low_def pin_hw_def set_flags_def or_eq_0_iff)
qed

lemma pin_state_inv: "can_inv UNIV pin_state" "emitted pin_state = [Int_Reg_Callback]"
  using one_mq_facts by (auto simp: can_inv_def pin_state_def port_wf_def)

text \<open>A frame arrives in the first receive buffer, and the kernel delivers the interrupt.\<close>

definition pin_masked :: "pin_dev can_system" where
  "pin_masked = deliver_int pin_hw ((sys_start pin_state)\<lparr>driver := pin_state\<lparr>dev := set_flags 1 (dev pin_state)\<rparr>\<rparr>)"

lemma pin_masked_reach: "(sys_step rxb pin_hw pin_bus)\<^sup>*\<^sup>* (sys_start pin_state) pin_masked"
proof -
  let ?x = "(sys_start pin_state)\<lparr>driver := pin_state\<lparr>dev := set_flags 1 (dev pin_state)\<rparr>\<rparr>"
  have d: "driver (sys_start pin_state) = pin_state" by (simp add: sys_start_def)
  have "hw_step pin_hw (dev pin_state) (set_flags 1 (dev pin_state))"
    by (auto simp: pin_hw_def pin_state_def intro!: exI [of _ 1])
  then have "sys_step rxb pin_hw pin_bus (sys_start pin_state) ?x"
    using sys_step.hardware [of pin_hw "sys_start pin_state"] unfolding d by blast
  moreover have "sys_step rxb pin_hw pin_bus ?x pin_masked"
    unfolding pin_masked_def
    by (rule sys_step.deliver) (simp add: sys_start_def line_init_def gpio_pre_init_def acks_def)
  ultimately show ?thesis by auto
qed

lemma pin_masked_state: "emits (events (board pin_masked)) = 1" "answers pin_masked = 0"
    "acks (events (board pin_masked)) = 0" "delivered (board pin_masked) = 1" "handled pin_masked = 0"
  by (auto simp: pin_masked_def deliver_int_def Let_def sys_start_def line_init_def gpio_pre_init_def acks_def
      emits_def irq_grp5_int_handle_def handled_def pin_hw_def pin_state_def set_flags_def)

theorem masked_interrupt_is_answered_witness:
  "acks (events (board pin_masked)) \<noteq> delivered (board pin_masked) \<and>
   (\<exists>y. (sys_step True pin_hw pin_bus)\<^sup>*\<^sup>* pin_masked y \<and> acks (events (board y)) = 1 \<and> delivered (board y) = 1 \<and>
      handled y = 1)"
  using masked_interrupt_is_answered [OF pin_bus_normal pin_hw_normal pin_state_inv pin_masked_reach]
  by (simp add: pin_masked_state) blast

section \<open>A pin that stays low\<close>

text \<open>Nothing is on its way, the pin is low, and no edge is latched.\<close>

definition stalled :: "'d can_hw \<Rightarrow> 'd can_system \<Rightarrow> can_event list \<Rightarrow> nat \<Rightarrow> nat \<Rightarrow> bool" where
  "stalled hw x es n k \<longleftrightarrow> emitted (driver x) = es \<and> emits (events (board x)) = n \<and> handled x = n \<and>
     answers x = n \<and> queue_sem (driver x) \<le> k \<and> held_low hw (dev (driver x))"

lemma stalled_step:
  assumes "sys_step False hw bus x y" "normal_mode bus N" "hw_normal hw N" "level_pin hw bus"
    "sys_inv N x" "stalled hw x es n k"
  shows "stalled hw y es n k"
  using assms(1)
proof cases
  case deliver
  then show ?thesis using assms(4,6) by (auto simp: stalled_def sys_defs held_low_def level_pin_def)
next
  case (handle old s)
  then show ?thesis using assms(6) by (simp add: stalled_def)
next
  case answer
  then show ?thesis using assms(6) by (simp add: stalled_def)
next
  case (hardware d)
  then show ?thesis using assms(4,6) by (auto simp: stalled_def sys_defs level_pin_def)
next
  case (call s)
  have inv: "can_inv N (driver x)" using assms(5) by (simp add: sys_inv_def)
  have "preserves bus keeps_flags (held_low hw)" using assms(4) by (simp add: level_pin_def preserves_def)
  from can_call_quiet [OF call(2) assms(2) inv this] show ?thesis
    using call(1) assms(6) by (auto simp: stalled_def sys_defs quietly_def)
qed

lemma stalled_run:
  assumes "(sys_step False hw bus)\<^sup>*\<^sup>* x y" "normal_mode bus N" "hw_normal hw N" "level_pin hw bus"
    "sys_inv N x" "stalled hw x es n k"
  shows "stalled hw y es n k"
  using assms(1)
proof (induction rule: rtranclp_induct)
  case base
  show ?case by (rule assms(6))
next
  case (step y z)
  from sys_reach_inv [OF step(1) assms(2,3,5)] stalled_step [OF step(2) assms(2-4) _ step(3)]
  show ?case by blast
qed



end
