(* ===== verification/Can_Second_Buffer.thy ===== *)
theory Can_Second_Buffer
  imports Can_System
begin

text \<open>
  Two peculiarities of the code together. \<^verbatim>\<open>mcp2515_read_rxb\<close> always sends the instruction for the first
  receive buffer, so that nothing the driver does clears the flag of the second one; and the
  interrupt pin, which stays low while a flag is set, is configured for falling edges.
\<close>

section \<open>The flag of the second receive buffer\<close>

text \<open>
  The commands that leave the flag RX1IF set and enabled: all but a reset, a write, a bit modify that
  clears bit 1 of the flag register or of the enable register, and the two instructions that read
  receive buffer 1.
\<close>

definition spares_rx1 :: "u8 list \<Rightarrow> bool" where
  "spares_rx1 out \<longleftrightarrow> normal_cmd out \<and> hd out \<noteq> 0x94 \<and> hd out \<noteq> 0x96 \<and>
     (\<forall>r m v. out = [CMD_BIT_MODIFY, r, m, v] \<longrightarrow> r = CANINTF \<or> r = CANINTE \<longrightarrow> bit m 1 \<longrightarrow> bit v 1)"

text \<open>
  Documented of the controller: \<open>rx1\<close> says that the flag is set; then the pin is low, and the flag
  stays set until a command clears it; as the pin stays low, a command that does not clear it makes no
  falling edge.
\<close>

definition rx1_sticks :: "'d can_hw \<Rightarrow> 'd bus \<Rightarrow> ('d \<Rightarrow> bool) \<Rightarrow> bool" where
  "rx1_sticks hw bus rx1 \<longleftrightarrow>
     (\<forall>d. rx1 d \<longrightarrow> pin_low hw d \<and> rx1 (edge_clear hw d)) \<and>
     (\<forall>d d'. hw_step hw d d' \<longrightarrow> rx1 d \<longrightarrow> rx1 d') \<and>
     (\<forall>d out r. spares_rx1 out \<longrightarrow> rx1 d \<longrightarrow> rx1 (sends bus out r d) \<and>
        (\<not> edge_seen hw d \<longrightarrow> \<not> edge_seen hw (sends bus out r d)))"

lemma rx1_sends: "rx1_sticks hw bus rx1 \<Longrightarrow> spares_rx1 out \<Longrightarrow> rx1 d \<Longrightarrow> rx1 (sends bus out r d)"
  by (simp add: rx1_sticks_def)

lemma rx1_preserved:
  assumes "rx1_sticks hw bus rx1"
  shows "preserves bus spares_rx1 rx1" "preserves bus spares_rx1 (\<lambda>d. rx1 d \<and> held_low hw d)"
  using assms by (auto simp: preserves_def rx1_sticks_def held_low_def)

lemma keeps_flags_spares: "keeps_flags out \<Longrightarrow> spares_rx1 out"
  using TXBCTRL_neq TXBCTRL_no_flags
  by (auto simp: keeps_flags_def spares_rx1_def normal_cmd_def bit_numeral_rec)

text \<open>The commands of the interrupt handler spare the flag.\<close>

lemma clear_tx_spares: "spares_rx1 [CMD_BIT_MODIFY, CANINTF, push_bit TXIF_SHF tx, 0]"
  by (simp add: spares_rx1_def normal_cmd_def bit_push_bit_iff)

lemma load_spares: "i < 3 \<Longrightarrow> t \<in> set (load_cmds (i, f)) \<Longrightarrow> spares_rx1 (fst t)"
  by (auto simp: load_cmds_def spares_rx1_def normal_cmd_def TXBCTRL_def less_Suc_eq numeral_3_eq_3)

lemma rts_spares:
  assumes "set is \<subseteq> {0, 1, 2}"
  shows "spares_rx1 [CMD_RTS OR fold (\<lambda>i r. r OR BIT i) is 0]"
proof -
  let ?c = "CMD_RTS OR fold (\<lambda>i r. r OR BIT i) is 0"
  have "\<not> bit ?c 4"
    using assms by (auto simp: bit_or_iff bit_rts_mask bit_numeral_rec)
  moreover have "bit (0x94 :: u8) 4" "bit (0x96 :: u8) 4" by (simp_all add: bit_numeral_rec)
  ultimately have "?c \<noteq> 0x94" "?c \<noteq> 0x96" by metis+
  then show ?thesis using rts_normal [OF assms] by (simp add: spares_rx1_def)
qed

lemma runs_spare:
  assumes "rx1_sticks hw bus rx1" "rx1 d" "\<forall>t \<in> set ts. spares_rx1 (fst t)"
  shows "rx1 (runs bus ts d)"
  using assms(2,3) by (induction ts arbitrary: d) (auto intro: rx1_sends [OF assms(1)])

lemma load_list_spares:
  "\<forall>i \<in> set sel. i < 3 \<Longrightarrow> \<forall>t \<in> set (concat (map load_cmds (zip sel fs))). spares_rx1 (fst t)"
  by (auto dest!: set_zip_leftD intro: load_spares)

section \<open>The handler leaves it set\<close>

text \<open>As \<open>calm\<close>, with the flag set.\<close>

definition calm_rx1 :: "'d set \<Rightarrow> ('d \<Rightarrow> bool) \<Rightarrow> 'd can_state \<Rightarrow> 'd can_state \<Rightarrow> bool" where
  "calm_rx1 N rx1 s s' \<longleftrightarrow> calm N s s' \<and> rx1 (dev s')"

lemma calm_rx1_modify:
  assumes "normal_mode bus N" "rx1_sticks hw bus rx1" "calm_rx1 N rx1 s0 s" "r \<noteq> CANCTRL \<and> r \<noteq> CANINTE"
    "r = CANINTF \<Longrightarrow> bit m 1 \<Longrightarrow> bit v 1" "\<And>s'. calm_rx1 N rx1 s0 s' \<Longrightarrow> P s'"
  shows "ok (mcp2515_bit_modify bus r m v s) P"
proof -
  have c: "calm N s0 s" "rx1 (dev s)" using assms(3) by (simp_all add: calm_rx1_def)
  have "spares_rx1 [CMD_BIT_MODIFY, r, m, v]"
    using assms(4,5) by (auto simp: spares_rx1_def normal_cmd_def)
  from rx1_sends [OF assms(2) this c(2)]
  have "ok (mcp2515_bit_modify bus r m v s) (\<lambda>s'. rx1 (dev s'))"
    by (intro bit_modify_wp [OF calm_wf(1) [OF c(1)]]) (simp add: moved_dev)
  moreover have "ok (mcp2515_bit_modify bus r m v s) (calm N s0)"
    using assms(4) by (intro calm_modify [OF assms(1) c(1)]) simp_all
  ultimately show ?thesis
    by (rule ok_mono [OF ok_conj]) (simp add: assms(6) calm_rx1_def)
qed

lemma calm_rx1_read:
  assumes "normal_mode bus N" "rx1_sticks hw bus rx1" "calm_rx1 N rx1 s0 s"
    "\<And>s'. calm_rx1 N rx1 s0 s' \<Longrightarrow> P (answer bus [CMD_READ, r] 1 (dev s) ! 0, s')"
  shows "ok (mcp2515_read_reg bus r s) P"
proof -
  have c: "calm N s0 s" "rx1 (dev s)" using assms(3) by (simp_all add: calm_rx1_def)
  have "spares_rx1 [CMD_READ, r]" by (rule keeps_flags_spares) simp
  from rx1_sends [OF assms(2) this c(2)]
  have "ok (mcp2515_read_reg bus r s) (\<lambda>(v, s'). rx1 (dev s'))"
    by (intro read_reg_wp [OF calm_wf(1) [OF c(1)] normal_modeD(1) [OF assms(1)]]) (simp add: moved_dev)
  moreover have "ok (mcp2515_read_reg bus r s)
      (\<lambda>(v, s'). calm N s0 s' \<and> v = answer bus [CMD_READ, r] 1 (dev s) ! 0)"
    by (rule calm_read [OF assms(1) c(1)]) simp
  ultimately show ?thesis
    by (rule ok_mono [OF ok_conj]) (auto intro: assms(4) simp: calm_rx1_def simp del: One_nat_def)
qed

lemma report_error_rx1:
  assumes "normal_mode bus N" "rx1_sticks hw bus rx1" "calm_rx1 N rx1 s0 s" "\<And>s'. calm_rx1 N rx1 s0 s' \<Longrightarrow> P s'"
  shows "ok (report_error bus s) P"
proof -
  note m = calm_rx1_modify [OF assms(1,2)] and r = calm_rx1_read [OF assms(1,2)]
  show ?thesis
    unfolding report_error_def ok_bind
    by (rule r [OF assms(3)])
      (auto intro!: m assms(4) simp: ok_if bit_BIT split: if_splits)
qed

lemma report_message_error_rx1:
  assumes "normal_mode bus N" "rx1_sticks hw bus rx1" "calm_rx1 N rx1 s0 s" "\<And>s'. calm_rx1 N rx1 s0 s' \<Longrightarrow> P s'"
  shows "ok (report_message_error bus s) P"
proof -
  have "calm N s0 s" using assms(3) by (simp add: calm_rx1_def)
  then have "drop_bit 5 (answer bus [CMD_READ, CANSTAT] 1 (dev s) ! 0) = 0"
    using normal_modeD(4) [OF assms(1) calm_wf(2)] by simp
  then show ?thesis
    unfolding report_message_error_def get_mode_def ok_bind
    by (intro calm_rx1_read [OF assms(1-3)])
      (simp, erule calm_rx1_modify [OF assms(1,2)], simp_all add: assms(4) bit_BIT)
qed

lemma transmit_rx1:
  assumes "normal_mode bus N" "rx1_sticks hw bus rx1" "can_inv N s" "rx1 (dev s)"
  shows "ok (transmit_message bus tx s) (\<lambda>s'. rx1 (dev s'))"
proof -
  from assms(3) obtain q where q: "queues s = Some q" "can_queued q"
    and s: "port_wf s" "\<not> txb_lock s" "length (txb_cache s) = 3" "dev s \<in> N"
    by (auto simp: can_inv_def can_queued_def frame_fits_def)
  show ?thesis
  proof (rule transmit_message_wp [OF s(1,2) q s(3) normal_modeD(2) [OF assms(1)] s(4)])
    fix s1 s2 s' q'
    assume s1: "moved s (sends bus [CMD_BIT_MODIFY, CANINTF, push_bit TXIF_SHF tx, 0] 0 (dev s)) s1"
      and s2: "refilled bus (served tx [2, 1, 0]) q s1 q' s2"
      and s': "moved s2 (sends bus [CMD_RTS OR fold (\<lambda>i r. r OR BIT i)
         (take (length (tx_contents q)) (served tx [2, 1, 0])) 0] 0 (dev s2)) s'"
    have "rx1 (dev s1)"
      using rx1_sends [OF assms(2) clear_tx_spares assms(4)] by (simp add: moved_dev [OF s1])
    then have "rx1 (dev s2)"
      using s2 runs_spare [OF assms(2) _ load_list_spares [of "served tx [2, 1, 0]"]]
      by (simp add: refilled_def served_def)
    moreover have "spares_rx1 [CMD_RTS OR fold (\<lambda>i r. r OR BIT i)
         (take (length (tx_contents q)) (served tx [2, 1, 0])) 0]"
      by (rule rts_spares) (auto simp: served_def dest: in_set_takeD)
    ultimately show "rx1 (dev s')"
      using rx1_sends [OF assms(2)] by (simp add: moved_dev [OF s'])
  qed
qed

lemma receive_rx1:
  assumes "normal_mode bus N" "rx1_sticks hw bus rx1" "can_inv N s" "rx1 (dev s)" "frame_ok old"
  shows "ok (receive_message bus old rx s) (\<lambda>s'. rx1 (dev s'))"
proof -
  obtain q where q: "queues s = Some q" "mq_wf q" and s: "port_wf s" "dev s \<in> N"
    using assms(3) by (auto simp: can_inv_def)
  let ?n = "length (filter (\<lambda>i. rx AND BIT i \<noteq> 0) [0, 1])"
  obtain gs where gs: "received bus ?n old (dev s) = Some gs"
    using received_fits [OF assms(1) s(2) assms(5)] by blast
  have "spares_rx1 [CMD_READ_RXB]" by (simp add: spares_rx1_def normal_cmd_def)
  then have "rx1 (runs bus (replicate ?n ([CMD_READ_RXB], MAX_BUF_LEN)) (dev s))"
    by (intro runs_spare [OF assms(2,4)]) auto
  then show ?thesis
    by (intro receive_message_wp [OF s(1) normal_modeD(1) [OF assms(1)] q refl gs]) (simp add: moved_dev)
qed

lemma irq_handler_rx1:
  assumes "normal_mode bus N" "rx1_sticks hw bus rx1" "can_inv N s" "rx1 (dev s)" "frame_ok old"
  shows "ok (irq_handler bus old s) (\<lambda>s'. rx1 (dev s'))"
proof -
  let ?flags = "answer bus [CMD_READ, CANINTF] 1 (dev s) ! 0"
  let ?J = "calm_rx1 N rx1 s"
  let ?K = "\<lambda>s'. can_inv N s' \<and> rx1 (dev s')"
  have c: "?J s"
    using assms(3,4) by (auto simp: can_inv_def calm_rx1_def intro: calm_refl)
  have JK: "?K s'" if "?J s'" for s'
    using that can_inv_calm [OF assms(3)] by (auto simp: calm_rx1_def)
  have tm: "ok (transmit_message bus t s') ?K" if "?K s'" for t s'
    using that by (intro ok_conj transmit_rx1 [OF assms(1,2)] transmit_message_inv [OF assms(1)]) auto
  have rm: "ok (receive_message bus old t s') ?K" if "?K s'" for t s'
    using that by (intro ok_conj receive_rx1 [OF assms(1,2) _ _ assms(5)]
        receive_message_inv [OF assms(1) _ assms(5)]) auto
  have tx: "ok (if ?flags AND TXIF_MASK \<noteq> 0
        then transmit_message bus (drop_bit TXIF_SHF (?flags AND TXIF_MASK)) s' else Some s') ?K"
    if "?J s'" for s'
    by (rule ok_optI [where I = ?K, OF JK [OF that] tm [OF JK [OF that]]])
  have rx: "ok (if ?flags AND RXIF_MASK \<noteq> 0
        then receive_message bus old (?flags AND RXIF_MASK) s' else Some s') ?K" if "?K s'" for s'
    by (rule ok_optI [where I = ?K, OF that rm [OF that]])
  show ?thesis
    unfolding irq_handler_def
    apply (rule ok_bindI [where I = "\<lambda>(f, s'). f = ?flags \<and> ?J s'"])
     apply (rule calm_rx1_read [OF assms(1,2) c], simp)
    apply (clarify)
    apply (rule ok_bindI [where I = ?J])
     apply (rule ok_optI, assumption, erule report_message_error_rx1 [OF assms(1,2)], assumption)
    apply (rule ok_bindI [where I = ?J])
     apply (rule ok_optI, assumption, erule calm_rx1_modify [OF assms(1,2)], simp, simp add: bit_BIT, assumption)
    apply (rule ok_bindI [where I = ?J])
     apply (rule ok_optI, assumption, erule report_error_rx1 [OF assms(1,2)], assumption)
    apply (rule ok_bindI [OF tx], assumption)
    apply (rule ok_bindI [OF rx], assumption)
    apply (simp add: emit_def)
    done
qed

section \<open>At most one more interrupt\<close>

text \<open>
  The flag is set, and since \<open>e\<close> events had been emitted either no further one was, or one that is
  still unanswered, or one that has been answered with the pin low.
\<close>

definition last_int :: "'d can_hw \<Rightarrow> ('d \<Rightarrow> bool) \<Rightarrow> nat \<Rightarrow> 'd can_system \<Rightarrow> bool" where
  "last_int hw rx1 e x \<longleftrightarrow> rx1 (dev (driver x)) \<and>
     (emits (events (board x)) = e \<or>
      emits (events (board x)) = e + 1 \<and>
        (answers x = e \<or> answers x = e + 1 \<and> held_low hw (dev (driver x))))"

lemma last_int_step:
  assumes "sys_step rxb hw bus x y" "normal_mode bus N" "level_pin hw bus" "rx1_sticks hw bus rx1"
    "sys_inv N x" "last_int hw rx1 e x"
  shows "last_int hw rx1 e y"
proof -
  have inv: "can_inv N (driver x)" and set: "rx1 (dev (driver x))"
    using assms(5,6) by (simp_all add: sys_inv_def last_int_def)
  from assms(1) show ?thesis
  proof cases
    case deliver
    then have "answers x = emits (events (board x))" using assms(5) by (auto simp: sys_inv_def)
    then show ?thesis
      using deliver assms(3,4,6)
      by (auto simp: last_int_def sys_defs held_low_def level_pin_def rx1_sticks_def)
  next
    case (handle old s)
    have "answers x \<noteq> e + 1 \<or> emits (events (board x)) \<noteq> e + 1"
      using handle(2) assms(5) by (auto simp: sys_inv_def)
    with handle assms(6) okD [OF irq_handler_rx1 [OF assms(2,4) inv set handle(4)] handle(5)] show ?thesis
      by (auto simp: last_int_def)
  next
    case answer
    have "held_low hw (edge_clear hw (dev (driver x)))"
      using set assms(3,4) by (simp add: level_pin_def rx1_sticks_def)
    then show ?thesis
      using answer assms(4,5,6) by (auto simp: last_int_def sys_defs rx1_sticks_def)
  next
    case (hardware d)
    then show ?thesis using assms(3,4,6) by (auto simp: last_int_def level_pin_def rx1_sticks_def)
  next
    case (call s)
    have rxb: "spares_rx1 [CMD_READ_RXB]" by (simp add: spares_rx1_def normal_cmd_def)
    note quiet = can_call_quiet [where K = spares_rx1, OF call(2) assms(2) inv _ keeps_flags_spares rxb]
    from quiet [OF rx1_preserved(1) [OF assms(4)]] quiet [OF rx1_preserved(2) [OF assms(4)]] set
    show ?thesis using call(1) assms(6) by (auto simp: last_int_def quietly_def)
  qed
qed

lemma last_int_run:
  assumes "(sys_step rxb hw bus)\<^sup>*\<^sup>* x y" "normal_mode bus N" "hw_normal hw N" "level_pin hw bus"
    "rx1_sticks hw bus rx1" "sys_inv N x" "last_int hw rx1 e x"
  shows "last_int hw rx1 e y"
  using assms(1)
proof (induction rule: rtranclp_induct)
  case base
  show ?case by (rule assms(7))
next
  case (step y z)
  from sys_reach_inv [OF step(1) assms(2,3,6)] last_int_step [OF step(2) assms(2,4,5) _ step(3)]
  show ?case by blast
qed

text \<open>
  C10: Once a frame has arrived in the second receive buffer, the driver is served at most one more
  interrupt, ever. The handler reads the first buffer in its place and never clears its flag, which
  holds the pin low, and a pin held low makes no falling edge: whatever the controller does, and the
  applications with any call that does not leave normal mode, the GPIO server emits at most one further
  event. (\<^verbatim>\<open>can_recv_rxb\<close> is such a call and no way out: asked for the second buffer it, too, reads the
  first.)
\<close>

theorem second_buffer_stalls_driver:
  assumes "normal_mode bus N" "hw_normal hw N" "level_pin hw bus" "rx1_sticks hw bus rx1" "can_inv N s0"
    "emitted s0 = [Int_Reg_Callback]" "(sys_step rxb hw bus)\<^sup>*\<^sup>* (sys_start s0) x" "rx1 (dev (driver x))"
    "(sys_step rxb hw bus)\<^sup>*\<^sup>* x z"
  shows "emits (events (board z)) \<le> emits (events (board x)) + 1 \<and>
    handled z \<le> emits (events (board x)) + 1 \<and> rx1 (dev (driver z)) \<and> pin_low hw (dev (driver z))"
proof -
  have inv: "sys_inv N x"
    by (rule sys_reach_inv [OF assms(7,1,2) sys_start_inv [OF assms(5,6)]])
  have "last_int hw rx1 (emits (events (board x))) x" using assms(8) by (simp add: last_int_def)
  from last_int_run [OF assms(9,1-4) inv this] sys_reach_inv [OF assms(9,1,2) inv] assms(4)
  show ?thesis by (auto simp: last_int_def sys_inv_def rx1_sticks_def)
qed


text \<open>On the controller of \<open>Can_System\<close>: a frame arrives in the second buffer, and its interrupt is served.\<close>

lemma pin_rx1_sticks: "rx1_sticks pin_hw pin_bus (\<lambda>d. bit (raised d) 1)"
proof -
  have "bit (raised (sends pin_bus out r d)) 1 \<and> (\<not> latched d \<longrightarrow> \<not> latched (sends pin_bus out r d))"
    if "spares_rx1 out" "bit (raised d) 1" for out r d
    using that
    by (auto simp: sends_def pin_bus_def spares_rx1_def set_flags_def bit_simps split: list.splits)
  moreover have "raised d \<noteq> 0" if "bit (raised d) 1" for d
    using that by auto
  ultimately show ?thesis
    by (auto simp: rx1_sticks_def pin_hw_def set_flags_def bit_simps)
qed

definition pin_full :: "pin_dev can_system" where
  "pin_full = (sys_start pin_state)\<lparr>driver := pin_state\<lparr>dev := set_flags 2 (dev pin_state)\<rparr>\<rparr>"

lemma pin_full_step: "sys_step True pin_hw pin_bus (sys_start pin_state) pin_full"
proof -
  have "hw_step pin_hw (dev (driver (sys_start pin_state))) (set_flags 2 (dev pin_state))"
    by (auto simp: pin_hw_def pin_state_def sys_start_def intro!: exI [of _ 2])
  from sys_step.hardware [OF this] show ?thesis by (simp add: pin_full_def sys_start_def)
qed

lemma pin_full_state: "emits (events (board pin_full)) = 0" "bit (raised (dev (driver pin_full))) 1"
    "sys_step True pin_hw pin_bus pin_full (deliver_int pin_hw pin_full)"
    "emits (events (board (deliver_int pin_hw pin_full))) = 1" "handled (deliver_int pin_hw pin_full) = 0"
    "answers (deliver_int pin_hw pin_full) = 0"
proof -
  have "acks (events (board pin_full)) = delivered (board pin_full)"
    by (simp add: pin_full_def sys_start_def line_init_def gpio_pre_init_def acks_def)
  then show "sys_step True pin_hw pin_bus pin_full (deliver_int pin_hw pin_full)" by (rule sys_step.deliver)
qed (simp_all add: pin_full_def sys_start_def line_init_def gpio_pre_init_def emits_def set_flags_def
    bit_numeral_rec deliver_int_def Let_def irq_grp5_int_handle_def pin_hw_def pin_state_def handled_def)

theorem second_buffer_stalls_driver_witness:
  "\<exists>z. (sys_step True pin_hw pin_bus)\<^sup>*\<^sup>* pin_full z \<and> handled z = 1 \<and> answers z = 1 \<and>
     pin_low pin_hw (dev (driver z)) \<and> emits (events (board (deliver_int pin_hw z))) = 1"
proof -
  let ?y = "deliver_int pin_hw pin_full"
  note start = sys_start_inv [OF pin_state_inv]
  have reach: "(sys_step True pin_hw pin_bus)\<^sup>*\<^sup>* (sys_start pin_state) pin_full" using pin_full_step by blast
  have inv: "sys_inv UNIV ?y"
    using sys_step_inv [OF pin_full_state(3) pin_bus_normal pin_hw_normal]
      sys_step_inv [OF pin_full_step pin_bus_normal pin_hw_normal start] by blast
  obtain s where s: "sys_step True pin_hw pin_bus ?y (?y\<lparr>driver := s\<rparr>)" "handled (?y\<lparr>driver := s\<rparr>) = handled ?y + 1"
    by (rule handler_runs [OF pin_bus_normal inv]) (simp_all add: pin_full_state)
  let ?x = "?y\<lparr>driver := s\<rparr>" and ?z = "answer_int pin_hw (?y\<lparr>driver := s\<rparr>)"
  have x: "sys_inv UNIV ?x" "answers ?x < handled ?x"
    using sys_step_inv [OF s(1) pin_bus_normal pin_hw_normal inv] s(2) pin_full_state by simp_all
  have z: "sys_step True pin_hw pin_bus ?x ?z" by (rule answer_step [OF x])
  have zinv: "sys_inv UNIV ?z" by (rule sys_step_inv [OF z pin_bus_normal pin_hw_normal x(1)])
  have counts: "handled ?z = 1" "answers ?z = 1" "emits (events (board ?z)) = 1"
    using s(2) pin_full_state by (simp_all add: sys_defs)
  then have "acks (events (board ?z)) = delivered (board ?z)" using zinv by (simp add: sys_inv_def)
  then have d: "sys_step True pin_hw pin_bus ?z (deliver_int pin_hw ?z)" by (rule sys_step.deliver)
  have to_z: "(sys_step True pin_hw pin_bus)\<^sup>*\<^sup>* pin_full ?z"
    using pin_full_state(3) s(1) z by (meson r_into_rtranclp rtranclp.rtrancl_into_rtrancl)
  then have to_d: "(sys_step True pin_hw pin_bus)\<^sup>*\<^sup>* pin_full (deliver_int pin_hw ?z)"
    using d by (rule rtranclp.rtrancl_into_rtrancl)
  note stall = second_buffer_stalls_driver [OF pin_bus_normal pin_hw_normal pin_level pin_rx1_sticks
      pin_state_inv reach pin_full_state(2)]
  have "emits (events (board ?z)) \<le> emits (events (board (deliver_int pin_hw ?z)))"
    by (simp add: sys_defs)
  with stall [OF to_z] stall [OF to_d] to_z counts pin_full_state(1) show ?thesis
    by (intro exI [of _ ?z]) simp
qed

end
