(* ===== verification/Mmio.thy ===== *)
theory Mmio
  imports Prelude
begin

text \<open>
  Memory mapped device registers, as the clock, UART and forwarding components use them. The device
  is not code of the repository: what a read returns and does, and what a write does, are the
  parameters \<open>rd\<close> and \<open>wr\<close>. Every access is recorded in the order the code makes it, because the
  properties of these components are about which registers are touched, and in which order. An
  access through a misaligned 32-bit pointer has no defined result.

  The second part is the contract of the \<^verbatim>\<open>gen_fwd\<close> interface, which two components provide: they
  let a less trusted virtual machine reach a device through a filter.
\<close>

datatype access = Rd nat | Wr nat u32

record 'd mmio =
  device :: 'd
  accesses :: "access list"

definition reg_read :: "(nat \<Rightarrow> 'd \<Rightarrow> u32 \<times> 'd) \<Rightarrow> nat \<Rightarrow> 'd mmio \<Rightarrow> (u32 \<times> 'd mmio) option" where
  "reg_read rd a m = do {
     c_assert (a mod 4 = 0);
     let (v, d) = rd a (device m);
     Some (v, m\<lparr>device := d, accesses := accesses m @ [Rd a]\<rparr>)
   }"

definition reg_write :: "(nat \<Rightarrow> u32 \<Rightarrow> 'd \<Rightarrow> 'd) \<Rightarrow> nat \<Rightarrow> u32 \<Rightarrow> 'd mmio \<Rightarrow> 'd mmio option" where
  "reg_write wr a v m = do {
     c_assert (a mod 4 = 0);
     Some (m\<lparr>device := wr a v (device m), accesses := accesses m @ [Wr a v]\<rparr>)
   }"

lemma reg_read_aligned [simp]:
  "a mod 4 = 0 \<Longrightarrow> reg_read rd a m = Some (fst (rd a (device m)),
     m\<lparr>device := snd (rd a (device m)), accesses := accesses m @ [Rd a]\<rparr>)"
  by (simp add: reg_read_def split_beta)

lemma reg_write_aligned [simp]:
  "a mod 4 = 0 \<Longrightarrow> reg_write wr a v m =
     Some (m\<lparr>device := wr a v (device m), accesses := accesses m @ [Wr a v]\<rparr>)"
  by (simp add: reg_write_def)

lemma reg_read_misaligned: "a mod 4 \<noteq> 0 \<Longrightarrow> reg_read rd a m = None"
  by (simp add: reg_read_def)

text \<open>The simplest device: registers that keep what is written to them.\<close>

definition ram_rd :: "nat \<Rightarrow> (nat \<Rightarrow> u32) \<Rightarrow> u32 \<times> (nat \<Rightarrow> u32)" where
  "ram_rd a d = (d a, d)"

definition ram_wr :: "nat \<Rightarrow> u32 \<Rightarrow> (nat \<Rightarrow> u32) \<Rightarrow> nat \<Rightarrow> u32" where
  "ram_wr a v d = d(a := v)"

section \<open>The contract of a forwarding filter\<close>

datatype fwd_request = Fwd_read u32 | Fwd_write u32 u32

fun fwd_addr :: "fwd_request \<Rightarrow> u32" where
  "fwd_addr (Fwd_read a) = a"
| "fwd_addr (Fwd_write a v) = a"

definition touched :: "'d mmio \<Rightarrow> 'd mmio \<Rightarrow> access list \<Rightarrow> bool" where
  "touched m m' accs \<longleftrightarrow> accesses m' = accesses m @ accs"

fun fwd_step ::
  "(u32 \<Rightarrow> 'd mmio \<Rightarrow> (u32 \<times> 'd mmio) option) \<Rightarrow> (u32 \<Rightarrow> u32 \<Rightarrow> 'd mmio \<Rightarrow> 'd mmio option) \<Rightarrow>
   fwd_request \<Rightarrow> 'd mmio \<Rightarrow> (u32 option \<times> 'd mmio) option" where
  "fwd_step r w (Fwd_read a) m = map_option (map_prod Some id) (r a m)"
| "fwd_step r w (Fwd_write a v) m = map_option (Pair None) (w a v m)"

text \<open>
  \<open>ok_addr\<close>: the addresses at which the provider has a defined result; \<open>permitted\<close>: the accesses
  it may make. What the guest can do to the device is then bounded for whole sessions.
\<close>

locale forwarder =
  fixes read_op :: "u32 \<Rightarrow> 'd mmio \<Rightarrow> (u32 \<times> 'd mmio) option"
    and write_op :: "u32 \<Rightarrow> u32 \<Rightarrow> 'd mmio \<Rightarrow> 'd mmio option"
    and ok_addr :: "u32 \<Rightarrow> bool"
    and permitted :: "access \<Rightarrow> bool"
  assumes read_permitted: "ok_addr a \<Longrightarrow>
      ok (read_op a m) (\<lambda>(v, m'). \<exists>accs. touched m m' accs \<and> list_all permitted accs)"
    and write_permitted: "ok_addr a \<Longrightarrow>
      ok (write_op a v m) (\<lambda>m'. \<exists>accs. touched m m' accs \<and> list_all permitted accs)"
begin

lemma step_permitted:
  assumes "ok_addr (fwd_addr q)"
  shows "\<exists>r m'. fwd_step read_op write_op q m = Some (r, m') \<and>
    (\<exists>accs. touched m m' accs \<and> list_all permitted accs)"
proof (cases q)
  case (Fwd_read a)
  with assms read_permitted [of a m] show ?thesis by (auto simp: ok_def)
next
  case (Fwd_write a v)
  with assms write_permitted [of a v m] show ?thesis by (auto simp: ok_def)
qed

lemma session_permitted:
  assumes "list_all (\<lambda>q. ok_addr (fwd_addr q)) qs"
  shows "\<exists>rs m'. run_ops (fwd_step read_op write_op) qs m = Some (rs, m') \<and>
    (\<exists>accs. touched m m' accs \<and> list_all permitted accs)"
  using assms
proof (induction qs arbitrary: m)
  case Nil
  then show ?case by (auto simp: touched_def intro: exI [of _ "[]"])
next
  case (Cons q qs)
  from Cons.prems obtain r m1 accs1 where 1: "fwd_step read_op write_op q m = Some (r, m1)"
      "touched m m1 accs1" "list_all permitted accs1"
    using step_permitted [of q m] by auto
  from Cons obtain rs m2 accs2 where 2: "run_ops (fwd_step read_op write_op) qs m1 = Some (rs, m2)"
      "touched m1 m2 accs2" "list_all permitted accs2"
    by fastforce
  have "touched m m2 (accs1 @ accs2)" "list_all permitted (accs1 @ accs2)"
    using 1 2 by (simp_all add: touched_def)
  with 1(1) 2(1) show ?case by auto
qed

end

end
