(* ===== verification/Clkcar.thy ===== *)
theory Clkcar
  imports Mmio
begin

text \<open>
  The clock and reset controller component, \<^verbatim>\<open>components/clkcar/src/clkcar.c\<close>: it starts the
  clocks of SPI1 and of the UARTs A to C. Registers are addressed by their offset from the
  component's dataport \<^verbatim>\<open>clkcar_reg\<close>, whose address is the argument \<open>base\<close>; the numbers of the
  UARTs (\<^verbatim>\<open>NV_UARTA_ASYNC\<close> and so on, from libplatsupport) are parameters.
\<close>

abbreviation (input) CLK_RST_CONTROLLER_RST_DEVICES_H_0_OFFSET :: nat where
  "CLK_RST_CONTROLLER_RST_DEVICES_H_0_OFFSET \<equiv> 0x8"
abbreviation (input) SWR_SPI1_RST_SHIFT :: nat where "SWR_SPI1_RST_SHIFT \<equiv> 9"
abbreviation (input) CLK_RST_CONTROLLER_CLK_OUT_ENB_H_0 :: nat where
  "CLK_RST_CONTROLLER_CLK_OUT_ENB_H_0 \<equiv> 0x14"
abbreviation (input) CLK_ENB_SPI1_SHIFT :: nat where "CLK_ENB_SPI1_SHIFT \<equiv> 9"
abbreviation (input) CLK_ENB_SPI1 :: u32 where "CLK_ENB_SPI1 \<equiv> BIT 9"
abbreviation (input) CLK_RST_CONTROLLER_CLK_SOURCE_SPI1_0_OFFSET :: nat where
  "CLK_RST_CONTROLLER_CLK_SOURCE_SPI1_0_OFFSET \<equiv> 0x134"
abbreviation (input) CLK_RST_CONTROLLER_CLK_SOURCE_SHIFT :: nat where
  "CLK_RST_CONTROLLER_CLK_SOURCE_SHIFT \<equiv> 29"

abbreviation (input) TK1_RESET_DEVICES_L0_UARTA_SHIFT :: nat where "TK1_RESET_DEVICES_L0_UARTA_SHIFT \<equiv> 6"
abbreviation (input) TK1_RESET_DEVICES_L0_UARTB_SHIFT :: nat where "TK1_RESET_DEVICES_L0_UARTB_SHIFT \<equiv> 7"
abbreviation (input) TK1_RESET_DEVICES_H0_UARTC_SHIFT :: nat where "TK1_RESET_DEVICES_H0_UARTC_SHIFT \<equiv> 23"
abbreviation (input) TK1_CLKOUT_ENABLE_L0_UARTA_SHIFT :: nat where "TK1_CLKOUT_ENABLE_L0_UARTA_SHIFT \<equiv> 6"
abbreviation (input) TK1_CLKOUT_ENABLE_L0_UARTB_SHIFT :: nat where "TK1_CLKOUT_ENABLE_L0_UARTB_SHIFT \<equiv> 7"
abbreviation (input) TK1_CLKOUT_ENABLE_H0_UARTC_SHIFT :: nat where "TK1_CLKOUT_ENABLE_H0_UARTC_SHIFT \<equiv> 23"

section \<open>SPI clock\<close>

text \<open>\<^verbatim>\<open>local_clkcar_reg\<close> is null until the component is initialised.\<close>

definition clkcar_init :: "nat \<Rightarrow> nat option" where
  "clkcar_init clkcar_reg = Some clkcar_reg"

definition clkcar_spi_clk_init ::
  "(nat \<Rightarrow> 'd \<Rightarrow> u32 \<times> 'd) \<Rightarrow> (nat \<Rightarrow> u32 \<Rightarrow> 'd \<Rightarrow> 'd) \<Rightarrow> nat option \<Rightarrow> 'd mmio \<Rightarrow> 'd mmio option" where
  "clkcar_spi_clk_init rd wr local_clkcar_reg m = do {
     base \<leftarrow> local_clkcar_reg;
     (clk_reset_reg, m) \<leftarrow> reg_read rd (base + CLK_RST_CONTROLLER_RST_DEVICES_H_0_OFFSET) m;
     let clk_reset_reg = clk_reset_reg OR BIT SWR_SPI1_RST_SHIFT;
     m \<leftarrow> reg_write wr (base + CLK_RST_CONTROLLER_RST_DEVICES_H_0_OFFSET) clk_reset_reg m;
     (clk_enb_reg, m) \<leftarrow> reg_read rd (base + CLK_RST_CONTROLLER_CLK_OUT_ENB_H_0) m;
     let clk_enb_reg = clk_enb_reg OR CLK_ENB_SPI1;
     m \<leftarrow> reg_write wr (base + CLK_RST_CONTROLLER_CLK_OUT_ENB_H_0) clk_enb_reg m;
     (clk_source_spi_reg, m) \<leftarrow> reg_read rd (base + CLK_RST_CONTROLLER_CLK_SOURCE_SPI1_0_OFFSET) m;
     let clk_source_spi_reg = clk_source_spi_reg OR push_bit CLK_RST_CONTROLLER_CLK_SOURCE_SHIFT 6;
     let clk_source_spi_reg = clk_source_spi_reg OR 1;
     m \<leftarrow> reg_write wr (base + CLK_RST_CONTROLLER_CLK_SOURCE_SPI1_0_OFFSET) clk_source_spi_reg m;
     (clk_reset_reg, m) \<leftarrow> reg_read rd (base + CLK_RST_CONTROLLER_RST_DEVICES_H_0_OFFSET) m;
     let clk_reset_reg = clk_reset_reg AND NOT (BIT SWR_SPI1_RST_SHIFT);
     reg_write wr (base + CLK_RST_CONTROLLER_RST_DEVICES_H_0_OFFSET) clk_reset_reg m
   }"

section \<open>UART clocks\<close>

definition tk1_clk_source_uart_encode :: "u8 \<Rightarrow> u16 \<Rightarrow> bool \<Rightarrow> u32" where
  "tk1_clk_source_uart_encode clksource divisor enable_divisor =
     push_bit 29 (ucast clksource AND 0x7) OR push_bit 24 (of_bool enable_divisor AND 0x1) OR
     (ucast divisor AND 0xFF)"

definition clock_uart_init ::
  "(nat \<Rightarrow> 'd \<Rightarrow> u32 \<times> 'd) \<Rightarrow> (nat \<Rightarrow> u32 \<Rightarrow> 'd \<Rightarrow> 'd) \<Rightarrow>
   nat \<Rightarrow> nat \<Rightarrow> nat \<Rightarrow> nat \<Rightarrow> nat \<Rightarrow> 'd mmio \<Rightarrow> 'd mmio option" where
  "clock_uart_init rd wr car_reset_reg car_reset_reg_shift car_clkout_reg car_clkout_reg_shift
      car_clksrc_switch_reg m = do {
     (car_reset_regval, m) \<leftarrow> reg_read rd car_reset_reg m;
     let car_reset_regval = car_reset_regval OR BIT car_reset_reg_shift;
     m \<leftarrow> reg_write wr car_reset_reg car_reset_regval m;
     (car_clkout_regval, m) \<leftarrow> reg_read rd car_clkout_reg m;
     let car_clkout_regval = car_clkout_regval AND NOT (BIT car_clkout_reg_shift);
     m \<leftarrow> reg_write wr car_clkout_reg car_clkout_regval m;
     let car_clksrc_switch_regval = tk1_clk_source_uart_encode 0 2 False;
     m \<leftarrow> reg_write wr car_clksrc_switch_reg car_clksrc_switch_regval m;
     (car_clkout_regval, m) \<leftarrow> reg_read rd car_clkout_reg m;
     let car_clkout_regval = car_clkout_regval OR BIT car_clkout_reg_shift;
     m \<leftarrow> reg_write wr car_clkout_reg car_clkout_regval m;
     (car_reset_regval, m) \<leftarrow> reg_read rd car_reset_reg m;
     let car_reset_regval = car_reset_regval AND NOT (BIT car_reset_reg_shift);
     reg_write wr car_reset_reg car_reset_regval m
   }"

text \<open>The fields of \<^verbatim>\<open>tk1_car_regs_t\<close>, by the offsets that the comments of the struct give.\<close>

datatype car_reg =
    Car_rst_devices_l0 | Car_rst_devices_h0 | Car_rst_devices_u0
  | Car_clkout_enable_l0 | Car_clkout_enable_h0 | Car_clkout_enable_u0
  | Car_clk_source_uarta | Car_clk_source_uartb | Car_clk_source_uartc | Car_clk_source_uartd

fun car_offset :: "car_reg \<Rightarrow> nat" where
  "car_offset Car_rst_devices_l0 = 4"
| "car_offset Car_rst_devices_h0 = 8"
| "car_offset Car_rst_devices_u0 = 12"
| "car_offset Car_clkout_enable_l0 = 16"
| "car_offset Car_clkout_enable_h0 = 20"
| "car_offset Car_clkout_enable_u0 = 24"
| "car_offset Car_clk_source_uarta = 0x178"
| "car_offset Car_clk_source_uartb = 0x17C"
| "car_offset Car_clk_source_uartc = 0x1A0"
| "car_offset Car_clk_source_uartd = 0x1C0"

definition get_car_regs :: "nat \<Rightarrow> car_reg \<Rightarrow> nat" where
  "get_car_regs dataport r = dataport + car_offset r"

definition clock_uarta_init ::
  "(nat \<Rightarrow> 'd \<Rightarrow> u32 \<times> 'd) \<Rightarrow> (nat \<Rightarrow> u32 \<Rightarrow> 'd \<Rightarrow> 'd) \<Rightarrow> nat \<Rightarrow> 'd mmio \<Rightarrow> 'd mmio option" where
  "clock_uarta_init rd wr clkcar_reg =
     clock_uart_init rd wr
       (get_car_regs clkcar_reg Car_rst_devices_l0) TK1_RESET_DEVICES_L0_UARTA_SHIFT
       (get_car_regs clkcar_reg Car_clkout_enable_l0) TK1_CLKOUT_ENABLE_L0_UARTA_SHIFT
       (get_car_regs clkcar_reg Car_clk_source_uarta)"

definition clock_uartb_init ::
  "(nat \<Rightarrow> 'd \<Rightarrow> u32 \<times> 'd) \<Rightarrow> (nat \<Rightarrow> u32 \<Rightarrow> 'd \<Rightarrow> 'd) \<Rightarrow> nat \<Rightarrow> 'd mmio \<Rightarrow> 'd mmio option" where
  "clock_uartb_init rd wr clkcar_reg =
     clock_uart_init rd wr
       (get_car_regs clkcar_reg Car_rst_devices_l0) TK1_RESET_DEVICES_L0_UARTB_SHIFT
       (get_car_regs clkcar_reg Car_clkout_enable_l0) TK1_CLKOUT_ENABLE_L0_UARTB_SHIFT
       (get_car_regs clkcar_reg Car_clk_source_uartb)"

definition clock_uartc_init ::
  "(nat \<Rightarrow> 'd \<Rightarrow> u32 \<times> 'd) \<Rightarrow> (nat \<Rightarrow> u32 \<Rightarrow> 'd \<Rightarrow> 'd) \<Rightarrow> nat \<Rightarrow> 'd mmio \<Rightarrow> 'd mmio option" where
  "clock_uartc_init rd wr clkcar_reg =
     clock_uart_init rd wr
       (get_car_regs clkcar_reg Car_rst_devices_h0) TK1_RESET_DEVICES_H0_UARTC_SHIFT
       (get_car_regs clkcar_reg Car_clkout_enable_h0) TK1_CLKOUT_ENABLE_H0_UARTC_SHIFT
       (get_car_regs clkcar_reg Car_clk_source_uartc)"

text \<open>The numbers of the UARTs in libplatsupport.\<close>

record uart_ids =
  NV_UARTA_ASYNC :: int
  NV_UARTB_ASYNC :: int
  NV_UARTC_ASYNC :: int
  NV_UARTD_ASYNC :: int

definition clkcar_uart_clk_init ::
  "uart_ids \<Rightarrow> (nat \<Rightarrow> 'd \<Rightarrow> u32 \<times> 'd) \<Rightarrow> (nat \<Rightarrow> u32 \<Rightarrow> 'd \<Rightarrow> 'd) \<Rightarrow> nat \<Rightarrow> int \<Rightarrow>
   'd mmio \<Rightarrow> (int \<times> 'd mmio) option" where
  "clkcar_uart_clk_init ids rd wr clkcar_reg uart m = do {
     c_assert (NV_UARTA_ASYNC ids \<le> uart \<and> uart < NV_UARTD_ASYNC ids);
     m \<leftarrow> (if uart = NV_UARTA_ASYNC ids then clock_uarta_init rd wr clkcar_reg m
           else if uart = NV_UARTB_ASYNC ids then clock_uartb_init rd wr clkcar_reg m
           else clock_uartc_init rd wr clkcar_reg m);
     Some (0, m)
   }"

section \<open>What is programmed\<close>

text \<open>Registers that keep what is written, and \<open>base\<close> a word address.\<close>

lemma set_clear_bit: "(w OR BIT k) AND NOT (BIT k) = (w AND NOT (BIT k) :: u32)"
  by (rule bit_word_eqI) (auto simp: bit_and_iff bit_or_iff bit_not_iff)

lemma clear_set_bit: "(w AND NOT (BIT k)) OR BIT k = (w OR BIT k :: u32)"
  by (rule bit_word_eqI) (auto simp: bit_and_iff bit_or_iff bit_not_iff bit_BIT)

lemma uart_source: "tk1_clk_source_uart_encode 0 2 False = 2"
  by (simp add: tk1_clk_source_uart_encode_def)

lemma clock_uart_init_ram:
  assumes "rst mod 4 = 0" "clk mod 4 = 0" "src mod 4 = 0" "distinct [rst, clk, src]"
  shows "clock_uart_init ram_rd ram_wr rst i clk j src m =
    Some (m\<lparr>device := (device m)(rst := device m rst AND NOT (BIT i), clk := device m clk OR BIT j, src := 2),
      accesses := accesses m @
        [Rd rst, Wr rst (device m rst OR BIT i), Rd clk, Wr clk (device m clk AND NOT (BIT j)), Wr src 2,
         Rd clk, Wr clk (device m clk OR BIT j), Rd rst, Wr rst (device m rst AND NOT (BIT i))]\<rparr>)"
  using assms
  by (cases m) (auto simp: clock_uart_init_def ram_rd_def ram_wr_def uart_source set_clear_bit
      clear_set_bit Let_def fun_eq_iff)

text \<open>The reset, clock and source registers of a UART, with its bit in the first two.\<close>

definition uart_clock_regs :: "uart_ids \<Rightarrow> int \<Rightarrow> nat \<times> nat \<times> nat \<times> nat" where
  "uart_clock_regs ids uart =
     (if uart = NV_UARTA_ASYNC ids then (0x4, 0x10, 0x178, 6)
      else if uart = NV_UARTB_ASYNC ids then (0x4, 0x10, 0x17C, 7)
      else (0x8, 0x14, 0x1A0, 23))"

text \<open>
  C30: Starting the clock of a UART touches three registers in the order that is safe for the
  hardware: the UART is put into reset, its clock is stopped, the source is switched, and only then
  are clock and UART let go again. Every other bit of the shared registers keeps its value.
\<close>

theorem uart_clk_init_sequence:
  assumes "NV_UARTA_ASYNC ids \<le> uart" "uart < NV_UARTD_ASYNC ids" "base mod 4 = 0"
    and regs: "uart_clock_regs ids uart = (rst, clk, src, i)"
  shows "clkcar_uart_clk_init ids ram_rd ram_wr base uart m = Some (0,
    m\<lparr>device := (device m)(base + rst := device m (base + rst) AND NOT (BIT i),
        base + clk := device m (base + clk) OR BIT i, base + src := 2),
      accesses := accesses m @
        [Rd (base + rst), Wr (base + rst) (device m (base + rst) OR BIT i),
         Rd (base + clk), Wr (base + clk) (device m (base + clk) AND NOT (BIT i)),
         Wr (base + src) 2,
         Rd (base + clk), Wr (base + clk) (device m (base + clk) OR BIT i),
         Rd (base + rst), Wr (base + rst) (device m (base + rst) AND NOT (BIT i))]\<rparr>)"
proof -
  have al: "(base + k) mod 4 = 0" if "k mod 4 = 0" for k
    using assms(3) that by presburger
  have "clkcar_uart_clk_init ids ram_rd ram_wr base uart m =
      do { m \<leftarrow> clock_uart_init ram_rd ram_wr (base + rst) i (base + clk) i (base + src) m; Some (0, m) }"
    using assms(1,2) regs
    by (auto simp: clkcar_uart_clk_init_def clock_uarta_init_def clock_uartb_init_def
         clock_uartc_init_def get_car_regs_def uart_clock_regs_def split: if_splits)
  moreover have "rst mod 4 = 0" "clk mod 4 = 0" "src mod 4 = 0" "distinct [rst, clk, src]"
    using regs by (auto simp: uart_clock_regs_def split: if_splits)
  ultimately show ?thesis
    using clock_uart_init_ram [OF al al al, of rst clk src i i m] by simp
qed

definition sample_ids :: uart_ids where
  "sample_ids = \<lparr>NV_UARTA_ASYNC = 4, NV_UARTB_ASYNC = 5, NV_UARTC_ASYNC = 6, NV_UARTD_ASYNC = 7\<rparr>"

theorem uart_clk_init_sequence_witness:
  "clkcar_uart_clk_init sample_ids ram_rd ram_wr 0 5 \<lparr>device = (\<lambda>_. 0x80), accesses = []\<rparr> =
     Some (0, \<lparr>device = (\<lambda>_. 0x80)(4 := 0x80 AND NOT (BIT 7), 16 := 0x80 OR BIT 7, 0x17C := 2),
       accesses = [Rd 4, Wr 4 (0x80 OR BIT 7), Rd 16, Wr 16 (0x80 AND NOT (BIT 7)), Wr 0x17C 2,
         Rd 16, Wr 16 (0x80 OR BIT 7), Rd 4, Wr 4 (0x80 AND NOT (BIT 7))]\<rparr>)"
proof -
  have "uart_clock_regs sample_ids 5 = (4, 16, 0x17C, 7)"
    by (simp add: uart_clock_regs_def sample_ids_def)
  from uart_clk_init_sequence [OF _ _ _ this, of 0 "\<lparr>device = (\<lambda>_. 0x80), accesses = []\<rparr>"] show ?thesis
    by (simp add: sample_ids_def)
qed

lemma spi_clk_init_ram:
  assumes "base mod 4 = 0"
  shows "clkcar_spi_clk_init ram_rd ram_wr (clkcar_init base) m =
    Some (m\<lparr>device := (device m)(base + 0x8 := device m (base + 0x8) AND NOT (BIT 9),
        base + 0x14 := device m (base + 0x14) OR BIT 9,
        base + 0x134 := device m (base + 0x134) OR 0xC0000001),
      accesses := accesses m @
        [Rd (base + 0x8), Wr (base + 0x8) (device m (base + 0x8) OR BIT 9),
         Rd (base + 0x14), Wr (base + 0x14) (device m (base + 0x14) OR BIT 9),
         Rd (base + 0x134), Wr (base + 0x134) (device m (base + 0x134) OR 0xC0000001),
         Rd (base + 0x8), Wr (base + 0x8) (device m (base + 0x8) AND NOT (BIT 9))]\<rparr>)"
proof -
  have al: "(base + k) mod 4 = 0" if "k mod 4 = 0" for k
    using assms that by presburger
  have "(base + 0x8) mod 4 = 0" "(base + 0x14) mod 4 = 0" "(base + 0x134) mod 4 = 0"
    by (rule al, simp)+
  then show ?thesis
    by (cases m) (auto simp: clkcar_spi_clk_init_def clkcar_init_def ram_rd_def ram_wr_def
        set_clear_bit or.assoc Let_def fun_eq_iff)
qed

lemma drop_bit_eq_six: "drop_bit k w = (6 :: u32) \<longleftrightarrow> (\<forall>n. bit w (k + n) \<longleftrightarrow> n = 1 \<or> n = 2)"
proof -
  have six: "bit (6 :: u32) n \<longleftrightarrow> n = 1 \<or> n = 2" for n
  proof -
    have "(6 :: u32) = BIT 2 OR BIT 1" by (simp add: BIT_def)
    then show ?thesis by (auto simp only: bit_or_iff bit_BIT) simp_all
  qed
  have drop: "bit (drop_bit k w) n \<longleftrightarrow> bit w (k + n)" for n
    by (simp add: bit_drop_bit_eq)
  show ?thesis
  proof
    assume "drop_bit k w = 6"
    then show "\<forall>n. bit w (k + n) \<longleftrightarrow> n = 1 \<or> n = 2" by (metis drop six)
  next
    assume "\<forall>n. bit w (k + n) \<longleftrightarrow> n = 1 \<or> n = 2"
    then show "drop_bit k w = 6" by (intro bit_word_eqI) (simp only: drop six)
  qed
qed

lemma or_one_eq_one: "w OR 1 = 1 \<longleftrightarrow> w = 0 \<or> w = (1 :: u32)"
proof
  assume h: "w OR 1 = 1"
  have "\<not> bit w n" if "0 < n" for n
    using arg_cong [OF h, of "\<lambda>x. bit x n"] that by (simp add: bit_or_iff bit_1_iff)
  then have "w = of_bool (bit w 0)"
    by (intro bit_word_eqI) (metis bit_0 bit_of_bool_iff gr0I)
  then show "w = 0 \<or> w = 1" by (cases "bit w 0") simp_all
qed auto

text \<open>
  Starting the clock of SPI1 works on the values the registers have: it ends with the controller
  out of reset and its clock enabled, but the source and the divider are only or-ed in. The source
  field becomes 6 exactly when its lowest bit was clear, and the divider becomes 1 exactly when it
  was 0 or 1 before.
\<close>

theorem spi_clk_init_ors:
  assumes "base mod 4 = 0"
  shows "ok (clkcar_spi_clk_init ram_rd ram_wr (clkcar_init base) m) (\<lambda>m'.
    \<not> bit (device m' (base + 0x8)) 9 \<and> bit (device m' (base + 0x14)) 9 \<and>
    (drop_bit 29 (device m' (base + 0x134)) = 6 \<longleftrightarrow> \<not> bit (device m (base + 0x134)) 29) \<and>
    (device m' (base + 0x134) AND 0xFF = 1 \<longleftrightarrow> device m (base + 0x134) AND 0xFF \<in> {0, 1}))"
proof -
  let ?old = "device m (base + 0x134)"
  have c: "(0xC0000001 :: u32) = BIT 31 OR BIT 30 OR BIT 0"
    by (simp add: BIT_def)
  have bits: "bit (?old OR 0xC0000001) i \<longleftrightarrow> bit ?old i \<or> i = 0 \<or> i = 30 \<or> i = 31" for i
    unfolding c by (auto simp: bit_or_iff bit_BIT)
  have "drop_bit 29 (?old OR 0xC0000001) = 6 \<longleftrightarrow>
      (\<forall>n. bit (?old OR 0xC0000001) (29 + n) \<longleftrightarrow> n = 1 \<or> n = 2)"
    by (rule drop_bit_eq_six)
  also have "\<dots> \<longleftrightarrow> \<not> bit ?old 29"
  proof
    assume h: "\<not> bit ?old 29"
    have "bit ?old (29 + n) \<Longrightarrow> n = 1 \<or> n = 2" for n
      using bit_imp_le_length [of ?old "29 + n"] h by (cases n) auto
    then show "\<forall>n. bit (?old OR 0xC0000001) (29 + n) \<longleftrightarrow> n = 1 \<or> n = 2"
      unfolding bits by auto
  qed (auto simp: bits dest: spec [of _ 0])
  finally have src: "drop_bit 29 (?old OR 0xC0000001) = 6 \<longleftrightarrow> \<not> bit ?old 29" .
  have "(?old OR 0xC0000001) AND 0xFF = (?old AND 0xFF) OR 1"
    by (simp add: bit.conj_disj_distrib2)
  moreover have "w OR 1 = 1 \<longleftrightarrow> w \<in> {0, 1}" for w :: u32
    using or_one_eq_one [of w] by auto
  ultimately have dv: "(?old OR 0xC0000001) AND 0xFF = 1 \<longleftrightarrow> ?old AND 0xFF \<in> {0, 1}"
    by simp
  show ?thesis
    using src dv by (simp add: spi_clk_init_ram [OF assms] bit_and_iff bit_or_iff bit_not_iff bit_BIT)
qed

theorem spi_clk_init_ors_witness:
  "ok (clkcar_spi_clk_init ram_rd ram_wr (clkcar_init 0) \<lparr>device = (\<lambda>_. 0x20000000), accesses = []\<rparr>)
     (\<lambda>m'. bit (device m' 0x14) 9 \<and> drop_bit 29 (device m' 0x134) \<noteq> 6)"
proof -
  have "bit (0x20000000 :: u32) 29"
    using bit_BIT [where 'a = 32, of 29 29] by (simp add: BIT_def)
  then show ?thesis
    by (intro ok_mono [OF spi_clk_init_ors [of 0]]) simp_all
qed

end
