(* ===== verification/Spi.thy ===== *)
theory Spi
  imports Spi_Cmd Gpio Clkcar
begin

text \<open>
  The SPI component, \<^verbatim>\<open>components/spi/src/spi.c\<close>: it runs the transfers that the CAN driver asks
  for over RPC, on the asynchronous SPI driver of libplatsupport, and waits for each on the
  semaphore that the driver's completion callback posts.

  The driver is the parameter \<open>spi_driver\<close>. Its entry points return the states they pass to the
  chip select callback, and the interrupt entry the status and the received bytes when it completes
  a transfer. The shared dataport is that of \<open>Spi_Cmd\<close>. The last section proves that this server
  provides what the CAN driver's model takes as its parameter \<open>bus\<close>.
\<close>

section \<open>Slaves\<close>

record spi_slave_config =
  speed_hz :: nat
  nss_udelay :: nat
  fb_delay :: nat

record spi_slave =
  sl_id :: int
  sl_cfg :: spi_slave_config

definition slave_params :: "spi_slave list" where
  "slave_params = [\<lparr>sl_id = CAN_APP_ID, sl_cfg = \<lparr>speed_hz = 10000000, nss_udelay = 10, fb_delay = 1\<rparr>\<rparr>]"

definition get_slave :: "int \<Rightarrow> spi_slave option" where
  "get_slave i = find (\<lambda>sl. sl_id sl = i) slave_params"

section \<open>State\<close>

record 'd spi_driver =
  spi_prepare_transfer :: "spi_slave_config \<Rightarrow> 'd \<Rightarrow> 'd"
  spi_xfer :: "u8 list \<Rightarrow> nat \<Rightarrow> 'd \<Rightarrow> int \<times> int list \<times> 'd"
  spi_handle_irq :: "'d \<Rightarrow> (int \<times> u8 list) option \<times> int list \<times> 'd"

text \<open>
  \<open>rx_target\<close> is the buffer of the transfer in progress, which the driver fills, and \<open>status_var\<close>
  the variable of the waiting thread that the callback's token points to.
\<close>

record 'd spi_server =
  spi_bus :: 'd
  cur_slave_id :: int
  spi_mutex :: bool
  bus_sem :: nat
  status_var :: int
  rx_target :: "u8 list"
  gpio :: "gpio_event list"
  int_acks :: nat

definition spi_mutex_lock :: "'d spi_server \<Rightarrow> 'd spi_server option" where
  "spi_mutex_lock s = do { l \<leftarrow> lock_take (spi_mutex s); Some (s\<lparr>spi_mutex := l\<rparr>) }"

definition spi_mutex_unlock :: "'d spi_server \<Rightarrow> 'd spi_server" where
  "spi_mutex_unlock s = s\<lparr>spi_mutex := lock_release (spi_mutex s)\<rparr>"

definition bus_sem_post :: "'d spi_server \<Rightarrow> 'd spi_server" where
  "bus_sem_post s = s\<lparr>bus_sem := bus_sem s + 1\<rparr>"

definition bus_sem_wait :: "'d spi_server \<Rightarrow> 'd spi_server option" where
  "bus_sem_wait s = do { c_assert (0 < bus_sem s); Some (s\<lparr>bus_sem := bus_sem s - 1\<rparr>) }"

abbreviation (input) SPI_CS_RELEASE :: int where "SPI_CS_RELEASE \<equiv> 1"
abbreviation (input) SPI_CS_ASSERT :: int where "SPI_CS_ASSERT \<equiv> 0"

definition chip_select :: "int \<Rightarrow> 'd spi_server \<Rightarrow> 'd spi_server" where
  "chip_select state s = s\<lparr>gpio := gpio_spi_can1_cs_set state (gpio s)\<rparr>"

section \<open>Interrupt and start-up\<close>

definition spi_complete_callback :: "int \<Rightarrow> 'd spi_server \<Rightarrow> 'd spi_server" where
  "spi_complete_callback status s = bus_sem_post (s\<lparr>status_var := status\<rparr>)"

text \<open>
  Bytes received overwrite the start of a buffer. They are written by the driver, which is given the
  number of bytes; bytes beyond the end of the buffer, where the code has no check, are dropped here. No
  command of \<^verbatim>\<open>spi_cmd.c\<close> transfers as many as the buffer holds.
\<close>

definition rx_fill :: "u8 list \<Rightarrow> u8 list \<Rightarrow> u8 list" where
  "rx_fill ins rx = take (length rx) (ins @ drop (length ins) rx)"

definition spi1_int_handle :: "'d spi_driver \<Rightarrow> 'd spi_server \<Rightarrow> 'd spi_server option" where
  "spi1_int_handle drv s = do {
     s \<leftarrow> spi_mutex_lock s;
     let (res, cs, d) = spi_handle_irq drv (spi_bus s);
     let s = fold chip_select cs (s\<lparr>spi_bus := d\<rparr>);
     let s = (case res of
         None \<Rightarrow> s
       | Some (status, ins) \<Rightarrow> spi_complete_callback status (s\<lparr>rx_target := rx_fill ins (rx_target s)\<rparr>));
     let s = spi_mutex_unlock s;
     Some (s\<lparr>int_acks := int_acks s + 1\<rparr>)
   }"

text \<open>
  \<open>tegra_ok\<close>: \<^verbatim>\<open>tegra_spi_init\<close> succeeds, which is asserted; the clock is that of \<open>Clkcar\<close>.
\<close>

definition spi_init ::
  "(nat \<Rightarrow> 'c \<Rightarrow> u32 \<times> 'c) \<Rightarrow> (nat \<Rightarrow> u32 \<Rightarrow> 'c \<Rightarrow> 'c) \<Rightarrow> nat option \<Rightarrow> bool \<Rightarrow>
   'c mmio \<Rightarrow> 'd spi_server \<Rightarrow> ('c mmio \<times> 'd spi_server) option" where
  "spi_init rd wr local_clkcar_reg tegra_ok m s = do {
     m \<leftarrow> clkcar_spi_clk_init rd wr local_clkcar_reg m;
     c_assert tegra_ok;
     s \<leftarrow> bus_sem_wait s;
     Some (m, s)
   }"

section \<open>Transfers\<close>

text \<open>
  \<open>others\<close> is what happens while the caller waits, which includes the interrupts of the bus. The
  result is the status and the receive buffer after the transfer.
\<close>

definition do_spi_transfer ::
  "'d spi_driver \<Rightarrow> ('d spi_server \<Rightarrow> 'd spi_server option) \<Rightarrow> spi_slave \<Rightarrow> u8 list \<Rightarrow> nat \<Rightarrow>
   u8 list \<Rightarrow> nat \<Rightarrow> 'd spi_server \<Rightarrow> (int \<times> u8 list \<times> 'd spi_server) option" where
  "do_spi_transfer drv others slave tx wcount rx rcount s = do {
     let s = (if cur_slave_id s \<noteq> sl_id slave
              then s\<lparr>spi_bus := spi_prepare_transfer drv (sl_cfg slave) (spi_bus s),
                     cur_slave_id := sl_id slave\<rparr>
              else s);
     s \<leftarrow> spi_mutex_lock s;
     c_assert (wcount \<le> length tx);
     let (ret, cs, d) = spi_xfer drv (take wcount tx) rcount (spi_bus s);
     let s = fold chip_select cs (s\<lparr>spi_bus := d, rx_target := rx\<rparr>);
     let s = spi_mutex_unlock s;
     if 0 \<le> ret then do {
       s \<leftarrow> others s;
       s \<leftarrow> bus_sem_wait s;
       Some (status_var s, rx_target s, s)
     } else Some (ret, rx_target s, s)
   }"

definition loopback_tx :: "u8 list" where
  "loopback_tx = [0x40, 0x24, 0x60, 0, 0, 0x8, 0x1, 0x2, 0x3, 0x4, 0x5, 0x6, 0x7, 0x8]"

definition spi_transfer_rpc ::
  "'d spi_driver \<Rightarrow> ('d spi_server \<Rightarrow> 'd spi_server option) \<Rightarrow> int \<Rightarrow> nat \<Rightarrow> nat \<Rightarrow>
   u8 list \<Rightarrow> u8 list \<Rightarrow> 'd spi_server \<Rightarrow> (int \<times> u8 list \<times> 'd spi_server) option" where
  "spi_transfer_rpc drv others app wcount rcount tx rx s = do {
     slave \<leftarrow> get_slave 1;
     (rx, s) \<leftarrow> (if app = 99 then do {
         (_, rx, s) \<leftarrow> do_spi_transfer drv others slave loopback_tx 14 rx rcount s;
         Some (rx, s)
       } else Some (rx, s));
     do_spi_transfer drv others slave tx wcount rx rcount s
   }"

text \<open>
  \<open>junk\<close> is the uninitialised local array; a \<^verbatim>\<open>char\<close> is unsigned on this platform.
\<close>

definition spi_transfer_byte ::
  "'d spi_driver \<Rightarrow> ('d spi_server \<Rightarrow> 'd spi_server option) \<Rightarrow> u8 list \<Rightarrow> int \<Rightarrow> u8 \<Rightarrow>
   'd spi_server \<Rightarrow> (int \<times> 'd spi_server) option" where
  "spi_transfer_byte drv others junk app byte s =
     (case get_slave app of
        None \<Rightarrow> Some (-1, s)
      | Some slave \<Rightarrow> do {
          (ret, rx, s) \<leftarrow> do_spi_transfer drv others slave [byte] 1 junk 1 s;
          if ret < 0 then Some (ret, s)
          else do { b \<leftarrow> array_get rx 1; Some (uint b, s) }
        })"

section \<open>The bus of the CAN driver\<close>

text \<open>Interrupts of the bus, and the completion that a run of them brings.\<close>

fun spi_irqs :: "'d spi_driver \<Rightarrow> nat \<Rightarrow> 'd spi_server \<Rightarrow> 'd spi_server option" where
  "spi_irqs drv 0 s = Some s"
| "spi_irqs drv (Suc n) s = do { s \<leftarrow> spi1_int_handle drv s; spi_irqs drv n s }"

fun completes :: "'d spi_driver \<Rightarrow> nat \<Rightarrow> 'd \<Rightarrow> (int \<times> u8 list \<times> 'd) option" where
  "completes drv 0 d = None"
| "completes drv (Suc n) d = (case spi_handle_irq drv d of
      (None, cs, d) \<Rightarrow> completes drv n d
    | (Some (status, ins), cs, d) \<Rightarrow> if n = 0 then Some (status, ins, d) else None)"

text \<open>
  The transfer function of a driver whose transfers complete with the \<open>n tx\<close>-th interrupt: the bus
  that the CAN driver sees.
\<close>

definition bus_of :: "'d spi_driver \<Rightarrow> (u8 list \<Rightarrow> nat) \<Rightarrow> 'd bus" where
  "bus_of drv n app tx r d =
     (case completes drv (n tx) (snd (snd (spi_xfer drv tx r d))) of
        Some (status, ins, d) \<Rightarrow> (ins, d)
      | None \<Rightarrow> ([], d))"

definition accepts :: "'d spi_driver \<Rightarrow> (u8 list \<Rightarrow> nat) \<Rightarrow> u8 list \<Rightarrow> nat \<Rightarrow> 'd \<Rightarrow> int \<Rightarrow> bool" where
  "accepts drv n tx r d status \<longleftrightarrow> 0 \<le> fst (spi_xfer drv tx r d) \<and>
     (\<exists>ins d'. completes drv (n tx) (snd (snd (spi_xfer drv tx r d))) = Some (status, ins, d'))"

lemma fold_chip_select:
  "\<exists>g. fold chip_select cs s = s\<lparr>gpio := g\<rparr>"
proof (induction cs arbitrary: s)
  case Nil
  show ?case by (intro exI [of _ "gpio s"]) simp
next
  case (Cons c cs)
  from Cons.IH [of "chip_select c s"] show ?case by (auto simp: chip_select_def)
qed

lemma spi_irqs_complete:
  assumes "completes drv n (spi_bus s) = Some (status, ins, d)" "\<not> spi_mutex s"
  shows "\<exists>g a. spi_irqs drv n s = Some (s\<lparr>spi_bus := d, status_var := status, bus_sem := bus_sem s + 1,
    rx_target := rx_fill ins (rx_target s), gpio := g, int_acks := a\<rparr>)"
  using assms
proof (induction n arbitrary: s)
  case 0
  then show ?case by simp
next
  case (Suc n)
  obtain res cs d1 where irq: "spi_handle_irq drv (spi_bus s) = (res, cs, d1)"
    by (cases "spi_handle_irq drv (spi_bus s)")
  obtain g where g: "fold chip_select cs (s\<lparr>spi_mutex := True, spi_bus := d1\<rparr>) =
      s\<lparr>spi_mutex := True, spi_bus := d1, gpio := g\<rparr>"
    using fold_chip_select by fastforce
  show ?case
  proof (cases res)
    case None
    let ?s = "s\<lparr>spi_mutex := False, spi_bus := d1, gpio := g, int_acks := int_acks s + 1\<rparr>"
    have "spi1_int_handle drv s = Some ?s"
      using Suc.prems(2) irq g None
      by (simp add: spi1_int_handle_def spi_mutex_lock_def spi_mutex_unlock_def)
    moreover have "completes drv n (spi_bus ?s) = Some (status, ins, d)" "\<not> spi_mutex ?s"
      using Suc.prems irq None by simp_all
    from Suc.IH [OF this] obtain g' a' where "spi_irqs drv n ?s = Some (?s\<lparr>spi_bus := d,
        status_var := status, bus_sem := bus_sem ?s + 1, rx_target := rx_fill ins (rx_target ?s),
        gpio := g', int_acks := a'\<rparr>)" by blast
    moreover have "s\<lparr>spi_mutex := False\<rparr> = s" using Suc.prems(2) by (cases s) simp
    ultimately show ?thesis
      by (cases s) auto
  next
    case (Some r)
    then obtain st i where r: "res = Some (st, i)" by (cases r) auto
    with Suc.prems(1) irq have n: "n = 0" "st = status" "i = ins" "d1 = d" by (auto split: if_splits)
    show ?thesis
      using Suc.prems(2) irq g r n
      by (cases s) (auto simp: spi1_int_handle_def spi_mutex_lock_def spi_mutex_unlock_def
          spi_complete_callback_def bus_sem_post_def)
  qed
qed

text \<open>The state of the driver once the slave's configuration is in place.\<close>

definition prepared :: "'d spi_driver \<Rightarrow> 'd spi_server \<Rightarrow> 'd" where
  "prepared drv s = (if cur_slave_id s = CAN_APP_ID then spi_bus s
     else spi_prepare_transfer drv (sl_cfg (hd slave_params)) (spi_bus s))"

definition server_idle :: "'d spi_server \<Rightarrow> bool" where
  "server_idle s \<longleftrightarrow> \<not> spi_mutex s \<and> bus_sem s = 0"

lemma do_spi_transfer_completes:
  assumes "server_idle s" "w \<le> length tx" "accepts drv n (take w tx) r (prepared drv s) status"
    "length rx = SPI_TRANS_MAX_SIZE"
  shows "ok (do_spi_transfer drv (spi_irqs drv (n (take w tx))) (hd slave_params) tx w rx r s)
    (\<lambda>(ret, rx', s'). ret = status \<and>
      (rx', spi_bus s') = (case bus_of drv n app (take w tx) r (prepared drv s) of
         (ins, d) \<Rightarrow> (take SPI_TRANS_MAX_SIZE (ins @ drop (length ins) rx), d)) \<and>
      server_idle s' \<and> cur_slave_id s' = CAN_APP_ID)"
proof -
  obtain ret cs d1 where xfer: "spi_xfer drv (take w tx) r (prepared drv s) = (ret, cs, d1)"
    by (cases "spi_xfer drv (take w tx) r (prepared drv s)")
  with assms(3) obtain ins d where ret: "0 \<le> ret"
    and fin: "completes drv (n (take w tx)) d1 = Some (status, ins, d)"
    by (auto simp: accepts_def)
  let ?s0 = "s\<lparr>spi_bus := prepared drv s, cur_slave_id := CAN_APP_ID\<rparr>"
  have s0: "(if cur_slave_id s \<noteq> sl_id (hd slave_params)
      then s\<lparr>spi_bus := spi_prepare_transfer drv (sl_cfg (hd slave_params)) (spi_bus s),
             cur_slave_id := sl_id (hd slave_params)\<rparr> else s) = ?s0"
    by (cases s) (simp add: prepared_def slave_params_def)
  obtain g where g: "fold chip_select cs (?s0\<lparr>spi_mutex := True, spi_bus := d1, rx_target := rx\<rparr>) =
      ?s0\<lparr>spi_mutex := True, spi_bus := d1, rx_target := rx, gpio := g\<rparr>"
    using fold_chip_select by blast
  let ?s1 = "?s0\<lparr>spi_mutex := True, spi_bus := d1, rx_target := rx, gpio := g, spi_mutex := False\<rparr>"
  have "completes drv (n (take w tx)) (spi_bus ?s1) = Some (status, ins, d)" "\<not> spi_mutex ?s1"
    using fin by simp_all
  from spi_irqs_complete [OF this] obtain g' a where irqs:
    "spi_irqs drv (n (take w tx)) ?s1 = Some (?s1\<lparr>spi_bus := d, status_var := status,
       bus_sem := bus_sem ?s1 + 1, rx_target := rx_fill ins (rx_target ?s1), gpio := g', int_acks := a\<rparr>)"
    by blast
  have "bus_of drv n app (take w tx) r (prepared drv s) = (ins, d)"
    using xfer fin by (simp add: bus_of_def)
  with irqs ret g xfer assms(1,2,4) show ?thesis
    unfolding do_spi_transfer_def s0 Let_def
    by (simp add: spi_mutex_lock_def spi_mutex_unlock_def bus_sem_wait_def server_idle_def rx_fill_def)
qed

text \<open>
  C6: The SPI server provides the bus that the CAN driver is modelled over: for every caller id but
  99, a transfer on an idle server, whose driver accepts it and completes it after some interrupts,
  returns the driver's status, leaves in the shared dataport exactly what the driver model's
  \<open>spi_transfer\<close> over \<open>bus_of\<close> puts there, and leaves the server idle. The id is not looked at.
\<close>

theorem spi_server_is_bus:
  assumes "server_idle s" "app \<noteq> 99" "w \<le> length (txbuf p)" "length (rxbuf p) = SPI_TRANS_MAX_SIZE"
    "dev p = prepared drv s" "accepts drv n (take w (txbuf p)) r (dev p) status"
  shows "ok (spi_transfer_rpc drv (spi_irqs drv (n (take w (txbuf p)))) app w r (txbuf p) (rxbuf p) s)
    (\<lambda>(ret, rx, s'). ret = status \<and> rx = rxbuf (spi_transfer (bus_of drv n) app w r p) \<and>
      spi_bus s' = dev (spi_transfer (bus_of drv n) app w r p) \<and> server_idle s' \<and>
      cur_slave_id s' = CAN_APP_ID)"
proof -
  have "get_slave 1 = Some (hd slave_params)"
    by (simp add: get_slave_def slave_params_def)
  moreover have "accepts drv n (take w (txbuf p)) r (prepared drv s) status"
    using assms(5,6) by simp
  note do_spi_transfer_completes [OF assms(1,3) this assms(4), of app]
  ultimately show ?thesis
    using assms(2,5)
    by (auto simp: spi_transfer_rpc_def spi_transfer_def split_beta elim!: ok_mono)
qed

text \<open>
  A driver that echoes the bytes it sends, then reads its memory, and interrupts twice: once before
  and once when it has finished.
\<close>

definition echo_driver :: "(u8 list \<times> nat) spi_driver" where
  "echo_driver = \<lparr>spi_prepare_transfer = (\<lambda>cfg d. d),
     spi_xfer = (\<lambda>tx r d. (0, [SPI_CS_ASSERT], (tx @ replicate r 0x55, 2))),
     spi_handle_irq = (\<lambda>(buf, k). if k = 1 then (Some (0, buf), [SPI_CS_RELEASE], (buf, 0))
                                  else (None, [], (buf, k - 1)))\<rparr>"

theorem spi_server_is_bus_witness:
  "ok (spi_transfer_rpc echo_driver (spi_irqs echo_driver 2) CLIENT_APP_ID 2 1
        [3, 0x0e, 0] (replicate 255 0)
        \<lparr>spi_bus = ([], 0), cur_slave_id = -1, spi_mutex = False, bus_sem = 0, status_var = 7,
         rx_target = [], gpio = [], int_acks = 0\<rparr>)
     (\<lambda>(ret, rx, s'). ret = 0 \<and> take 3 rx = [3, 0x0e, 0x55] \<and> server_idle s')"
proof -
  let ?s = "\<lparr>spi_bus = ([], 0), cur_slave_id = -1, spi_mutex = False, bus_sem = 0, status_var = 7,
         rx_target = [], gpio = [], int_acks = 0\<rparr> :: (u8 list \<times> nat) spi_server"
  let ?p = "\<lparr>txbuf = [3, 0x0e, 0], rxbuf = replicate 255 0, spi_lock = True, dev = ([], 0)\<rparr>
    :: (u8 list \<times> nat) spi_port"
  have two: "completes echo_driver 2 (buf, 2) = Some (0, buf, (buf, 0))" for buf
    by (simp add: echo_driver_def numeral_2_eq_2)
  have x: "spi_xfer echo_driver tx r d = (0, [SPI_CS_ASSERT], (tx @ replicate r 0x55, 2))" for tx r d
    by (simp add: echo_driver_def)
  have "server_idle ?s" "CLIENT_APP_ID \<noteq> 99" "2 \<le> length (txbuf ?p)"
    "length (rxbuf ?p) = SPI_TRANS_MAX_SIZE" "dev ?p = prepared echo_driver ?s"
    by (simp_all add: server_idle_def prepared_def echo_driver_def)
  moreover have "accepts echo_driver (\<lambda>_. 2) (take 2 (txbuf ?p)) 1 (dev ?p) 0"
    by (simp add: accepts_def x two)
  ultimately have "ok (spi_transfer_rpc echo_driver (spi_irqs echo_driver 2) CLIENT_APP_ID 2 1 (txbuf ?p) (rxbuf ?p) ?s)
    (\<lambda>(ret, rx, s'). ret = 0 \<and> rx = rxbuf (spi_transfer (bus_of echo_driver (\<lambda>_. 2)) CLIENT_APP_ID 2 1 ?p) \<and>
      spi_bus s' = dev (spi_transfer (bus_of echo_driver (\<lambda>_. 2)) CLIENT_APP_ID 2 1 ?p) \<and> server_idle s' \<and>
      cur_slave_id s' = CAN_APP_ID)"
    by (rule spi_server_is_bus [where n = "\<lambda>_. 2"])
  moreover have "take 3 (rxbuf (spi_transfer (bus_of echo_driver (\<lambda>_. 2)) CLIENT_APP_ID 2 1 ?p)) = [3, 0x0e, 0x55]"
    by (simp add: spi_transfer_def bus_of_def x two)
  ultimately show ?thesis
    by (simp add: ok_def del: One_nat_def) blast
qed

end
