(* ===== verification/Can_On_Spi.thy ===== *)
theory Can_On_Spi
  imports Can_Dev_Laws Spi
begin

text \<open>
  The CAN driver on the SPI server: the transfers of \<^verbatim>\<open>spi_cmd.c\<close> as the RPC calls of \<^verbatim>\<open>spi.c\<close> that
  they are. \<open>server_bus\<close> is the \<open>bus\<close> whose device is the whole SPI server, or \<open>None\<close> once a transfer has
  not returned; everything proved of the CAN driver over a bus in normal mode holds over it, when it
  holds of the controller behind the server's driver.
\<close>

section \<open>The server as a bus\<close>

text \<open>
  A \<open>bus\<close> is a total function. A transfer that never returns, because \<^verbatim>\<open>spi_mutex\<close> is held or nothing posts
  \<^verbatim>\<open>bus_sem\<close>, leaves the device \<open>None\<close>, for good: the caller is stuck in it. What the bus
  answers then (zeros, of the length of an answer) is never seen by a caller, so that a result over this
  bus speaks of a run of the program only if it says that the device is not \<open>None\<close> in the end.
\<close>

definition server_bus :: "'d spi_driver \<Rightarrow> (u8 list \<Rightarrow> nat) \<Rightarrow> 'd spi_server option bus" where
  "server_bus drv n app tx r st =
     (case do { s \<leftarrow> st;
                spi_transfer_rpc drv (spi_irqs drv (n tx)) app (length tx) r tx
                  (replicate SPI_TRANS_MAX_SIZE 0) s } of
        Some (ret, rx, s') \<Rightarrow> (take (length tx + r) (rx @ replicate (length tx + r) 0), Some s')
      | None \<Rightarrow> (replicate (length tx + r) 0, None))"

text \<open>A transfer returns exactly when it leaves the device defined; once it has not, nothing does.\<close>

lemma server_bus_returns:
  "snd (server_bus drv n app tx r st) = Some s' \<longleftrightarrow>
     (\<exists>s ret rx. st = Some s \<and> spi_transfer_rpc drv (spi_irqs drv (n tx)) app (length tx) r tx
        (replicate SPI_TRANS_MAX_SIZE 0) s = Some (ret, rx, s'))"
  by (cases st) (auto simp: server_bus_def split: option.splits)

lemma server_bus_stuck: "sends (server_bus drv n) tx r None = None"
  by (simp add: sends_def server_bus_def)

text \<open>The states between transfers, all of which have returned, with the controller in \<open>N\<close>.\<close>

definition idle_on :: "'d spi_driver \<Rightarrow> 'd set \<Rightarrow> 'd spi_server option set" where
  "idle_on drv N = Some ` {s. server_idle s \<and> prepared drv s \<in> N}"

lemma idle_on_Some [simp]: "Some s \<in> idle_on drv N \<longleftrightarrow> server_idle s \<and> prepared drv s \<in> N"
  by (auto simp: idle_on_def)

lemma idle_on_iff: "st \<in> idle_on drv N \<longleftrightarrow> (\<exists>s. st = Some s \<and> server_idle s \<and> prepared drv s \<in> N)"
  by (auto simp: idle_on_def)

text \<open>What the server relies on of its driver: it accepts and completes every transfer.\<close>

definition completing :: "'d spi_driver \<Rightarrow> (u8 list \<Rightarrow> nat) \<Rightarrow> 'd set \<Rightarrow> bool" where
  "completing drv n N \<longleftrightarrow> (\<forall>d \<in> N. \<forall>tx r. \<exists>status. accepts drv n tx r d status)"

lemma server_bus_transfer:
  assumes "completing drv n N" "Some s \<in> idle_on drv N"
  shows "\<exists>s'. server_bus drv n DEV_ID tx r (Some s) =
      (let ins = fst (bus_of drv n DEV_ID tx r (prepared drv s))
       in take (length tx + r) (take SPI_TRANS_MAX_SIZE
            (ins @ drop (length ins) (replicate SPI_TRANS_MAX_SIZE 0)) @ replicate (length tx + r) 0), Some s') \<and>
    prepared drv s' = snd (bus_of drv n DEV_ID tx r (prepared drv s)) \<and> server_idle s'"
proof -
  obtain status where acc: "accepts drv n (take (length tx) tx) r (prepared drv s) status"
    using assms unfolding completing_def idle_on_Some by blast
  have idle: "server_idle s" using assms(2) by simp
  obtain ins d where b: "bus_of drv n DEV_ID tx r (prepared drv s) = (ins, d)"
    by (cases "bus_of drv n DEV_ID tx r (prepared drv s)")
  have slave: "get_slave 1 = Some (hd slave_params)" by (simp add: get_slave_def slave_params_def)
  from do_spi_transfer_completes [OF idle order_refl acc, of "replicate SPI_TRANS_MAX_SIZE 0" DEV_ID] b
  obtain rx s' where t: "do_spi_transfer drv (spi_irqs drv (n tx)) (hd slave_params) tx (length tx)
        (replicate SPI_TRANS_MAX_SIZE 0) r s = Some (status, rx, s')"
      "rx = take SPI_TRANS_MAX_SIZE (ins @ drop (length ins) (replicate SPI_TRANS_MAX_SIZE 0))"
      "spi_bus s' = d" "server_idle s'" "cur_slave_id s' = CAN_APP_ID"
    by (auto simp: ok_def)
  then have "server_bus drv n DEV_ID tx r (Some s) = (take (length tx + r) (rx @ replicate (length tx + r) 0), Some s')"
    by (simp add: server_bus_def spi_transfer_rpc_def slave)
  with t b show ?thesis by (auto simp: prepared_def)
qed

lemma server_bus_full_duplex: "full_duplex (server_bus drv n)"
  by (auto simp: full_duplex_def server_bus_def split: option.splits)

lemma server_bus_sends:
  assumes "completing drv n N" "Some s \<in> idle_on drv N"
  obtains s' where "sends (server_bus drv n) tx r (Some s) = Some s'" "server_idle s'"
    "prepared drv s' = sends (bus_of drv n) tx r (prepared drv s)"
  using server_bus_transfer [OF assms, of tx r] by (auto simp: sends_def)

lemma server_bus_answer:
  assumes "completing drv n N" "Some s \<in> idle_on drv N" "full_duplex (bus_of drv n)"
    "length tx + r \<le> SPI_TRANS_MAX_SIZE"
  shows "answer (server_bus drv n) tx r (Some s) = answer (bus_of drv n) tx r (prepared drv s)"
proof -
  let ?ins = "fst (bus_of drv n DEV_ID tx r (prepared drv s))"
  have len: "length ?ins = length tx + r" using assms(3) by (simp add: full_duplex_def)
  have "take SPI_TRANS_MAX_SIZE (?ins @ drop (length ?ins) (replicate SPI_TRANS_MAX_SIZE 0)) =
      ?ins @ replicate (SPI_TRANS_MAX_SIZE - length ?ins) 0"
    using len assms(4) by simp
  with server_bus_transfer [OF assms(1,2), of tx r] len show ?thesis
    by (auto simp: answer_def Let_def)
qed

section \<open>The contract passes through\<close>

locale can_bus =
  fixes bus :: "'d bus" and N :: "'d set"
  assumes normal: "normal_mode bus N"
begin

lemma reach_stays:
  assumes "can_inv N s0" "can_reach bus s0 s"
  shows "dev s \<in> N"
  using can_reach_inv [OF normal assms] by (simp add: can_inv_def)

lemma reach_serves:
  assumes "can_inv N s0" "can_reach bus s0 s" "frame_ok old"
  shows "\<exists>s'. irq_handler bus old s = Some s' \<and> dev s' \<in> N"
  using irq_handler_inv [OF normal can_reach_inv [OF normal assms(1,2)] assms(3)]
  by (auto simp: ok_def can_inv_def)

lemma reach_sends:
  assumes "can_inv N s0" "can_reach bus s0 s" "frame_fits f" "queues s = Some q"
    "length (tx_contents q) < tx_capacity q"
  shows "\<exists>s'. can_send bus env n f s = Some s' \<and> dev s' \<in> N"
  using can_send_room [OF normal can_reach_inv [OF normal assms(1,2)] assms(3-5), of env n]
  by (auto simp: can_inv_def)

end

locale spi_backed =
  fixes drv :: "'d spi_driver" and n :: "u8 list \<Rightarrow> nat" and N :: "'d set"
  assumes behind: "normal_mode (bus_of drv n) N" and completes_all: "completing drv n N"
begin

lemma server_normal: "normal_mode (server_bus drv n) (idle_on drv N)"
proof -
  note B = normal_modeD [OF behind]
  have h: "answer (bus_of drv n) [CMD_READ, 0] 1 d ! 0 = 0" if "d \<in> N" for d
    using that B(2) by (simp add: filters_hidden_def)
  have a: "answer (server_bus drv n) tx r (Some s) = answer (bus_of drv n) tx r (prepared drv s)"
    if "server_idle s" "prepared drv s \<in> N" "length tx + r \<le> SPI_TRANS_MAX_SIZE" for s tx r
    using that by (intro server_bus_answer [OF completes_all _ B(1)]) simp_all
  have "sends (server_bus drv n) out r (Some s) \<in> idle_on drv N"
    if "server_idle s" "prepared drv s \<in> N" "normal_cmd out" for s out r
  proof -
    have "Some s \<in> idle_on drv N" using that by simp
    from server_bus_sends [OF completes_all this, of out r] obtain s' where
      "sends (server_bus drv n) out r (Some s) = Some s'" "server_idle s'"
      "prepared drv s' = sends (bus_of drv n) out r (prepared drv s)" .
    with B(3) [OF that(2,3)] show ?thesis by simp
  qed
  then show ?thesis
    using server_bus_full_duplex h B(4,5)
    by (auto simp: normal_mode_def filters_hidden_def a idle_on_iff)
qed

end

sublocale spi_backed \<subseteq> on_server: can_bus "server_bus drv n" "idle_on drv N"
  by unfold_locales (rule server_normal)

text \<open>
  C8: The CAN driver over the SPI server. When the controller behind the SPI driver is in normal mode and
  the SPI driver completes its transfers, then after any interleaving of the CAN driver's operations every transfer
  has returned and the SPI server is idle; the CAN interrupt handler returns, and so does a send that finds room,
  with each of their transfers returned and the server idle again. None of them waits for ever on the server.
\<close>

theorem can_runs_on_spi_server:
  assumes "normal_mode (bus_of drv n) N" "completing drv n N" "can_inv (idle_on drv N) s0"
    "can_reach (server_bus drv n) s0 s" "frame_ok old"
  shows "(\<exists>t. dev s = Some t \<and> server_idle t \<and> prepared drv t \<in> N) \<and>
    (\<exists>s' t'. irq_handler (server_bus drv n) old s = Some s' \<and> dev s' = Some t' \<and> server_idle t') \<and>
    (\<forall>f q env k. frame_fits f \<and> queues s = Some q \<and> length (tx_contents q) < tx_capacity q \<longrightarrow>
       (\<exists>s' t'. can_send (server_bus drv n) env k f s = Some s' \<and> dev s' = Some t' \<and> server_idle t'))"
proof -
  have B: "spi_backed drv n N" using assms(1,2) by (rule spi_backed.intro)
  note bus = spi_backed.server_normal [OF B, THEN can_bus.intro]
  have idle: "\<exists>t. st = Some t \<and> server_idle t \<and> prepared drv t \<in> N" if "st \<in> idle_on drv N" for st
    using that by (simp add: idle_on_iff)
  show ?thesis
    using idle can_bus.reach_stays [OF bus assms(3,4)] can_bus.reach_serves [OF bus assms(3-5)]
      can_bus.reach_sends [OF bus assms(3,4)] by meson
qed

text \<open>
  An SPI driver with a controller behind it that reports three transmit and receive flags, and zeros otherwise; a
  transfer takes two interrupts.
\<close>

definition flag_driver :: "(u8 list \<times> nat) spi_driver" where
  "flag_driver = \<lparr>spi_prepare_transfer = (\<lambda>cfg d. d),
     spi_xfer = (\<lambda>tx r d. (0, [SPI_CS_ASSERT],
       (replicate (length tx) 0 @ replicate r (if tx = [CMD_READ, CANINTF] then 0x15 else 0), 2))),
     spi_handle_irq = (\<lambda>(buf, k). if k = 1 then (Some (0, buf), [SPI_CS_RELEASE], (buf, 0))
                                  else (None, [], (buf, k - 1)))\<rparr>"

lemma flag_driver_completes:
  "completes flag_driver 2 (snd (snd (spi_xfer flag_driver tx r d))) =
     Some (0, replicate (length tx) 0 @ replicate r (if tx = [CMD_READ, CANINTF] then 0x15 else 0),
       (replicate (length tx) 0 @ replicate r (if tx = [CMD_READ, CANINTF] then 0x15 else 0), 0))"
  by (simp add: flag_driver_def numeral_2_eq_2)

lemma flag_driver_bus:
  "bus_of flag_driver (\<lambda>_. 2) app tx r d =
     (replicate (length tx) 0 @ replicate r (if tx = [CMD_READ, CANINTF] then 0x15 else 0),
      (replicate (length tx) 0 @ replicate r (if tx = [CMD_READ, CANINTF] then 0x15 else 0), 0))"
  by (simp only: bus_of_def flag_driver_completes) simp

interpretation flagged: spi_backed flag_driver "\<lambda>_. 2" UNIV
proof
  show "normal_mode (bus_of flag_driver (\<lambda>_. 2)) UNIV"
    by (auto simp: normal_mode_def filters_hidden_def full_duplex_def answer_def flag_driver_bus rxb_fits_def)
  show "completing flag_driver (\<lambda>_. 2) UNIV"
    using flag_driver_completes by (auto simp: completing_def accepts_def flag_driver_def)
qed

definition served_state :: "(u8 list \<times> nat) spi_server option can_state" where
  "served_state =
     \<lparr>txbuf = replicate 255 0, rxbuf = replicate 255 0, spi_lock = False,
      dev = Some \<lparr>spi_bus = ([], 0), cur_slave_id = -1, spi_mutex = False, bus_sem = 0, status_var = 0,
        rx_target = [], gpio = [], int_acks = 0\<rparr>,
      txb_cache = replicate 3 no_canid, queues = Some one_mq, xmit_stopped = 1, txb_lock = False,
      queue_sem = 0, emitted = []\<rparr>"

lemma served_state_inv: "can_inv (idle_on flag_driver UNIV) served_state"
  using one_mq_facts
  by (simp add: can_inv_def served_state_def port_wf_def server_idle_def)

theorem can_runs_on_spi_server_witness:
  "\<exists>s t s' t'. irq_handler (server_bus flag_driver (\<lambda>_. 2)) blank_frame served_state = Some s \<and> dev s = Some t \<and>
     server_idle t \<and>
     can_send (server_bus flag_driver (\<lambda>_. 2)) (\<lambda>k s. None) 0 (sample_frame 5) served_state = Some s' \<and>
     dev s' = Some t' \<and> server_idle t'"
proof -
  have q: "queues served_state = Some one_mq" "length (tx_contents one_mq) < tx_capacity one_mq"
    by (simp_all add: served_state_def one_mq_facts)
  have old: "frame_ok blank_frame" by (simp add: blank_frame_def frame_ok_def)
  from can_runs_on_spi_server [OF flagged.behind flagged.completes_all served_state_inv can_reach.start old]
  show ?thesis using q sample_frame_fits by blast
qed

end
