(* ===== verification/Can_Xmit_Race.thy ===== *)
theory Can_Xmit_Race
  imports Can_Dev_Laws
begin

text \<open>
  The transmit path of the interrupt handler interleaved with \<^verbatim>\<open>can_send\<close>. The loop of
  \<^verbatim>\<open>transmit_message\<close> finds the queue empty in one step and marks the transmission stopped in a later
  one; the RPC thread can run between the two.
\<close>

section \<open>The loop in steps\<close>

text \<open>
  Where the handler is: before the turns for the buffers of a list, about to load a frame it took
  from the queue, or about to record that there was none.
\<close>

datatype xmit_at =
    Turns "nat list" u8
  | Load nat can_frame "nat list" u8
  | Stop "nat list" u8

inductive xmit_step :: "'d bus \<Rightarrow> u8 \<Rightarrow> xmit_at \<times> 'd can_state \<Rightarrow> xmit_at \<times> 'd can_state \<Rightarrow> bool" for bus tx where
  skip: "tx AND BIT i = 0 \<Longrightarrow> xmit_step bus tx (Turns (i # is) rts, s) (Turns is rts, s)"
| found: "tx AND BIT i \<noteq> 0 \<Longrightarrow> canid_clear_cache i s = Some s1 \<Longrightarrow>
    queue_pop_tx (emit (Txb_Ack i) s1) = Some (Some f, s2) \<Longrightarrow>
    xmit_step bus tx (Turns (i # is) rts, s) (Load i f is rts, s2)"
| found_none: "tx AND BIT i \<noteq> 0 \<Longrightarrow> canid_clear_cache i s = Some s1 \<Longrightarrow>
    queue_pop_tx (emit (Txb_Ack i) s1) = Some (None, s2) \<Longrightarrow>
    xmit_step bus tx (Turns (i # is) rts, s) (Stop is rts, s2)"
| load: "wait_sent bus i s = Some s1 \<Longrightarrow> load_txb bus i f s1 = Some s2 \<Longrightarrow>
    xmit_step bus tx (Load i f is rts, s) (Turns is (rts OR BIT i), s2)"
| stop: "stop_xmit s = Some s1 \<Longrightarrow> xmit_step bus tx (Stop is rts, s) (Turns is rts, s1)"

inductive_cases xmit_stepE: "xmit_step bus tx (Turns (i # is) rts, s) x"
  "xmit_step bus tx (Load i f is rts, s) x" "xmit_step bus tx (Stop is rts, s) x"

inductive_simps xmit_step_done: "xmit_step bus tx (Turns [] rts, s) x"

abbreviation (input) xmit_steps ::
  "'d bus \<Rightarrow> u8 \<Rightarrow> xmit_at \<times> 'd can_state \<Rightarrow> xmit_at \<times> 'd can_state \<Rightarrow> bool" where
  "xmit_steps bus tx \<equiv> (xmit_step bus tx)\<^sup>*\<^sup>*"

lemma xmit_steps_done: "xmit_steps bus tx (Turns [] rts, s) x \<Longrightarrow> x = (Turns [] rts, s)"
  by (erule converse_rtranclpE) (simp_all add: xmit_step_done)

text \<open>
  The steps are the loop: undisturbed, they lead from the loop's start to its end exactly when the
  loop returns, and to the same state.
\<close>

lemma xmit_steps_are_loop:
  "xmit_steps bus tx (Turns is rts, s) (Turns [] rts', s') \<longleftrightarrow> xmit_loop bus tx is rts s = Some (rts', s')"
proof (induction "is" arbitrary: rts s)
  case Nil
  then show ?case by (auto dest: xmit_steps_done)
next
  case (Cons i "is")
  show ?case
  proof
    assume "xmit_steps bus tx (Turns (i # is) rts, s) (Turns [] rts', s')"
    then obtain x where x: "xmit_step bus tx (Turns (i # is) rts, s) x" "xmit_steps bus tx x (Turns [] rts', s')"
      by (auto elim: converse_rtranclpE)
    from x(1) consider (idle) "x = (Turns is rts, s)" "tx AND BIT i = 0"
      | (frame) s1 f s2 where "x = (Load i f is rts, s2)" "tx AND BIT i \<noteq> 0"
          "canid_clear_cache i s = Some s1" "queue_pop_tx (emit (Txb_Ack i) s1) = Some (Some f, s2)"
      | (empty) s1 s2 where "x = (Stop is rts, s2)" "tx AND BIT i \<noteq> 0"
          "canid_clear_cache i s = Some s1" "queue_pop_tx (emit (Txb_Ack i) s1) = Some (None, s2)"
      by (rule xmit_stepE(1))
    then show "xmit_loop bus tx (i # is) rts s = Some (rts', s')"
    proof cases
      case idle
      then show ?thesis using x(2) Cons.IH by simp
    next
      case (frame s1 f s2)
      then obtain y where y: "xmit_step bus tx (Load i f is rts, s2) y" "xmit_steps bus tx y (Turns [] rts', s')"
        using x(2) by (auto elim: converse_rtranclpE)
      with frame Cons.IH show ?thesis by (auto elim!: xmit_stepE(2))
    next
      case (empty s1 s2)
      then obtain y where y: "xmit_step bus tx (Stop is rts, s2) y" "xmit_steps bus tx y (Turns [] rts', s')"
        using x(2) by (auto elim: converse_rtranclpE)
      with empty Cons.IH show ?thesis by (auto elim!: xmit_stepE(3))
    qed
  next
    assume L: "xmit_loop bus tx (i # is) rts s = Some (rts', s')"
    show "xmit_steps bus tx (Turns (i # is) rts, s) (Turns [] rts', s')"
    proof (cases "tx AND BIT i = 0")
      case True
      with L Cons.IH show ?thesis by (auto intro: skip converse_rtranclp_into_rtranclp)
    next
      case False
      then obtain s1 r s2 where pop: "canid_clear_cache i s = Some s1"
          "queue_pop_tx (emit (Txb_Ack i) s1) = Some (r, s2)"
        using L by (auto simp: bind_splits)
      show ?thesis
      proof (cases r)
        case None
        then obtain s3 where s3: "stop_xmit s2 = Some s3" "xmit_loop bus tx is rts s3 = Some (rts', s')"
          using L False pop by (auto simp: bind_splits)
        have "xmit_step bus tx (Turns (i # is) rts, s) (Stop is rts, s2)"
          using False pop None by (auto intro: found_none)
        moreover have "xmit_step bus tx (Stop is rts, s2) (Turns is rts, s3)" by (rule stop [OF s3(1)])
        ultimately show ?thesis
          using s3(2) Cons.IH by (meson converse_rtranclp_into_rtranclp)
      next
        case (Some f)
        then obtain s3 s4 where s4: "wait_sent bus i s2 = Some s3" "load_txb bus i f s3 = Some s4"
            "xmit_loop bus tx is (rts OR BIT i) s4 = Some (rts', s')"
          using L False pop by (auto simp: bind_splits)
        have "xmit_step bus tx (Turns (i # is) rts, s) (Load i f is rts, s2)"
          using False pop Some by (auto intro: found)
        moreover have "xmit_step bus tx (Load i f is rts, s2) (Turns is (rts OR BIT i), s4)"
          by (rule load [OF s4(1,2)])
        ultimately show ?thesis
          using s4(3) Cons.IH by (meson converse_rtranclp_into_rtranclp)
      qed
    qed
  qed
qed

section \<open>A send between two steps\<close>

text \<open>The handler's steps interleaved with whole calls of \<^verbatim>\<open>can_send\<close> that find room.\<close>

inductive race_step :: "'d bus \<Rightarrow> u8 \<Rightarrow> xmit_at \<times> 'd can_state \<Rightarrow> xmit_at \<times> 'd can_state \<Rightarrow> bool" for bus tx where
  handler: "xmit_step bus tx x y \<Longrightarrow> race_step bus tx x y"
| sender: "can_send bus (\<lambda>n s. None) 0 f s = Some s1 \<Longrightarrow> race_step bus tx (at, s) (at, s1)"

text \<open>
  What happens to a queue while the controller flags no transmit buffer: interrupts for received
  frames, wake-ups and errors, and the receiving application. An interrupt with a transmit flag, for a
  buffer that was still in flight, is not such a step: it takes frames from the queue.
\<close>

inductive quiet_step :: "'d bus \<Rightarrow> 'd can_state \<Rightarrow> 'd can_state \<Rightarrow> bool" for bus where
  irq: "frame_ok old \<Longrightarrow> answer bus [CMD_READ, CANINTF] 1 (dev s) ! 0 AND TXIF_MASK = 0 \<Longrightarrow>
    irq_handler bus old s = Some s' \<Longrightarrow> quiet_step bus s s'"
| recv: "can_recv old s = Some (f, s') \<Longrightarrow> quiet_step bus s s'"

definition queued_for :: "can_frame list \<Rightarrow> 'd can_state \<Rightarrow> bool" where
  "queued_for fs s \<longleftrightarrow> xmit_stopped s \<noteq> 0 \<and> (\<exists>q. queues s = Some q \<and> tx_contents q = fs)"

lemma queued_for_calm: "calm N s s' \<Longrightarrow> queued_for fs s' = queued_for fs s"
  by (auto simp: calm_def moved_can_iff queued_for_def)

lemma receive_keeps_queued:
  assumes "normal_mode bus N" "can_inv N s" "frame_ok old" "queued_for fs s"
  shows "ok (receive_message bus old rx s) (queued_for fs)"
proof -
  obtain q where q: "queues s = Some q" "mq_wf q" and s: "port_wf s" "dev s \<in> N"
    using assms(2) by (auto simp: can_inv_def)
  obtain gs where gs: "received bus (length (filter (\<lambda>i. rx AND BIT i \<noteq> 0) [0, 1])) old (dev s) = Some gs"
    using received_fits [OF assms(1) s(2) assms(3)] by blast
  show ?thesis
    by (rule receive_message_wp [OF s(1) normal_modeD(1) [OF assms(1)] q refl gs])
      (use assms(4) q in \<open>auto simp: queued_for_def moved_can_iff\<close>)
qed

lemma irq_keeps_queued:
  assumes "normal_mode bus N" "can_inv N s" "frame_ok old" "queued_for fs s"
    "answer bus [CMD_READ, CANINTF] 1 (dev s) ! 0 AND TXIF_MASK = 0"
  shows "ok (irq_handler bus old s) (queued_for fs)"
proof -
  let ?flags = "answer bus [CMD_READ, CANINTF] 1 (dev s) ! 0"
  have c: "calm N s s"
    using assms(2) by (auto simp: can_inv_def intro: calm_refl)
  have rx: "ok (if ?flags AND RXIF_MASK \<noteq> 0 then receive_message bus old (?flags AND RXIF_MASK) s' else Some s')
      (queued_for fs)" if "calm N s s'" for s'
    by (rule ok_optI) (use that assms(4) queued_for_calm [OF that] can_inv_calm [OF assms(2) that] in
        \<open>auto intro!: receive_keeps_queued [OF assms(1) _ assms(3)]\<close>)
  show ?thesis
    unfolding irq_handler_def
    apply (rule ok_bindI [where I = "\<lambda>(f, s'). f = ?flags \<and> calm N s s'"])
     apply (rule calm_read [OF assms(1) c], simp)
    apply (clarify)
    apply (rule ok_bindI [where I = "calm N s"])
     apply (rule ok_optI, assumption, erule report_message_error_calm [OF assms(1)], assumption)
    apply (rule ok_bindI [where I = "calm N s"])
     apply (rule ok_optI, assumption, erule calm_modify [OF assms(1)], simp, assumption)
    apply (rule ok_bindI [where I = "calm N s"])
     apply (rule ok_optI, assumption, erule report_error_calm [OF assms(1)], assumption)
    apply (rule ok_bindI [where I = "calm N s"])
     apply (rule ok_optI, assumption, erule notE, rule assms(5))
    apply (rule ok_bindI [OF rx], assumption)
    apply (auto simp: emit_def queued_for_def)
    done
qed

lemma recv_keeps_queued:
  assumes "can_inv N s" "queued_for fs s" "can_recv old s = Some (f, s')"
  shows "queued_for fs s'"
proof -
  obtain q m where q: "queues s = Some q" "mq_wf q" and m: "queue_sem s = Suc m"
    using assms(1,3) by (cases "queue_sem s") (auto simp: can_inv_def can_recv_def queue_lock_wait_def)
  from can_recv_cases [OF q m, of old] assms(2,3) q show ?thesis
    by (auto simp: queued_for_def)
qed

lemma quiet_steps_keep:
  assumes "(quiet_step bus)\<^sup>*\<^sup>* s s'" "normal_mode bus N" "can_inv N s" "queued_for fs s"
  shows "can_inv N s' \<and> queued_for fs s'"
  using assms(1)
proof (induction rule: rtranclp_induct)
  case base
  show ?case using assms(3,4) by simp
next
  case (step s1 s2)
  from step(2) show ?case
  proof cases
    case (irq old)
    then show ?thesis
      using step(3) okD [OF irq_keeps_queued [OF assms(2)] irq(3)] can_step_inv [OF can_step.irq assms(2)] by blast
  next
    case (recv old f)
    then show ?thesis
      using step(3) recv_keeps_queued [OF _ _ recv] can_step_inv [OF can_step.recv assms(2)] by blast
  qed
qed

lemma pop_tx_empty:
  "queues s = Some q \<Longrightarrow> mq_wf q \<Longrightarrow> tx_contents q = [] \<Longrightarrow> queue_pop_tx s = Some (None, s)"
  using tx.pop_none [of q] by (cases s) (auto simp: queue_pop_tx_def)

lemma skip_turns:
  "\<forall>j \<in> set is. tx AND BIT j = 0 \<Longrightarrow> (race_step bus tx)\<^sup>*\<^sup>* (Turns is rts, s) (Turns [] rts, s)"
proof (induction "is")
  case (Cons i "is")
  then have "race_step bus tx (Turns (i # is) rts, s) (Turns is rts, s)"
    by (intro handler skip) simp
  with Cons show ?case by (auto intro: converse_rtranclp_into_rtranclp)
qed simp

text \<open>
  C11: A frame sent between the handler's look at the empty queue, for the last transmit buffer that is
  flagged, and its note that the transmission has stopped is stranded: the send returns, starting nothing
  because the transmission does not count as stopped yet; the handler ends its loop with the frame in
  the queue and nothing told to the controller; and there the frame stays as long as the controller flags
  no transmit buffer and the clients only receive. That is the case in which no other buffer is in
  flight; if one is, the interrupt for its end takes the frame.
\<close>

theorem send_in_gap_is_stranded:
  assumes "normal_mode bus N" "can_inv N s" "queues s = Some q" "tx_contents q = []" "0 < tx_capacity q"
    "xmit_stopped s = 0" "frame_fits f" "i < 3" "tx AND BIT i \<noteq> 0" "\<forall>j \<in> set is. tx AND BIT j = 0"
  shows "\<exists>s'. (race_step bus tx)\<^sup>*\<^sup>* (Turns (i # is) rts, s) (Turns [] rts, s') \<and> dev s' = dev s \<and>
    queued_for [f] s' \<and> (\<forall>s''. (quiet_step bus)\<^sup>*\<^sup>* s' s'' \<longrightarrow> queued_for [f] s'')"
proof -
  have s: "length (txb_cache s) = 3" "\<not> txb_lock s" "mq_wf q"
    using assms(2,3) by (auto simp: can_inv_def)
  define c where "c = (txb_cache s)[i := no_canid]"
  let ?s1 = "emit (Txb_Ack i) (s\<lparr>txb_cache := c\<rparr>)"
  have clear: "canid_clear_cache i s = Some (s\<lparr>txb_cache := c\<rparr>)"
    using s(1) assms(8) by (simp add: canid_clear_cache_def c_def)
  have pop: "queue_pop_tx ?s1 = Some (None, ?s1)"
    using assms(3,4) s(3) by (intro pop_tx_empty [of _ q]) (simp_all add: emit_def)
  have "queues ?s1 = Some q" using assms(3) by (simp add: emit_def)
  from queue_push_tx_room [OF this s(3), of f] assms(4,5) obtain q' where
    q': "queue_push_tx f ?s1 = Some (0, ?s1\<lparr>queues := Some q'\<rparr>)" "mq_wf q'"
      "tx_contents q' = [f]" "rx_contents q' = rx_contents q" by auto
  let ?s2 = "?s1\<lparr>queues := Some q'\<rparr>"
  have "start_xmit bus ?s2 = Some ?s2" using assms(6) by (simp add: start_xmit_def emit_def)
  then have send: "can_send bus (\<lambda>n s. None) 0 f ?s1 = Some ?s2"
    using q'(1) by (subst can_send.simps) simp
  let ?s3 = "?s2\<lparr>xmit_stopped := 1, txb_lock := False\<rparr>"
  have stop: "stop_xmit ?s2 = Some ?s3" using s(2) by (simp add: stop_xmit_def emit_def)
  have "race_step bus tx (Turns (i # is) rts, s) (Stop is rts, ?s1)"
    by (rule handler [OF found_none [OF assms(9) clear pop]])
  moreover have "race_step bus tx (Stop is rts, ?s1) (Stop is rts, ?s2)" by (rule sender [OF send])
  moreover have "race_step bus tx (Stop is rts, ?s2) (Turns is rts, ?s3)"
    by (rule handler [OF xmit_step.stop [OF stop]])
  ultimately have run: "(race_step bus tx)\<^sup>*\<^sup>* (Turns (i # is) rts, s) (Turns [] rts, ?s3)"
    using skip_turns [OF assms(10)] by (meson converse_rtranclp_into_rtranclp)
  have inv: "can_inv N ?s3"
    using assms(2,3,7) q' by (auto simp: can_inv_def emit_def port_wf_def c_def)
  have q3: "queued_for [f] ?s3" using q'(3) by (simp add: queued_for_def)
  have "dev ?s3 = dev s" by (simp add: emit_def)
  with run q3 quiet_steps_keep [OF _ assms(1) inv q3] show ?thesis by blast
qed

text \<open>The controller reports that the first transmit buffer has become empty, and nothing else.\<close>

theorem send_in_gap_is_stranded_witness:
  "\<exists>s'. (race_step (irq_bus 4) 1)\<^sup>*\<^sup>* (Turns [2, 1, 0] 0, one_state\<lparr>xmit_stopped := 0\<rparr>) (Turns [] 0, s') \<and>
     dev s' = [] \<and> queued_for [sample_frame 5] s'"
proof -
  let ?s = "one_state\<lparr>xmit_stopped := 0\<rparr>"
  have inv: "can_inv UNIV ?s" using one_state_inv by (simp add: can_inv_def)
  have q: "queues ?s = Some one_mq" "tx_contents one_mq = []" "0 < tx_capacity one_mq" "xmit_stopped ?s = 0"
    by (simp_all add: one_state_def one_mq_facts)
  have b: "(1 :: u8) AND BIT 0 \<noteq> 0" "(1 :: u8) AND BIT 2 = 0" "(1 :: u8) AND BIT 1 = 0"
    by (simp_all add: BIT_def)
  have "\<forall>j \<in> set []. (1 :: u8) AND BIT j = 0" by simp
  from send_in_gap_is_stranded [OF irq_bus_normal inv q sample_frame_fits _ b(1) this, of 4 0 5]
  obtain s' where s': "(race_step (irq_bus 4) 1)\<^sup>*\<^sup>* (Turns [0] 0, ?s) (Turns [] 0, s')" "dev s' = dev ?s"
      "queued_for [sample_frame 5] s'"
    by auto
  have first: "race_step (irq_bus 4) 1 (Turns [2, 1, 0] 0, ?s) (Turns [1, 0] 0, ?s)"
    and second: "race_step (irq_bus 4) 1 (Turns [1, 0] 0, ?s) (Turns [0] 0, ?s)"
    using b by (auto intro: handler skip)
  have "(race_step (irq_bus 4) 1)\<^sup>*\<^sup>* (Turns [2, 1, 0] 0, ?s) (Turns [] 0, s')"
    by (rule converse_rtranclp_into_rtranclp [OF first converse_rtranclp_into_rtranclp [OF second s'(1)]])
  moreover have "dev s' = []" using s'(2) by (simp add: one_state_def irq_state_def)
  ultimately show ?thesis using s'(3) by blast
qed

end
