(* ===== verification/Time_Server.thy ===== *)
theory Time_Server
  imports Prelude
begin

text \<open>
  The time server, \<^verbatim>\<open>components/TimeServerNVTMR/src/time_server.c\<close>: every client owns
  \<^verbatim>\<open>timers_per_client\<close> software timers; the armed ones hang in one doubly linked list sorted by
  expiry time, which the handler of the millisecond interrupt works off from its head.

  The list is modelled with its pointers. The object \<^verbatim>\<open>client_state[c].timers[t]\<close> has the address
  \<open>(c, t)\<close>, \<open>tm_heap\<close> maps the addresses of the allocated objects to their contents, and every
  dereference of another address is undefined (\<open>None\<close>). What the server tells the outside
  (notifications, interrupt acknowledgements, the calls of the timer driver) is the trace
  \<open>tm_events\<close>. The platform's constants and the CAmkES attributes are the fields of \<open>tm_config\<close>.
\<close>

section \<open>Data\<close>

abbreviation (input) TIMER_FREQUENCY :: u64 where "TIMER_FREQUENCY \<equiv> 1000"

definition TIMER_PERIOD :: "u64 \<Rightarrow> u64" where
  "TIMER_PERIOD ns_in_s = ns_in_s div TIMER_FREQUENCY"

abbreviation (input) TIMER_TYPE_OFF :: int where "TIMER_TYPE_OFF \<equiv> 0"
abbreviation (input) TIMER_TYPE_PERIODIC :: int where "TIMER_TYPE_PERIODIC \<equiv> 1"
abbreviation (input) TIMER_TYPE_ABSOLUTE :: int where "TIMER_TYPE_ABSOLUTE \<equiv> 2"
abbreviation (input) TIMER_TYPE_RELATIVE :: int where "TIMER_TYPE_RELATIVE \<equiv> 3"

type_synonym tref = "nat \<times> nat"

record client_timer =
  tm_id :: nat
  tm_client :: nat
  tm_type :: int
  periodic_ns :: u64
  timeout_time :: u64
  tm_prev :: "tref option"
  tm_next :: "tref option"

record client_state =
  cs_id :: nat
  completed :: u32

datatype tm_event =
    Emit nat
  | Timer_handle_irq
  | Irq_acknowledge
  | Nv_get_timer u32 u32
  | Timer_start
  | Timer_periodic u64

record time_server =
  timer_head :: "tref option"
  tm_heap :: "tref \<Rightarrow> client_timer option"
  client_states :: "client_state list"
  the_current_time :: u64
  tm_locked :: bool
  tm_events :: "tm_event list"

text \<open>
  \<open>tmr_code k\<close>, \<open>tmr_offset k\<close> and \<open>tmr_irq k\<close> are the platform's \<^verbatim>\<open>TMRk\<close>, \<^verbatim>\<open>TMRk_OFFSET\<close>
  and \<^verbatim>\<open>INT_NV_TMRk\<close>.
\<close>

record tm_config =
  ns_in_s :: u64
  timers_per_client :: nat
  largest_badge :: nat
  nvtmr_number :: int
  tmr_code :: "nat \<Rightarrow> int"
  tmr_offset :: "nat \<Rightarrow> u32"
  tmr_irq :: "nat \<Rightarrow> u32"

section \<open>The list of armed timers\<close>

definition tm_upd ::
  "tref \<Rightarrow> (client_timer \<Rightarrow> client_timer) \<Rightarrow> time_server \<Rightarrow> time_server option" where
  "tm_upd r f s = do { t \<leftarrow> tm_heap s r; Some (s\<lparr>tm_heap := (tm_heap s)(r \<mapsto> f t)\<rparr>) }"

definition update_current_time_ns :: "u64 \<Rightarrow> time_server \<Rightarrow> time_server" where
  "update_current_time_ns ns s = s\<lparr>the_current_time := the_current_time s + ns\<rparr>"

definition current_time_ns :: "time_server \<Rightarrow> u64" where
  "current_time_ns s = the_current_time s"

definition remove_timer :: "tref \<Rightarrow> time_server \<Rightarrow> time_server option" where
  "remove_timer timer s = do {
     t \<leftarrow> tm_heap s timer;
     s \<leftarrow> (case tm_prev t of
            Some p \<Rightarrow> tm_upd p (\<lambda>q. q\<lparr>tm_next := tm_next t\<rparr>) s
          | None \<Rightarrow> if timer_head s = Some timer then Some (s\<lparr>timer_head := tm_next t\<rparr>) else None);
     t \<leftarrow> tm_heap s timer;
     (case tm_next t of
        Some n \<Rightarrow> tm_upd n (\<lambda>q. q\<lparr>tm_prev := tm_prev t\<rparr>) s
      | None \<Rightarrow> Some s)
   }"

text \<open>The \<^verbatim>\<open>for\<close> loop of \<^verbatim>\<open>insert_timer\<close>; on a cyclic list it would not end.\<close>

partial_function (option) insert_scan ::
  "(tref \<Rightarrow> client_timer option) \<Rightarrow> u64 \<Rightarrow> tref option \<Rightarrow> tref option \<Rightarrow>
   (tref option \<times> tref option) option" where
  "insert_scan h tmo current next =
     (case next of
        None \<Rightarrow> Some (current, None)
      | Some n \<Rightarrow> do {
          t \<leftarrow> h n;
          if timeout_time t < tmo then insert_scan h tmo next (tm_next t)
          else Some (current, next)
        })"

definition insert_timer :: "tref \<Rightarrow> time_server \<Rightarrow> time_server option" where
  "insert_timer timer s = do {
     t \<leftarrow> tm_heap s timer;
     (current, next) \<leftarrow> insert_scan (tm_heap s) (timeout_time t) None (timer_head s);
     s \<leftarrow> tm_upd timer (\<lambda>q. q\<lparr>tm_prev := current\<rparr>) s;
     s \<leftarrow> tm_upd timer (\<lambda>q. q\<lparr>tm_next := next\<rparr>) s;
     s \<leftarrow> (case next of
            Some n \<Rightarrow> tm_upd n (\<lambda>q. q\<lparr>tm_prev := Some timer\<rparr>) s
          | None \<Rightarrow> Some s);
     (case current of
        Some c \<Rightarrow> tm_upd c (\<lambda>q. q\<lparr>tm_next := Some timer\<rparr>) s
      | None \<Rightarrow> Some (s\<lparr>timer_head := Some timer\<rparr>))
   }"

section \<open>Expiry\<close>

definition tm_emit :: "tm_event \<Rightarrow> time_server \<Rightarrow> time_server" where
  "tm_emit e s = s\<lparr>tm_events := tm_events s @ [e]\<rparr>"

text \<open>\<^verbatim>\<open>client_state[c].completed |= BIT(i)\<close>; shifting a 32-bit word by 32 or more is undefined.\<close>

definition complete_bit :: "nat \<Rightarrow> nat \<Rightarrow> time_server \<Rightarrow> time_server option" where
  "complete_bit c i s = do {
     cs \<leftarrow> array_get (client_states s) c;
     c_assert (i < 32);
     css \<leftarrow> array_set (client_states s) c (cs\<lparr>completed := completed cs OR BIT i\<rparr>);
     Some (s\<lparr>client_states := css\<rparr>)
   }"

definition signal_client :: "tref \<Rightarrow> u64 \<Rightarrow> time_server \<Rightarrow> time_server option" where
  "signal_client timer current_time s = do {
     t \<leftarrow> tm_heap s timer;
     let s = tm_emit (Emit (tm_client t + 1)) s;
     s \<leftarrow> complete_bit (tm_client t) (tm_id t) s;
     s \<leftarrow> remove_timer timer s;
     t \<leftarrow> tm_heap s timer;
     if tm_type t = TIMER_TYPE_OFF then None
     else if tm_type t = TIMER_TYPE_PERIODIC then do {
       s \<leftarrow> tm_upd timer (\<lambda>q. q\<lparr>timeout_time := timeout_time q + periodic_ns q\<rparr>) s;
       insert_timer timer s
     }
     else if tm_type t = TIMER_TYPE_ABSOLUTE \<or> tm_type t = TIMER_TYPE_RELATIVE then
       tm_upd timer (\<lambda>q. q\<lparr>tm_type := TIMER_TYPE_OFF\<rparr>) s
     else Some s
   }"

text \<open>The \<^verbatim>\<open>while\<close> loop: \<open>None\<close> also when it never ends.\<close>

partial_function (option) signal_clients :: "u64 \<Rightarrow> time_server \<Rightarrow> time_server option" where
  "signal_clients current_time s =
     (case timer_head s of
        None \<Rightarrow> Some s
      | Some r \<Rightarrow> do {
          t \<leftarrow> tm_heap s r;
          if timeout_time t \<le> current_time then do {
            s \<leftarrow> signal_client r current_time s;
            signal_clients current_time s
          } else Some s
        })"

section \<open>Entry points\<close>

definition time_server_lock :: "time_server \<Rightarrow> time_server option" where
  "time_server_lock s = do { l \<leftarrow> lock_take (tm_locked s); Some (s\<lparr>tm_locked := l\<rparr>) }"

definition time_server_unlock :: "time_server \<Rightarrow> time_server" where
  "time_server_unlock s = s\<lparr>tm_locked := lock_release (tm_locked s)\<rparr>"

definition tm_irq_handle :: "tm_config \<Rightarrow> time_server \<Rightarrow> time_server option" where
  "tm_irq_handle cfg s = do {
     s \<leftarrow> time_server_lock s;
     let s = update_current_time_ns (TIMER_PERIOD (ns_in_s cfg)) s;
     s \<leftarrow> signal_clients (current_time_ns s) s;
     let s = tm_emit Timer_handle_irq s;
     let s = tm_emit Irq_acknowledge s;
     Some (time_server_unlock s)
   }"

text \<open>\<^verbatim>\<open>&client_state[cid].timers[tid]\<close>, for a \<open>tid\<close> that has been checked.\<close>

definition timer_ref :: "time_server \<Rightarrow> int \<Rightarrow> int \<Rightarrow> tref option" where
  "timer_ref s cid tid = do {
     c_assert (0 \<le> cid);
     array_get (client_states s) (nat cid);
     Some (nat cid, nat tid)
   }"

definition bad_tid :: "tm_config \<Rightarrow> int \<Rightarrow> bool" where
  "bad_tid cfg tid \<longleftrightarrow> int (timers_per_client cfg) \<le> tid \<or> tid < 0"

text \<open>\<^verbatim>\<open>if (t->timer_type != TIMER_TYPE_OFF) remove_timer(t)\<close>\<close>

definition disarm :: "tref \<Rightarrow> time_server \<Rightarrow> time_server option" where
  "disarm r s = do {
     t \<leftarrow> tm_heap s r;
     if tm_type t \<noteq> TIMER_TYPE_OFF then remove_timer r s else Some s
   }"

definition oneshot_relative ::
  "tm_config \<Rightarrow> int \<Rightarrow> int \<Rightarrow> u64 \<Rightarrow> time_server \<Rightarrow> (int \<times> time_server) option" where
  "oneshot_relative cfg cid tid ns s =
     (if bad_tid cfg tid then Some (-1, s)
      else do {
        s \<leftarrow> time_server_lock s;
        r \<leftarrow> timer_ref s cid tid;
        s \<leftarrow> disarm r s;
        s \<leftarrow> tm_upd r (\<lambda>q. q\<lparr>tm_type := TIMER_TYPE_RELATIVE\<rparr>) s;
        s \<leftarrow> tm_upd r (\<lambda>q. q\<lparr>timeout_time := current_time_ns s + ns\<rparr>) s;
        s \<leftarrow> insert_timer r s;
        Some (0, time_server_unlock s)
      })"

definition oneshot_absolute ::
  "tm_config \<Rightarrow> int \<Rightarrow> int \<Rightarrow> u64 \<Rightarrow> time_server \<Rightarrow> (int \<times> time_server) option" where
  "oneshot_absolute cfg cid tid ns s =
     (if bad_tid cfg tid then Some (-1, s)
      else do {
        s \<leftarrow> time_server_lock s;
        r \<leftarrow> timer_ref s cid tid;
        s \<leftarrow> disarm r s;
        s \<leftarrow> tm_upd r (\<lambda>q. q\<lparr>tm_type := TIMER_TYPE_ABSOLUTE\<rparr>) s;
        s \<leftarrow> tm_upd r (\<lambda>q. q\<lparr>timeout_time := ns\<rparr>) s;
        s \<leftarrow> insert_timer r s;
        Some (0, time_server_unlock s)
      })"

definition periodic ::
  "tm_config \<Rightarrow> int \<Rightarrow> int \<Rightarrow> u64 \<Rightarrow> time_server \<Rightarrow> (int \<times> time_server) option" where
  "periodic cfg cid tid ns s =
     (if bad_tid cfg tid then Some (-1, s)
      else do {
        s \<leftarrow> time_server_lock s;
        r \<leftarrow> timer_ref s cid tid;
        s \<leftarrow> disarm r s;
        s \<leftarrow> tm_upd r (\<lambda>q. q\<lparr>tm_type := TIMER_TYPE_PERIODIC\<rparr>) s;
        s \<leftarrow> tm_upd r (\<lambda>q. q\<lparr>periodic_ns := ns\<rparr>) s;
        s \<leftarrow> tm_upd r (\<lambda>q. q\<lparr>timeout_time := current_time_ns s + ns\<rparr>) s;
        s \<leftarrow> insert_timer r s;
        Some (0, time_server_unlock s)
      })"

definition stop ::
  "tm_config \<Rightarrow> int \<Rightarrow> int \<Rightarrow> time_server \<Rightarrow> (int \<times> time_server) option" where
  "stop cfg cid tid s =
     (if bad_tid cfg tid then Some (-1, s)
      else do {
        s \<leftarrow> time_server_lock s;
        r \<leftarrow> timer_ref s cid tid;
        t \<leftarrow> tm_heap s r;
        s \<leftarrow> (if tm_type t \<noteq> TIMER_TYPE_OFF then do {
               s \<leftarrow> remove_timer r s;
               tm_upd r (\<lambda>q. q\<lparr>tm_type := TIMER_TYPE_OFF\<rparr>) s
             } else Some s);
        Some (0, time_server_unlock s)
      })"

definition take_completed :: "int \<Rightarrow> time_server \<Rightarrow> (u32 \<times> time_server) option" where
  "take_completed cid s = do {
     s \<leftarrow> time_server_lock s;
     c_assert (0 \<le> cid);
     cs \<leftarrow> array_get (client_states s) (nat cid);
     css \<leftarrow> array_set (client_states s) (nat cid) (cs\<lparr>completed := 0\<rparr>);
     let s = s\<lparr>client_states := css\<rparr>;
     Some (completed cs, time_server_unlock s)
   }"

text \<open>\<^verbatim>\<open>_time\<close> reads the clock without the lock.\<close>

definition read_time :: "int \<Rightarrow> time_server \<Rightarrow> u64" where
  "read_time cid s = current_time_ns s"

section \<open>The RPC interface\<close>

text \<open>The badge of the caller, a 32-bit word, becomes an \<^verbatim>\<open>int\<close> after the subtraction.\<close>

definition sender_cid :: "u32 \<Rightarrow> int" where
  "sender_cid badge = sint (badge - 1)"

definition the_timer_oneshot_relative ::
  "tm_config \<Rightarrow> u32 \<Rightarrow> int \<Rightarrow> u64 \<Rightarrow> time_server \<Rightarrow> (int \<times> time_server) option" where
  "the_timer_oneshot_relative cfg badge i ns = oneshot_relative cfg (sender_cid badge) i ns"

definition the_timer_oneshot_absolute ::
  "tm_config \<Rightarrow> u32 \<Rightarrow> int \<Rightarrow> u64 \<Rightarrow> time_server \<Rightarrow> (int \<times> time_server) option" where
  "the_timer_oneshot_absolute cfg badge i ns = oneshot_absolute cfg (sender_cid badge) i ns"

definition the_timer_periodic ::
  "tm_config \<Rightarrow> u32 \<Rightarrow> int \<Rightarrow> u64 \<Rightarrow> time_server \<Rightarrow> (int \<times> time_server) option" where
  "the_timer_periodic cfg badge i ns = periodic cfg (sender_cid badge) i ns"

definition the_timer_stop ::
  "tm_config \<Rightarrow> u32 \<Rightarrow> int \<Rightarrow> time_server \<Rightarrow> (int \<times> time_server) option" where
  "the_timer_stop cfg badge i = stop cfg (sender_cid badge) i"

definition the_timer_completed :: "u32 \<Rightarrow> time_server \<Rightarrow> (u32 \<times> time_server) option" where
  "the_timer_completed badge = take_completed (sender_cid badge)"

definition the_timer_time :: "u32 \<Rightarrow> time_server \<Rightarrow> u64" where
  "the_timer_time badge = read_time (sender_cid badge)"

definition the_timer_tsc_frequency :: u64 where
  "the_timer_tsc_frequency = TIMER_FREQUENCY"

section \<open>Initialisation\<close>

text \<open>The state before \<^verbatim>\<open>post_init\<close>: the initial values of the file's static variables.\<close>

definition time_server_boot :: time_server where
  "time_server_boot =
     \<lparr>timer_head = None, tm_heap = (\<lambda>_. None), client_states = [], the_current_time = 0,
      tm_locked = False, tm_events = []\<rparr>"

definition idle_timer :: "nat \<Rightarrow> nat \<Rightarrow> client_timer" where
  "idle_timer i j = \<lparr>tm_id = j, tm_client = i, tm_type = TIMER_TYPE_OFF, periodic_ns = 0,
     timeout_time = 0, tm_prev = None, tm_next = None\<rparr>"

text \<open>The two initialisation loops; the cells they write are distinct.\<close>

definition init_clients :: "tm_config \<Rightarrow> time_server \<Rightarrow> time_server" where
  "init_clients cfg s =
     s\<lparr>client_states := map (\<lambda>i. \<lparr>cs_id = i, completed = 0\<rparr>) [0..<largest_badge cfg],
       tm_heap := (\<lambda>(i, j). if i < largest_badge cfg \<and> j < timers_per_client cfg
                            then Some (idle_timer i j) else None)\<rparr>"

text \<open>The \<^verbatim>\<open>switch\<close>: the device selected by the attribute, if there is one.\<close>

definition timer_device :: "tm_config \<Rightarrow> nat option" where
  "timer_device cfg = find (\<lambda>k. tmr_code cfg k = nvtmr_number cfg) [0..<10]"

text \<open>
  \<open>mem_ok\<close>: the allocations succeed; \<open>dev_ok\<close>: \<^verbatim>\<open>nv_get_timer\<close> gives a timer (both asserted).
\<close>

definition tm_post_init :: "tm_config \<Rightarrow> bool \<Rightarrow> bool \<Rightarrow> time_server \<Rightarrow> time_server option" where
  "tm_post_init cfg mem_ok dev_ok s = do {
     s \<leftarrow> time_server_lock s;
     c_assert mem_ok;
     let s = init_clients cfg s;
     (case timer_device cfg of
        None \<Rightarrow> Some s
      | Some k \<Rightarrow> do {
          let s = tm_emit (Nv_get_timer (tmr_offset cfg k) (tmr_irq cfg k)) s;
          c_assert dev_ok;
          let s = tm_emit Irq_acknowledge s;
          let s = tm_emit Timer_start s;
          let s = tm_emit (Timer_periodic (TIMER_PERIOD (ns_in_s cfg))) s;
          Some (time_server_unlock s)
        })
   }"

section \<open>The example client\<close>

text \<open>\<^verbatim>\<open>components/TimeClient/src/client.c\<close> starts its timer 0 with a period of one second.\<close>

definition client_post_init ::
  "tm_config \<Rightarrow> u32 \<Rightarrow> time_server \<Rightarrow> (int \<times> time_server) option" where
  "client_post_init cfg badge = the_timer_periodic cfg badge 0 1000000000"

text \<open>Its callback prints the time it gets from the server; the value is what it prints.\<close>

definition timer_complete_callback :: "u32 \<Rightarrow> time_server \<Rightarrow> u64" where
  "timer_complete_callback badge s = the_timer_time badge s"

end
