(* ===== verification/Time_List.thy ===== *)
theory Time_List
  imports Time_Server
begin

text \<open>
  The doubly linked list of armed timers (\<^verbatim>\<open>remove_timer\<close> and \<^verbatim>\<open>insert_timer\<close> of
  \<^verbatim>\<open>time_server.c\<close>). \<open>dseg\<close> says that a sequence of addresses is linked in both directions in
  the heap; the two routines are proved to implement \<open>remove1\<close> and \<open>insort_key\<close> on it, to
  change nothing but links, and so to be a sorted queue (locale \<open>sorted_queue\<close>), on whose derived
  facts the entry points rest.
\<close>

section \<open>Doubly linked segments\<close>

text \<open>
  \<open>dseg h p r xs l q\<close>: from the pointer \<open>r\<close>, whose target points back to \<open>p\<close>, the heap holds
  the objects \<open>xs\<close>; \<open>l\<close> points to the last of them (or is \<open>p\<close>), whose next pointer is \<open>q\<close>.
\<close>

fun dseg :: "(tref \<Rightarrow> client_timer option) \<Rightarrow> tref option \<Rightarrow> tref option \<Rightarrow> tref list \<Rightarrow>
    tref option \<Rightarrow> tref option \<Rightarrow> bool" where
  "dseg h p r [] l q \<longleftrightarrow> r = q \<and> l = p"
| "dseg h p r (x # xs) l q \<longleftrightarrow> r = Some x \<and>
     (case h x of None \<Rightarrow> False
      | Some t \<Rightarrow> tm_prev t = p \<and> dseg h (Some x) (tm_next t) xs l q)"

lemma dseg_append:
  "dseg h p r (xs @ ys) l q \<longleftrightarrow> (\<exists>m n. dseg h p r xs m n \<and> dseg h m n ys l q)"
  by (induction xs arbitrary: p r) (auto split: option.splits)

lemma dseg_frame: "x \<notin> set xs \<Longrightarrow> dseg (h(x := t)) p r xs l q = dseg h p r xs l q"
  by (induction xs arbitrary: p r) (auto split: option.splits)

lemma dseg_dom: "dseg h p r xs l q \<Longrightarrow> x \<in> set xs \<Longrightarrow> \<exists>t. h x = Some t"
  by (induction xs arbitrary: p r) (auto split: option.splits)

lemma dseg_set_next:
  "dseg h p r (xs @ [a]) l q \<Longrightarrow> a \<notin> set xs \<Longrightarrow> h a = Some t \<Longrightarrow>
   dseg (h(a \<mapsto> t\<lparr>tm_next := q'\<rparr>)) p r (xs @ [a]) l q'"
  by (auto simp: dseg_append dseg_frame)

lemma dseg_set_prev:
  "dseg h p r (b # xs) l q \<Longrightarrow> b \<notin> set xs \<Longrightarrow> h b = Some t \<Longrightarrow>
   dseg (h(b \<mapsto> t\<lparr>tm_prev := p'\<rparr>)) p' r (b # xs) l q"
  by (auto simp: dseg_frame)

text \<open>What the list operations leave alone: everything in a timer but its links.\<close>

definition strip :: "client_timer \<Rightarrow> client_timer" where
  "strip t = t\<lparr>tm_prev := None, tm_next := None\<rparr>"

definition payload :: "(tref \<Rightarrow> client_timer option) \<Rightarrow> tref \<Rightarrow> client_timer option" where
  "payload h = (\<lambda>r. map_option strip (h r))"

lemma strip_links [simp]:
  "strip (t\<lparr>tm_prev := p\<rparr>) = strip t" "strip (t\<lparr>tm_next := p\<rparr>) = strip t"
  by (simp_all add: strip_def)

lemma strip_fields [simp]:
  "tm_id (strip t) = tm_id t" "tm_client (strip t) = tm_client t" "tm_type (strip t) = tm_type t"
  "periodic_ns (strip t) = periodic_ns t" "timeout_time (strip t) = timeout_time t"
  by (simp_all add: strip_def)

lemma strip_updates [simp]:
  "strip (t\<lparr>tm_type := ty\<rparr>) = (strip t)\<lparr>tm_type := ty\<rparr>"
  "strip (t\<lparr>periodic_ns := n\<rparr>) = (strip t)\<lparr>periodic_ns := n\<rparr>"
  "strip (t\<lparr>timeout_time := n\<rparr>) = (strip t)\<lparr>timeout_time := n\<rparr>"
  by (simp_all add: strip_def)

lemma payload_upd:
  "payload (h(r := x)) = (payload h)(r := map_option strip x)"
  by (auto simp: payload_def)

lemma payload_upd_same:
  "h r = Some t \<Longrightarrow> strip t' = strip t \<Longrightarrow> (payload h)(r \<mapsto> strip t') = payload h"
  by (auto simp: payload_def)

lemma payload_None: "payload h r = None \<longleftrightarrow> h r = None"
  by (simp add: payload_def)

lemma payload_SomeD: "payload h = payload h' \<Longrightarrow> h r = Some t \<Longrightarrow> \<exists>t'. h' r = Some t' \<and> strip t' = strip t"
  by (cases "h' r"; drule fun_cong [where x = r]) (simp_all add: payload_def)

section \<open>The two routines on linked lists\<close>

definition tq_rep :: "time_server \<Rightarrow> tref list \<Rightarrow> bool" where
  "tq_rep s xs \<longleftrightarrow> distinct xs \<and> (\<exists>l. dseg (tm_heap s) None (timer_head s) xs l None)"

text \<open>\<open>core s\<close>: the server without its links.\<close>

definition core :: "time_server \<Rightarrow> time_server" where
  "core s = s\<lparr>timer_head := None, tm_heap := payload (tm_heap s)\<rparr>"

lemma core_simps [simp]:
  "timer_head (core s) = None" "tm_heap (core s) = payload (tm_heap s)"
  "client_states (core s) = client_states s" "the_current_time (core s) = the_current_time s"
  "tm_locked (core s) = tm_locked s" "tm_events (core s) = tm_events s"
  by (simp_all add: core_def)

lemma core_eq_iff:
  "core s' = core s \<longleftrightarrow> payload (tm_heap s') = payload (tm_heap s) \<and>
     client_states s' = client_states s \<and> the_current_time s' = the_current_time s \<and>
     tm_locked s' = tm_locked s \<and> tm_events s' = tm_events s"
  by (cases s; cases s') (auto simp: core_def)

definition due :: "time_server \<Rightarrow> tref \<Rightarrow> u64" where
  "due s r = (case tm_heap s r of Some t \<Rightarrow> timeout_time t | None \<Rightarrow> 0)"

lemma remove_timer_rep:
  assumes "tq_rep s xs" "x \<in> set xs"
  shows "ok (remove_timer x s) (\<lambda>s'. core s' = core s \<and> tq_rep s' (remove1 x xs))"
proof -
  let ?h = "tm_heap s"
  obtain as bs where xs: "xs = as @ x # bs" "x \<notin> set as"
    using assms(2) by (meson split_list_first)
  have dist: "distinct (as @ x # bs)"
    using assms(1) xs by (simp add: tq_rep_def)
  obtain m l t where as: "dseg ?h None (timer_head s) as m (Some x)"
      and x: "?h x = Some t" "tm_prev t = m"
      and bs: "dseg ?h (Some x) (tm_next t) bs l None"
    using assms(1) by (auto simp: tq_rep_def xs dseg_append split: option.splits)
  have [simp]: "remove1 x xs = as @ bs"
    using xs by (simp add: remove1_append)
  show ?thesis
  proof (cases as rule: rev_cases)
    case Nil
    with as have m: "timer_head s = Some x" "m = None" by auto
    show ?thesis
    proof (cases bs)
      case Nil
      with m x bs \<open>as = []\<close> show ?thesis
        by (auto simp: remove_timer_def tq_rep_def core_eq_iff)
    next
      case (Cons b bs')
      with m x bs \<open>as = []\<close> dist show ?thesis
        by (auto simp: remove_timer_def tq_rep_def core_eq_iff tm_upd_def payload_upd payload_upd_same dseg_frame
              split: option.splits)
    qed
  next
    case (snoc as' a)
    show ?thesis
    proof (cases bs)
      case Nil
      with x as bs snoc dist show ?thesis
        by (auto simp: remove_timer_def tq_rep_def core_eq_iff tm_upd_def payload_upd payload_upd_same dseg_frame
              dseg_append split: option.splits)
    next
      case (Cons b bs')
      with x as bs snoc dist show ?thesis
        by (auto simp: remove_timer_def tq_rep_def core_eq_iff tm_upd_def payload_upd payload_upd_same dseg_frame
              dseg_append split: option.splits)
    qed
  qed
qed

lemma insert_scan_rep:
  "dseg h p r xs l None \<Longrightarrow>
   \<exists>m n. insert_scan h tmo p r = Some (m, n) \<and>
     dseg h p r (takeWhile (\<lambda>y. timeout_time (the (h y)) < tmo) xs) m n \<and>
     dseg h m n (dropWhile (\<lambda>y. timeout_time (the (h y)) < tmo) xs) l None"
proof (induction xs arbitrary: p r)
  case Nil
  then show ?case by (simp add: insert_scan.simps)
next
  case (Cons x xs)
  then obtain t where t: "r = Some x" "h x = Some t" "tm_prev t = p"
      "dseg h (Some x) (tm_next t) xs l None"
    by (auto split: option.splits)
  show ?case
  proof (cases "timeout_time t < tmo")
    case True
    with t Cons.IH [OF t(4)] show ?thesis
      by (subst insert_scan.simps) auto
  next
    case False
    with t show ?thesis by (simp add: insert_scan.simps)
  qed
qed

lemma insort_key_split:
  "insort_key f x xs = takeWhile (\<lambda>y. f y < f x) xs @ x # dropWhile (\<lambda>y. f y < f x) xs"
  by (induction xs) (auto simp: not_less)

lemma insert_timer_rep:
  assumes "tq_rep s xs" "x \<notin> set xs" "tm_heap s x \<noteq> None"
  shows "ok (insert_timer x s) (\<lambda>s'. core s' = core s \<and> tq_rep s' (insort_key (due s) x xs))"
proof -
  let ?h = "tm_heap s"
  obtain t where t: "?h x = Some t" using assms(3) by auto
  let ?P = "\<lambda>y. timeout_time (the (?h y)) < timeout_time t"
  obtain l where l: "dseg ?h None (timer_head s) xs l None" and dist: "distinct xs"
    using assms(1) by (auto simp: tq_rep_def)
  define as bs where ab: "as = takeWhile ?P xs" "bs = dropWhile ?P xs"
  obtain m n where scan: "insert_scan ?h (timeout_time t) None (timer_head s) = Some (m, n)"
      and as: "dseg ?h None (timer_head s) as m n" and bs: "dseg ?h m n bs l None"
    using insert_scan_rep [OF l, of "timeout_time t"] by (auto simp: ab)
  have "due s y = timeout_time (the (?h y))" if "y \<in> set xs" for y
    using dseg_dom [OF l that] by (auto simp: due_def)
  moreover have "due s x = timeout_time t" using t by (simp add: due_def)
  ultimately have ins: "insort_key (due s) x xs = as @ x # bs"
    by (simp add: insort_key_split ab cong: takeWhile_cong dropWhile_cong)
  have xs: "xs = as @ bs" by (simp add: ab)
  have fresh: "x \<notin> set as" "x \<notin> set bs" "distinct as" "distinct bs" "set as \<inter> set bs = {}"
    using assms(2) dist by (auto simp: xs)
  note defs = insert_timer_def tq_rep_def core_eq_iff tm_upd_def payload_upd payload_upd_same dseg_frame
    dseg_append
  show ?thesis
    unfolding ins
  proof (cases as rule: rev_cases)
    case Nil
    show "ok (insert_timer x s) (\<lambda>s'. core s' = core s \<and> tq_rep s' (as @ x # bs))"
      using Nil scan as bs t fresh
      by (cases bs) (auto simp: defs split: option.splits)
  next
    case (snoc as' a)
    show "ok (insert_timer x s) (\<lambda>s'. core s' = core s \<and> tq_rep s' (as @ x # bs))"
      using snoc scan as bs t fresh
      by (cases bs) (auto simp: defs split: option.splits)
  qed
qed

section \<open>The contract of a sorted queue\<close>

text \<open>
  What the entry points use of the list: objects of the state hang in a queue ordered by a key;
  \<open>enq\<close> puts an object in, \<open>deq\<close> takes one out, and neither touches the rest (\<open>core\<close>). From the
  two laws about sequences follow laws about sets, in which the order is an invariant.
\<close>

definition holds_sorted ::
  "('s \<Rightarrow> 'r list \<Rightarrow> bool) \<Rightarrow> ('c \<Rightarrow> 'r \<Rightarrow> 'k::linorder) \<Rightarrow> ('s \<Rightarrow> 'c) \<Rightarrow> 's \<Rightarrow> 'r set \<Rightarrow> bool" where
  "holds_sorted rep key cr s X \<longleftrightarrow>
     (\<exists>xs. rep s xs \<and> sorted (map (key (cr s)) xs) \<and> set xs = X)"

locale sorted_queue =
  fixes rep :: "'s \<Rightarrow> 'r list \<Rightarrow> bool"
    and key :: "'c \<Rightarrow> 'r \<Rightarrow> 'k::linorder"
    and cr :: "'s \<Rightarrow> 'c"
    and known :: "'c \<Rightarrow> 'r set"
    and top :: "'s \<Rightarrow> 'r option"
    and enq :: "'r \<Rightarrow> 's \<Rightarrow> 's option"
    and deq :: "'r \<Rightarrow> 's \<Rightarrow> 's option"
  assumes rep_distinct: "rep s xs \<Longrightarrow> distinct xs"
    and rep_top: "rep s xs \<Longrightarrow> top s = (case xs of [] \<Rightarrow> None | x # _ \<Rightarrow> Some x)"
    and enq_rep: "rep s xs \<Longrightarrow> x \<notin> set xs \<Longrightarrow> x \<in> known (cr s) \<Longrightarrow>
      ok (enq x s) (\<lambda>s'. cr s' = cr s \<and> rep s' (insort_key (key (cr s)) x xs))"
    and deq_rep: "rep s xs \<Longrightarrow> x \<in> set xs \<Longrightarrow>
      ok (deq x s) (\<lambda>s'. cr s' = cr s \<and> rep s' (remove1 x xs))"
begin

abbreviation queue :: "'s \<Rightarrow> 'r set \<Rightarrow> bool" where
  "queue \<equiv> holds_sorted rep key cr"

lemma enq_queue:
  assumes "queue s X" "x \<notin> X" "x \<in> known (cr s)"
  shows "ok (enq x s) (\<lambda>s'. cr s' = cr s \<and> queue s' (insert x X))"
proof -
  obtain xs where xs: "rep s xs" "sorted (map (key (cr s)) xs)" "set xs = X"
    using assms(1) by (auto simp: holds_sorted_def)
  show ?thesis
    using enq_rep [OF xs(1), of x] assms(2,3) xs
    by (auto simp: holds_sorted_def set_insort_key sorted_insort_key elim!: ok_mono)
qed

lemma deq_queue:
  assumes "queue s X" "x \<in> X"
  shows "ok (deq x s) (\<lambda>s'. cr s' = cr s \<and> queue s' (X - {x}))"
proof -
  obtain xs where xs: "rep s xs" "sorted (map (key (cr s)) xs)" "set xs = X"
    using assms(1) by (auto simp: holds_sorted_def)
  show ?thesis
    using deq_rep [OF xs(1), of x] assms(2) xs rep_distinct [OF xs(1)]
    by (auto simp: holds_sorted_def sorted_map_remove1 elim!: ok_mono)
qed

lemma queue_top_None: "queue s X \<Longrightarrow> top s = None \<longleftrightarrow> X = {}"
  by (auto simp: holds_sorted_def rep_top split: list.splits)

lemma queue_top_least:
  assumes "queue s X" "top s = Some x"
  shows "x \<in> X \<and> (\<forall>y\<in>X. key (cr s) x \<le> key (cr s) y)"
  using assms by (auto simp: holds_sorted_def rep_top split: list.splits)

end

lemma due_core [simp]: "due (core s) = due s"
  by (auto simp: due_def payload_def fun_eq_iff split: option.splits)

lemma tq_rep_top: "tq_rep s xs \<Longrightarrow> timer_head s = (case xs of [] \<Rightarrow> None | x # _ \<Rightarrow> Some x)"
  by (auto simp: tq_rep_def split: list.splits)

interpretation tq: sorted_queue tq_rep due core "\<lambda>c. dom (tm_heap c)" timer_head insert_timer remove_timer
proof unfold_locales
  fix s xs and x :: tref
  assume rep: "tq_rep s xs"
  show "distinct xs" using rep by (simp add: tq_rep_def)
  show "timer_head s = (case xs of [] \<Rightarrow> None | x # _ \<Rightarrow> Some x)" by (rule tq_rep_top [OF rep])
  show "x \<in> set xs \<Longrightarrow> ok (remove_timer x s) (\<lambda>s'. core s' = core s \<and> tq_rep s' (remove1 x xs))"
    by (rule remove_timer_rep [OF rep])
  show "x \<notin> set xs \<Longrightarrow> x \<in> dom (tm_heap (core s)) \<Longrightarrow>
      ok (insert_timer x s) (\<lambda>s'. core s' = core s \<and> tq_rep s' (insort_key (due (core s)) x xs))"
    using insert_timer_rep [OF rep, of x] by (auto simp: payload_def)
qed

text \<open>A timer that is not in the list can be written to.\<close>

lemma queue_off_list:
  assumes "tq.queue s X" "r \<notin> X"
  shows "tq.queue (s\<lparr>tm_heap := (tm_heap s)(r \<mapsto> t)\<rparr>) X"
proof -
  obtain xs where xs: "tq_rep s xs" "sorted (map (due s) xs)" "set xs = X"
    using assms(1) by (auto simp: holds_sorted_def)
  let ?s = "s\<lparr>tm_heap := (tm_heap s)(r \<mapsto> t)\<rparr>"
  have "map (due ?s) xs = map (due s) xs"
    using assms(2) xs(3) by (auto simp: due_def)
  then have "sorted (map (due ?s) xs)"
    by (simp only: xs(2))
  moreover have "tq_rep ?s xs"
    using xs assms(2) by (auto simp: tq_rep_def dseg_frame)
  ultimately show ?thesis
    unfolding holds_sorted_def due_core using xs(3) by blast
qed

lemma tm_upd_queue:
  assumes "tq.queue s X" "r \<notin> X" "r \<in> dom (tm_heap s)"
    and "\<And>t. strip (f t) = f (strip t)"
  shows "ok (tm_upd r f s) (\<lambda>s'. tq.queue s' X \<and>
    core s' = (core s)\<lparr>tm_heap := (tm_heap (core s))(r \<mapsto> f (the (tm_heap (core s) r)))\<rparr>)"
proof -
  obtain t where t: "tm_heap s r = Some t" using assms(3) by auto
  show ?thesis
    using t assms(4) queue_off_list [OF assms(1,2), of "f t"]
    by (auto simp: tm_upd_def core_def payload_upd) (simp add: payload_def)
qed

end
