(* ===== verification/Time_Laws.thy ===== *)
theory Time_Laws
  imports Time_List
begin

text \<open>
  What the time server promises, without its list: a set of armed alarms, a clock, the pending
  flags of each client and the number of notifications each badge has been sent. The handlers of
  \<^verbatim>\<open>time_server.c\<close> are proved to implement it; in particular the loop of \<^verbatim>\<open>signal_clients\<close>
  ends, after one turn per expiry, in a state that does not depend on the order of its turns.
\<close>

section \<open>Specification\<close>

datatype alarm = Once u64 | Every u64 u64

record timer_spec =
  a_now :: u64
  a_armed :: "tref \<Rightarrow> alarm option"
  a_done :: "u32 list"
  a_signals :: "nat \<Rightarrow> nat"

text \<open>How often an alarm goes off up to a point in time, and what is left of it.\<close>

definition fires :: "u64 \<Rightarrow> alarm \<Rightarrow> nat" where
  "fires now al = (case al of
      Once d \<Rightarrow> if d \<le> now then 1 else 0
    | Every p d \<Rightarrow> if d \<le> now then (unat now - unat d) div unat p + 1 else 0)"

definition expire :: "u64 \<Rightarrow> alarm \<Rightarrow> alarm option" where
  "expire now al = (case al of
      Once d \<Rightarrow> if d \<le> now then None else Some al
    | Every p d \<Rightarrow> Some (Every p (d + of_nat (fires now al) * p)))"

definition fires_opt :: "u64 \<Rightarrow> alarm option \<Rightarrow> nat" where
  "fires_opt now x = (case x of None \<Rightarrow> 0 | Some al \<Rightarrow> fires now al)"

definition due_bits :: "nat \<Rightarrow> (nat \<Rightarrow> bool) \<Rightarrow> u32" where
  "due_bits n P = fold (\<lambda>i w. if P i then w OR BIT i else w) [0..<n] 0"

definition drain :: "nat \<Rightarrow> u64 \<Rightarrow> timer_spec \<Rightarrow> timer_spec" where
  "drain n now a = a\<lparr>
     a_armed := (\<lambda>r. Option.bind (a_armed a r) (expire now)),
     a_done := map (\<lambda>c. a_done a ! c OR due_bits n (\<lambda>i. 0 < fires_opt now (a_armed a (c, i))))
                 [0..<length (a_done a)],
     a_signals := (\<lambda>b. a_signals a b +
        (case b of 0 \<Rightarrow> 0 | Suc c \<Rightarrow> \<Sum>i<n. fires_opt now (a_armed a (c, i))))\<rparr>"

definition spec_tick :: "tm_config \<Rightarrow> timer_spec \<Rightarrow> timer_spec" where
  "spec_tick cfg a =
     (let now = a_now a + TIMER_PERIOD (ns_in_s cfg)
      in drain (timers_per_client cfg) now (a\<lparr>a_now := now\<rparr>))"

definition spec_arm :: "tref \<Rightarrow> alarm option \<Rightarrow> timer_spec \<Rightarrow> timer_spec" where
  "spec_arm r al a = a\<lparr>a_armed := (a_armed a)(r := al)\<rparr>"

section \<open>One expiry at a time\<close>

definition advance :: "alarm \<Rightarrow> alarm option" where
  "advance al = (case al of Once d \<Rightarrow> None | Every p d \<Rightarrow> Some (Every p (d + p)))"

definition spec_signal :: "tref \<Rightarrow> timer_spec \<Rightarrow> timer_spec" where
  "spec_signal r a = a\<lparr>
     a_armed := (a_armed a)(r := Option.bind (a_armed a r) advance),
     a_done := (a_done a)[fst r := a_done a ! fst r OR BIT (snd r)],
     a_signals := (a_signals a)(Suc (fst r) := a_signals a (Suc (fst r)) + 1)\<rparr>"

text \<open>Enough room above \<open>now\<close> for a further period, and no period of zero.\<close>

definition alarm_fits :: "u64 \<Rightarrow> alarm \<Rightarrow> bool" where
  "alarm_fits now al = (case al of
      Once d \<Rightarrow> True
    | Every p d \<Rightarrow> 0 < p \<and> unat now + unat p < 2 ^ 64)"

definition all_fit :: "u64 \<Rightarrow> timer_spec \<Rightarrow> bool" where
  "all_fit now a \<longleftrightarrow> (\<forall>r al. a_armed a r = Some al \<longrightarrow> alarm_fits now al)"

lemma unat_add_fits: "unat (a::u64) + unat b < 2 ^ 64 \<Longrightarrow> unat (a + b) = unat a + unat b"
  by (simp add: unat_word_ariths)

lemma fires_advance:
  assumes "0 < fires now al" "alarm_fits now al"
  shows "fires now al = Suc (fires_opt now (advance al))"
proof (cases al)
  case (Once d)
  then show ?thesis using assms by (auto simp: fires_def advance_def fires_opt_def split: if_splits)
next
  case (Every p d)
  with assms have d: "unat d \<le> unat now" and p: "0 < unat p" and "unat now + unat p < 2 ^ 64"
    by (auto simp: fires_def alarm_fits_def word_le_nat_alt word_less_nat_alt split: if_splits)
  then have dp: "unat (d + p) = unat d + unat p" by (intro unat_add_fits) simp
  show ?thesis
  proof (cases "d + p \<le> now")
    case True
    then have le: "unat d + unat p \<le> unat now" by (simp add: word_le_nat_alt dp)
    then have "(unat now - unat d) div unat p = Suc ((unat now - (unat d + unat p)) div unat p)"
      using p le_div_geq [of "unat p" "unat now - unat d"] by (simp add: diff_diff_left)
    with True d show ?thesis
      by (simp add: Every fires_def fires_opt_def advance_def dp word_le_nat_alt)
  next
    case False
    then have "unat now - unat d < unat p" using d by (simp add: word_le_nat_alt dp)
    with False d show ?thesis
      by (simp add: Every fires_def fires_opt_def advance_def word_le_nat_alt)
  qed
qed

lemma expire_advance:
  assumes "0 < fires now al" "alarm_fits now al"
  shows "Option.bind (advance al) (expire now) = expire now al"
proof (cases al)
  case (Once d)
  then show ?thesis using assms by (auto simp: fires_def advance_def expire_def split: if_splits)
next
  case (Every p d)
  then have "fires now al = Suc (fires now (Every p (d + p)))"
    using fires_advance [OF assms] by (simp add: advance_def fires_opt_def)
  then show ?thesis
    by (simp add: Every advance_def expire_def algebra_simps)
qed

lemma expire_idle: "fires now al = 0 \<Longrightarrow> expire now al = Some al"
  by (cases al) (auto simp: fires_def expire_def split: if_splits)

lemma alarm_fits_advance: "alarm_fits now al \<Longrightarrow> advance al = Some al' \<Longrightarrow> alarm_fits now al'"
  by (cases al) (auto simp: alarm_fits_def advance_def)

lemma bit_due_bits: "bit (due_bits n P) j \<longleftrightarrow> j < n \<and> j < 32 \<and> P j"
  unfolding due_bits_def by (induction n) (auto simp: bit_or_iff bit_BIT less_Suc_eq)

lemma bit_spec_done:
  "P' = P(i := b) \<Longrightarrow> P i \<Longrightarrow> i < n \<Longrightarrow> w OR BIT i OR due_bits n P' = w OR due_bits n P"
  by (rule bit_word_eqI) (auto simp: bit_or_iff bit_BIT bit_due_bits)

lemma sum_fun_upd:
  fixes f :: "'a \<Rightarrow> nat"
  assumes "finite A" "i \<in> A" "f i = Suc y"
  shows "Suc (\<Sum>j\<in>A. (f(i := y)) j) = (\<Sum>j\<in>A. f j)"
proof -
  have "(\<Sum>j\<in>A - {i}. (f(i := y)) j) = (\<Sum>j\<in>A - {i}. f j)"
    by (rule sum.cong) auto
  with assms show ?thesis
    by (simp only: sum.remove [of A i f] sum.remove [of A i "f(i := y)"] fun_upd_same)
qed

lemma nth_drain:
  "k < length (a_done a) \<Longrightarrow> a_done (drain n now a) ! k =
     a_done a ! k OR due_bits n (\<lambda>i. 0 < fires_opt now (a_armed a (k, i)))"
  by (simp add: drain_def)

lemma length_spec_signal [simp]: "length (a_done (spec_signal r a)) = length (a_done a)"
  by (simp add: spec_signal_def)

text \<open>The two laws of \<open>drain\<close> on which the loop rests.\<close>

lemma drain_signal:
  assumes "a_armed a (c, i) = Some al" "0 < fires now al" "alarm_fits now al" "i < n"
  shows "drain n now (spec_signal (c, i) a) = drain n now a"
proof -
  let ?a = "spec_signal (c, i) a"
  have armed: "a_armed ?a = (a_armed a)((c, i) := advance al)"
    using assms(1) by (simp add: spec_signal_def)
  have f: "fires_opt now (a_armed a (c, i)) = Suc (fires_opt now (advance al))"
    using fires_advance [OF assms(2,3)] assms(1) by (simp add: fires_opt_def)
  have other: "fires_opt now (a_armed ?a (c', j)) = fires_opt now (a_armed a (c', j))"
    if "c' \<noteq> c" for c' j
    using that by (simp add: armed)
  have row: "(\<lambda>j. fires_opt now (a_armed ?a (c, j))) =
      (\<lambda>j. fires_opt now (a_armed a (c, j)))(i := fires_opt now (advance al))"
    by (auto simp: armed)
  have "a_armed (drain n now ?a) = a_armed (drain n now a)"
    using expire_advance [OF assms(2,3)] assms(1) by (auto simp: drain_def armed)
  moreover have "a_done (drain n now ?a) = a_done (drain n now a)"
  proof (rule nth_equalityI)
    show "length (a_done (drain n now ?a)) = length (a_done (drain n now a))"
      by (simp add: drain_def spec_signal_def)
    fix k
    assume "k < length (a_done (drain n now ?a))"
    then have k: "k < length (a_done a)"
      by (simp add: drain_def spec_signal_def)
    show "a_done (drain n now ?a) ! k = a_done (drain n now a) ! k"
    proof (cases "k = c")
      case True
      have "(\<lambda>j. 0 < fires_opt now (a_armed ?a (c, j))) =
          (\<lambda>j. 0 < fires_opt now (a_armed a (c, j)))(i := 0 < fires_opt now (advance al))"
        using row by (auto simp: fun_eq_iff)
      from bit_spec_done [OF this _ assms(4), of "a_done a ! c"] f True k show ?thesis
        by (simp only: nth_drain length_spec_signal) (simp add: spec_signal_def or.assoc)
    next
      case False
      with k show ?thesis
        by (simp add: nth_drain other) (simp add: spec_signal_def)
    qed
  qed
  moreover have "a_signals (drain n now ?a) = a_signals (drain n now a)"
  proof
    fix b
    show "a_signals (drain n now ?a) b = a_signals (drain n now a) b"
    proof (cases "b = Suc c")
      case True
      then show ?thesis
        using sum_fun_upd [of "{..<n}" i "\<lambda>j. fires_opt now (a_armed a (c, j))", OF _ _ f] assms(4)
        by (simp add: drain_def row [THEN fun_cong]) (simp add: spec_signal_def)
    next
      case False
      then show ?thesis
        by (cases b) (simp_all add: drain_def other, simp_all add: spec_signal_def)
    qed
  qed
  ultimately show ?thesis
    by (simp add: drain_def spec_signal_def)
qed

lemma drain_idle:
  assumes "\<And>r al. a_armed a r = Some al \<Longrightarrow> fires now al = 0"
  shows "drain n now a = a"
proof -
  have "fires_opt now (a_armed a r) = 0" for r
    using assms by (auto simp: fires_opt_def split: option.split)
  moreover have "Option.bind (a_armed a r) (expire now) = a_armed a r" for r
    using assms [of r] by (cases "a_armed a r") (auto simp: expire_idle)
  moreover have "due_bits n (\<lambda>i. False) = 0"
    by (rule bit_word_eqI) (simp add: bit_due_bits)
  ultimately show ?thesis
    by (simp add: drain_def map_nth) (simp split: nat.split add: fun_eq_iff)
qed

lemma all_fit_signal: "all_fit now a \<Longrightarrow> all_fit now (spec_signal r a)"
  by (auto simp: all_fit_def spec_signal_def bind_splits split: if_splits
      intro: alarm_fits_advance [rotated])

text \<open>The number of turns of the loop.\<close>

definition turns :: "tm_config \<Rightarrow> u64 \<Rightarrow> timer_spec \<Rightarrow> nat" where
  "turns cfg now a = (\<Sum>r\<in>{..<largest_badge cfg} \<times> {..<timers_per_client cfg}.
     fires_opt now (a_armed a r))"

lemma turns_signal:
  assumes "a_armed a r = Some al" "0 < fires now al" "alarm_fits now al"
    "fst r < largest_badge cfg" "snd r < timers_per_client cfg"
  shows "Suc (turns cfg now (spec_signal r a)) = turns cfg now a"
proof -
  have row: "(\<lambda>q. fires_opt now (a_armed (spec_signal r a) q)) =
      (\<lambda>q. fires_opt now (a_armed a q))(r := fires_opt now (advance al))"
    using assms(1) by (auto simp: spec_signal_def)
  have "fires_opt now (a_armed a r) = Suc (fires_opt now (advance al))"
    using fires_advance [OF assms(2,3)] assms(1) by (simp add: fires_opt_def)
  then show ?thesis
    unfolding turns_def row using assms(4,5)
    by (intro sum_fun_upd) (simp_all add: mem_Times_iff)
qed

end
