(* ===== verification/Time_Refine.thy ===== *)
theory Time_Refine
  imports Time_Laws
begin

text \<open>
  The handlers of the time server implement the specification of \<open>Time_Laws\<close>: the abstraction
  \<open>spec_of\<close>, the invariant of the heap, one refinement lemma per entry point, and the properties
  of \<^verbatim>\<open>time_server.c\<close> as a whole.
\<close>

section \<open>Abstraction and invariant\<close>

definition alarm_of :: "client_timer \<Rightarrow> alarm option" where
  "alarm_of t =
     (if tm_type t = TIMER_TYPE_OFF then None
      else if tm_type t = TIMER_TYPE_PERIODIC then Some (Every (periodic_ns t) (timeout_time t))
      else Some (Once (timeout_time t)))"

definition spec_of :: "time_server \<Rightarrow> timer_spec" where
  "spec_of s =
     \<lparr>a_now = the_current_time s,
      a_armed = (\<lambda>r. Option.bind (tm_heap s r) alarm_of),
      a_done = map completed (client_states s),
      a_signals = (\<lambda>b. count_list (tm_events s) (Emit b))\<rparr>"

definition armed :: "time_server \<Rightarrow> tref set" where
  "armed s = dom (a_armed (spec_of s))"

definition tm_shape :: "tm_config \<Rightarrow> time_server \<Rightarrow> bool" where
  "tm_shape cfg c \<longleftrightarrow> length (client_states c) = largest_badge cfg \<and>
     (\<forall>i j. tm_heap c (i, j) \<noteq> None \<longleftrightarrow> i < largest_badge cfg \<and> j < timers_per_client cfg) \<and>
     (\<forall>r t. tm_heap c r = Some t \<longrightarrow> (tm_client t, tm_id t) = r \<and> tm_type t \<in> {0, 1, 2, 3})"

definition tm_queue :: "tm_config \<Rightarrow> time_server \<Rightarrow> bool" where
  "tm_queue cfg s \<longleftrightarrow> tm_shape cfg (core s) \<and> tq.queue s (armed s)"

definition tm_inv :: "tm_config \<Rightarrow> time_server \<Rightarrow> bool" where
  "tm_inv cfg s \<longleftrightarrow> tm_queue cfg s \<and> \<not> tm_locked s"

definition cfg_ok :: "tm_config \<Rightarrow> bool" where
  "cfg_ok cfg \<longleftrightarrow> timers_per_client cfg \<le> 32 \<and> largest_badge cfg < 2 ^ 31"

lemma alarm_of_strip [simp]: "alarm_of (strip t) = alarm_of t"
  by (simp add: alarm_of_def)

lemma spec_of_core [simp]: "spec_of (core s) = spec_of s"
  by (auto simp: spec_of_def payload_def fun_eq_iff split: Option.bind_split)

lemma armed_core [simp]: "armed (core s) = armed s"
  by (simp add: armed_def)

lemma armed_eq: "core s' = core s \<Longrightarrow> armed s' = armed s"
  by (metis armed_core)

lemma spec_of_eq: "core s' = core s \<Longrightarrow> spec_of s' = spec_of s"
  by (metis spec_of_core)

lemma queue_cong:
  "timer_head s' = timer_head s \<Longrightarrow> tm_heap s' = tm_heap s \<Longrightarrow> tq.queue s' X = tq.queue s X"
  by (simp add: holds_sorted_def tq_rep_def due_def [abs_def])

lemma core_upd [simp]:
  "core (s\<lparr>client_states := cs\<rparr>) = (core s)\<lparr>client_states := cs\<rparr>"
  "core (s\<lparr>the_current_time := n\<rparr>) = (core s)\<lparr>the_current_time := n\<rparr>"
  "core (s\<lparr>tm_locked := b\<rparr>) = (core s)\<lparr>tm_locked := b\<rparr>"
  "core (s\<lparr>tm_events := e\<rparr>) = (core s)\<lparr>tm_events := e\<rparr>"
  by (simp_all add: core_def)

lemma core_heap [simp]: "core s\<lparr>tm_heap := payload (tm_heap s)\<rparr> = core s"
  by (simp add: core_def)

lemma armed_iff: "r \<in> armed s \<longleftrightarrow> (\<exists>t. tm_heap s r = Some t \<and> tm_type t \<noteq> TIMER_TYPE_OFF)"
  by (auto simp: armed_def spec_of_def bind_splits alarm_of_def dom_def)

lemma tm_queue_cell:
  assumes "tm_queue cfg s" "tm_heap s r = Some t"
  shows "tm_client t = fst r" "tm_id t = snd r" "fst r < length (client_states s)"
    "snd r < timers_per_client cfg" "tm_type t \<in> {0, 1, 2, 3}"
proof -
  obtain i j where r: "r = (i, j)" by (cases r)
  have "tm_heap (core s) r = Some (strip t)"
    using assms(2) by (simp add: payload_def)
  with assms(1) r show "tm_client t = fst r" "tm_id t = snd r" "fst r < length (client_states s)"
    "snd r < timers_per_client cfg" "tm_type t \<in> {0, 1, 2, 3}"
    unfolding tm_queue_def tm_shape_def
    by (metis core_simps(3) fst_conv option.distinct(1) snd_conv strip_fields)+
qed

text \<open>The spec moves as the core moves: writing one cell.\<close>

lemma spec_of_cell:
  "spec_of (c\<lparr>tm_heap := h(r \<mapsto> t)\<rparr>) = spec_arm r (alarm_of t) (spec_of (c\<lparr>tm_heap := h\<rparr>))"
  by (auto simp: spec_of_def spec_arm_def fun_eq_iff)

lemma tm_shape_cell:
  assumes "tm_shape cfg c" "tm_heap c r = Some t" "tm_type t' \<in> {0, 1, 2, 3}"
    "tm_client t' = tm_client t" "tm_id t' = tm_id t"
  shows "tm_shape cfg (c\<lparr>tm_heap := (tm_heap c)(r \<mapsto> t')\<rparr>)"
  using assms unfolding tm_shape_def by (cases r) (auto simp: dom_def)

section \<open>Signalling\<close>

lemma complete_bit_eq:
  "c < length (client_states s) \<Longrightarrow> i < 32 \<Longrightarrow>
   complete_bit c i s = Some (s\<lparr>client_states := (client_states s)[c :=
     (client_states s ! c)\<lparr>completed := completed (client_states s ! c) OR BIT i\<rparr>]\<rparr>)"
  by (simp add: complete_bit_def)

lemma signal_client_wp:
  assumes "tm_queue cfg s" "cfg_ok cfg" "r \<in> armed s"
  shows "ok (signal_client r now s) (\<lambda>s'. tm_queue cfg s' \<and>
    spec_of s' = spec_signal r (spec_of s) \<and> tm_locked s' = tm_locked s)"
proof -
  obtain t where t: "tm_heap s r = Some t" "tm_type t \<noteq> TIMER_TYPE_OFF"
    using assms(3) by (auto simp: armed_iff)
  note cell = tm_queue_cell [OF assms(1) t(1)]
  have i: "snd r < 32" using cell(4) assms(2) by (simp add: cfg_ok_def)
  define s2 where "s2 = s\<lparr>tm_events := tm_events s @ [Emit (fst r + 1)],
    client_states := (client_states s)[fst r :=
     (client_states s ! fst r)\<lparr>completed := completed (client_states s ! fst r) OR BIT (snd r)\<rparr>]\<rparr>"
  have s2: "complete_bit (tm_client t) (tm_id t) (tm_emit (Emit (tm_client t + 1)) s) = Some s2"
    using cell i by (simp add: complete_bit_eq tm_emit_def s2_def)
  have q2: "tq.queue s2 (armed s)"
    using assms(1) queue_cong [of s2 s] by (simp add: tm_queue_def s2_def)
  obtain s3 where s3: "remove_timer r s2 = Some s3" "core s3 = core s2" "tq.queue s3 (armed s - {r})"
    using tq.deq_queue [OF q2 assms(3)] by (auto simp: ok_def)
  have heap3: "payload (tm_heap s3) = payload (tm_heap s)"
    using iffD1 [OF core_eq_iff s3(2)] by (simp add: s2_def)
  obtain t3 where t3: "tm_heap s3 r = Some t3" "strip t3 = strip t"
    using payload_SomeD [OF heap3 [symmetric] t(1)] by blast
  have same: "tm_type t3 = tm_type t" "periodic_ns t3 = periodic_ns t" "timeout_time t3 = timeout_time t"
    using arg_cong [OF t3(2), of tm_type] arg_cong [OF t3(2), of periodic_ns]
      arg_cong [OF t3(2), of timeout_time] by simp_all
  have shape2: "tm_shape cfg (core s2)"
    using assms(1) by (simp only: tm_queue_def tm_shape_def s2_def core_upd) simp
  have cell2: "tm_heap (core s2) r = Some (strip t)"
    using t(1) by (simp add: s2_def payload_def)
  have finish: "tm_queue cfg s' \<and> spec_of s' = spec_signal r (spec_of s) \<and> tm_locked s' = tm_locked s"
    if core: "core s' = (core s3)\<lparr>tm_heap := (tm_heap (core s3))(r \<mapsto> t')\<rparr>"
      and t': "alarm_of t' = Option.bind (alarm_of t) advance" "tm_type t' \<in> {0, 1, 2, 3}"
        "tm_client t' = tm_client t" "tm_id t' = tm_id t"
      and q: "tq.queue s' (if alarm_of t' = None then armed s - {r} else armed s)" for s' t'
  proof -
    have "spec_of (core s') = spec_arm r (alarm_of t') (spec_of (core s3))"
      unfolding core by (subst spec_of_cell) simp
    then have "spec_of s' = spec_arm r (alarm_of t') (spec_of s2)"
      using spec_of_eq [OF s3(2)] by simp
    also have "\<dots> = spec_signal r (spec_of s)"
      using t(1) cell(3) t'(1) unfolding s2_def
      by (auto simp: spec_of_def spec_arm_def spec_signal_def map_update fun_eq_iff)
    finally have spec: "spec_of s' = spec_signal r (spec_of s)" .
    have "armed s' = (if alarm_of t' = None then armed s - {r} else armed s)"
      using t(1) t'(1) assms(3)
      by (auto simp: armed_def spec spec_signal_def) (auto simp: spec_of_def)
    moreover have "tm_shape cfg (core s')"
      unfolding core s3(2)
      by (rule tm_shape_cell [OF shape2 cell2]) (use t' in simp_all)
    ultimately show ?thesis
      using q spec arg_cong [OF core, of tm_locked] arg_cong [OF s3(2), of tm_locked]
      by (simp add: tm_queue_def s2_def)
  qed
  have dom3: "r \<in> dom (tm_heap s3)" using t3(1) by blast
  have ins: "insert r (armed s - {r}) = armed s" using assms(3) by auto
  show ?thesis
  proof (cases "tm_type t = TIMER_TYPE_PERIODIC")
    case True
    obtain s4 where s4: "tm_upd r (\<lambda>q. q\<lparr>timeout_time := timeout_time q + periodic_ns q\<rparr>) s3 = Some s4"
        "tq.queue s4 (armed s - {r})"
        "core s4 = (core s3)\<lparr>tm_heap := (tm_heap (core s3))
           (r \<mapsto> (strip t)\<lparr>timeout_time := timeout_time t + periodic_ns t\<rparr>)\<rparr>"
      using tm_upd_queue [OF s3(3) _ dom3, of "\<lambda>q. q\<lparr>timeout_time := timeout_time q + periodic_ns q\<rparr>"]
        t3 by (auto simp: ok_def payload_def)
    have "r \<in> dom (tm_heap (core s4))" by (simp add: s4(3) del: core_simps)
    then obtain s5 where s5: "insert_timer r s4 = Some s5" "core s5 = core s4" "tq.queue s5 (armed s)"
      using tq.enq_queue [OF s4(2), of r] ins by (auto simp: ok_def)
    have "tm_queue cfg s5 \<and> spec_of s5 = spec_signal r (spec_of s) \<and> tm_locked s5 = tm_locked s"
      by (rule finish [OF s5(2) [unfolded s4(3)]])
        (use True s5(3) cell(5) in \<open>simp_all add: alarm_of_def advance_def\<close>)
    then show ?thesis
      using t t3 same s2 s3(1) s4(1) s5(1) True by (simp add: signal_client_def)
  next
    case False
    obtain s4 where s4: "tm_upd r (\<lambda>q. q\<lparr>tm_type := TIMER_TYPE_OFF\<rparr>) s3 = Some s4"
        "tq.queue s4 (armed s - {r})"
        "core s4 = (core s3)\<lparr>tm_heap := (tm_heap (core s3))(r \<mapsto> (strip t)\<lparr>tm_type := TIMER_TYPE_OFF\<rparr>)\<rparr>"
      using tm_upd_queue [OF s3(3) _ dom3, of "\<lambda>q. q\<lparr>tm_type := TIMER_TYPE_OFF\<rparr>"]
        t3 by (auto simp: ok_def payload_def)
    have "tm_queue cfg s4 \<and> spec_of s4 = spec_signal r (spec_of s) \<and> tm_locked s4 = tm_locked s"
      by (rule finish [OF s4(3)])
        (use False t(2) s4(2) in \<open>simp_all add: alarm_of_def advance_def\<close>)
    then show ?thesis
      using t t3 same s2 s3(1) s4(1) cell(5) False by (simp add: signal_client_def)
  qed
qed

text \<open>The loop of \<^verbatim>\<open>signal_clients\<close>: one turn per expiry.\<close>

lemma fires_head:
  assumes "tm_heap s r = Some t" "tm_type t \<noteq> TIMER_TYPE_OFF"
  obtains al where "a_armed (spec_of s) r = Some al" "0 < fires now al \<longleftrightarrow> timeout_time t \<le> now"
proof
  show "a_armed (spec_of s) r = Some (if tm_type t = TIMER_TYPE_PERIODIC
      then Every (periodic_ns t) (timeout_time t) else Once (timeout_time t))"
    using assms by (simp add: spec_of_def alarm_of_def)
qed (simp add: fires_def)

lemma signal_clients_wp:
  assumes "tm_queue cfg s" "cfg_ok cfg" "all_fit now (spec_of s)"
  shows "ok (signal_clients now s) (\<lambda>s'. tm_queue cfg s' \<and>
    spec_of s' = drain (timers_per_client cfg) now (spec_of s) \<and> tm_locked s' = tm_locked s)"
  using assms(1,3)
proof (induction "turns cfg now (spec_of s)" arbitrary: s rule: less_induct)
  case (less s)
  have q: "tq.queue s (armed s)" using less.prems(1) by (simp add: tm_queue_def)
  show ?case
  proof (cases "timer_head s")
    case None
    then have "armed s = {}" using tq.queue_top_None [OF q] by simp
    then have "drain (timers_per_client cfg) now (spec_of s) = spec_of s"
      by (intro drain_idle) (auto simp: armed_def dom_def)
    with None less.prems(1) show ?thesis by (subst signal_clients.simps) simp
  next
    case (Some r)
    have r: "r \<in> armed s" and least: "\<And>y. y \<in> armed s \<Longrightarrow> due s r \<le> due s y"
      using tq.queue_top_least [OF q Some] by auto
    obtain t where t: "tm_heap s r = Some t" "tm_type t \<noteq> TIMER_TYPE_OFF"
      using r by (auto simp: armed_iff)
    obtain al where al: "a_armed (spec_of s) r = Some al" "0 < fires now al \<longleftrightarrow> timeout_time t \<le> now"
      by (rule fires_head [OF t])
    have fits: "alarm_fits now al" using less.prems(2) al(1) unfolding all_fit_def by blast
    show ?thesis
    proof (cases "timeout_time t \<le> now")
      case True
      obtain s1 where s1: "signal_client r now s = Some s1" "tm_queue cfg s1"
          "spec_of s1 = spec_signal r (spec_of s)" "tm_locked s1 = tm_locked s"
        using signal_client_wp [OF less.prems(1) assms(2) r, of now] by (auto simp: ok_def)
      note cell = tm_queue_cell [OF less.prems(1) t(1)]
      have n: "fst r < largest_badge cfg"
        using less.prems(1) cell(3) by (simp add: tm_queue_def tm_shape_def)
      have "turns cfg now (spec_of s1) < turns cfg now (spec_of s)"
        using turns_signal [OF al(1) _ fits n cell(4)] al(2) True by (simp add: s1(3))
      from less.hyps [OF this s1(2)] less.prems(2)
      have "ok (signal_clients now s1) (\<lambda>s'. tm_queue cfg s' \<and>
          spec_of s' = drain (timers_per_client cfg) now (spec_of s1) \<and> tm_locked s' = tm_locked s1)"
        by (simp add: s1(3) all_fit_signal)
      moreover have "drain (timers_per_client cfg) now (spec_of s1) =
          drain (timers_per_client cfg) now (spec_of s)"
        unfolding s1(3) using drain_signal [of "spec_of s" "fst r" "snd r" al] al fits cell(4) True
        by simp
      ultimately show ?thesis
        using Some t(1) True s1 by (subst signal_clients.simps) simp
    next
      case False
      have "fires now al' = 0" if a: "a_armed (spec_of s) y = Some al'" for y al'
      proof -
        have y: "y \<in> armed s" using a by (auto simp: armed_def)
        then obtain t' where t': "tm_heap s y = Some t'" "tm_type t' \<noteq> TIMER_TYPE_OFF"
          by (auto simp: armed_iff)
        have "\<not> timeout_time t' \<le> now"
          using least [OF y] t(1) t'(1) False by (simp add: due_def)
        then show ?thesis using fires_head [OF t', of now] a by (metis not_gr_zero option.inject)
      qed
      then have "drain (timers_per_client cfg) now (spec_of s) = spec_of s" by (rule drain_idle)
      with Some t(1) False less.prems(1) show ?thesis by (subst signal_clients.simps) simp
    qed
  qed
qed

end
