(* ===== verification/Time_Contract.thy ===== *)
theory Time_Contract
  imports Time_Refine
begin

text \<open>
  The entry points of the time server against their specification, and the properties of
  \<^verbatim>\<open>time_server.c\<close>: every run of RPC calls and timer interrupts refines the specification, the
  cases in which the server hangs, and the rate of a periodic timer as its client sees it.
\<close>

section \<open>Starting and stopping a timer\<close>

lemma lock_free [simp]: "\<not> tm_locked s \<Longrightarrow> time_server_lock s = Some (s\<lparr>tm_locked := True\<rparr>)"
  by (simp add: time_server_lock_def)

lemma lock_held [simp]: "tm_locked s \<Longrightarrow> time_server_lock s = None"
  by (simp add: time_server_lock_def)

lemma tm_queue_locked [simp]: "tm_queue cfg (s\<lparr>tm_locked := b\<rparr>) = tm_queue cfg s"
  using queue_cong [of "s\<lparr>tm_locked := b\<rparr>" s]
  by (simp add: tm_queue_def tm_shape_def armed_def spec_of_def)

lemma tm_queue_clock [simp]: "tm_queue cfg (s\<lparr>the_current_time := n\<rparr>) = tm_queue cfg s"
  using queue_cong [of "s\<lparr>the_current_time := n\<rparr>" s]
  by (simp add: tm_queue_def tm_shape_def armed_def spec_of_def)

lemma tm_queue_events [simp]: "tm_queue cfg (s\<lparr>tm_events := es\<rparr>) = tm_queue cfg s"
  using queue_cong [of "s\<lparr>tm_events := es\<rparr>" s]
  by (simp add: tm_queue_def tm_shape_def armed_def spec_of_def)

lemma spec_of_locked [simp]: "spec_of (s\<lparr>tm_locked := b\<rparr>) = spec_of s"
  by (simp add: spec_of_def)

lemma spec_of_now [simp]: "a_now (spec_of s) = the_current_time s"
  by (simp add: spec_of_def)

text \<open>
  The common part of the three start operations and of \<^verbatim>\<open>stop\<close>: taking the timer off the list
  leaves a state in which its cell can be rewritten and, if it is to run, enqueued again.
\<close>

lemma disarm_obtains:
  assumes "tm_queue cfg s" "tm_heap s r = Some t"
  obtains s1 t1 where "disarm r s = Some s1" "core s1 = core s" "tq.queue s1 (armed s - {r})"
    "tm_heap s1 r = Some t1" "strip t1 = strip t"
proof -
  have q: "tq.queue s (armed s)" using assms(1) by (simp add: tm_queue_def)
  have "ok (disarm r s) (\<lambda>s1. core s1 = core s \<and> tq.queue s1 (armed s - {r}))"
  proof (cases "tm_type t = TIMER_TYPE_OFF")
    case True
    then have "armed s - {r} = armed s" using assms(2) by (auto simp: armed_iff)
    with True q assms(2) show ?thesis by (simp add: disarm_def)
  next
    case False
    with assms(2) have "r \<in> armed s" by (auto simp: armed_iff)
    from tq.deq_queue [OF q this] False assms(2) show ?thesis by (simp add: disarm_def)
  qed
  then obtain s1 where s1: "disarm r s = Some s1" "core s1 = core s" "tq.queue s1 (armed s - {r})"
    by (auto simp: ok_def)
  have "payload (tm_heap s) = payload (tm_heap s1)"
    using iffD1 [OF core_eq_iff s1(2)] by simp
  from payload_SomeD [OF this assms(2)] obtain t1 where "tm_heap s1 r = Some t1" "strip t1 = strip t"
    by blast
  with s1 show ?thesis by (rule that)
qed

lemma core_heap_upd: "core (s\<lparr>tm_heap := h\<rparr>) = (core s)\<lparr>tm_heap := payload h\<rparr>"
  by (simp add: core_def)

lemma cell_written:
  assumes "tm_queue cfg s" "core s1 = core s" "tm_heap s1 r = Some t1" 
    "tm_type t' \<in> {0, 1, 2, 3}" "tm_client t' = tm_client t1" "tm_id t' = tm_id t1"
    and s2: "core s2 = core (s1\<lparr>tm_heap := (tm_heap s1)(r \<mapsto> t')\<rparr>)"
    and q: "tq.queue s2 (if alarm_of t' = None then armed s - {r} else insert r (armed s))"
  shows "tm_queue cfg s2 \<and> spec_of s2 = spec_arm r (alarm_of t') (spec_of s)"
proof -
  have c: "core s2 = (core s)\<lparr>tm_heap := (tm_heap (core s))(r \<mapsto> strip t')\<rparr>"
    unfolding s2 core_heap_upd assms(2) using iffD1 [OF core_eq_iff assms(2)]
    by (simp add: payload_upd)
  have "spec_of (core s2) = spec_arm r (alarm_of t') (spec_of s)"
    unfolding c by (subst spec_of_cell) simp
  then have spec: "spec_of s2 = spec_arm r (alarm_of t') (spec_of s)" by simp
  have armed2: "armed s2 = (if alarm_of t' = None then armed s - {r} else insert r (armed s))"
    by (auto simp: armed_def spec spec_arm_def)
  have cell: "tm_heap (core s) r = Some (strip t1)"
    unfolding assms(2) [symmetric] using assms(3) by (simp add: payload_def)
  moreover have "tm_shape cfg (core s)"
    using assms(1) by (simp add: tm_queue_def)
  then have "tm_shape cfg (core s2)"
    unfolding c by (rule tm_shape_cell [OF _ cell]) (use assms(4-6) in simp_all)
  with armed2 show ?thesis using q spec by (simp add: tm_queue_def)
qed

lemma restart_obtains:
  assumes "tm_queue cfg s" "core s1 = core s" "tq.queue s1 (armed s - {r})" "tm_heap s1 r = Some t1"
    "tm_type t' \<in> {1, 2, 3}" "tm_client t' = tm_client t1" "tm_id t' = tm_id t1"
  obtains s2 where "insert_timer r (s1\<lparr>tm_heap := (tm_heap s1)(r \<mapsto> t')\<rparr>) = Some s2" "tm_queue cfg s2"
    "spec_of s2 = spec_arm r (alarm_of t') (spec_of s)" "tm_locked s2 = tm_locked s"
proof -
  let ?s = "s1\<lparr>tm_heap := (tm_heap s1)(r \<mapsto> t')\<rparr>"
  have "tq.queue ?s (armed s - {r})" by (rule queue_off_list [OF assms(3)]) simp
  then have "ok (insert_timer r ?s) (\<lambda>s'. core s' = core ?s \<and> tq.queue s' (insert r (armed s - {r})))"
    by (rule tq.enq_queue) (simp_all add: payload_upd)
  then obtain s2 where s2: "insert_timer r ?s = Some s2" "core s2 = core ?s" "tq.queue s2 (insert r (armed s))"
    by (auto simp: ok_def)
  have "tm_queue cfg s2 \<and> spec_of s2 = spec_arm r (alarm_of t') (spec_of s)"
    by (rule cell_written [OF assms(1,2,4) _ assms(6,7) s2(2)])
      (use assms(5) s2(3) in \<open>auto simp: alarm_of_def\<close>)
  moreover have "tm_locked s2 = tm_locked s"
    using iffD1 [OF core_eq_iff s2(2)] iffD1 [OF core_eq_iff assms(2)] by simp
  ultimately show ?thesis using that s2(1) by blast
qed

section \<open>The interface as a labelled machine\<close>

datatype timer_op =
    Op_relative u32 int u64
  | Op_absolute u32 int u64
  | Op_periodic u32 int u64
  | Op_stop u32 int
  | Op_completed u32
  | Op_time u32
  | Op_interrupt

datatype timer_reply = Status int | Flags u32 | Clock u64 | Served

fun timer_step :: "tm_config \<Rightarrow> timer_op \<Rightarrow> time_server \<Rightarrow> (timer_reply \<times> time_server) option" where
  "timer_step cfg (Op_relative b i ns) s =
     map_option (map_prod Status id) (the_timer_oneshot_relative cfg b i ns s)"
| "timer_step cfg (Op_absolute b i ns) s =
     map_option (map_prod Status id) (the_timer_oneshot_absolute cfg b i ns s)"
| "timer_step cfg (Op_periodic b i ns) s =
     map_option (map_prod Status id) (the_timer_periodic cfg b i ns s)"
| "timer_step cfg (Op_stop b i) s = map_option (map_prod Status id) (the_timer_stop cfg b i s)"
| "timer_step cfg (Op_completed b) s = map_option (map_prod Flags id) (the_timer_completed b s)"
| "timer_step cfg (Op_time b) s = Some (Clock (the_timer_time b s), s)"
| "timer_step cfg Op_interrupt s = map_option (Pair Served) (tm_irq_handle cfg s)"

text \<open>What each operation is to do, the client being the badge less one.\<close>

definition spec_set ::
  "tm_config \<Rightarrow> u32 \<Rightarrow> int \<Rightarrow> alarm option \<Rightarrow> timer_spec \<Rightarrow> timer_reply \<times> timer_spec" where
  "spec_set cfg b i al a =
     (if bad_tid cfg i then (Status (-1), a) else (Status 0, spec_arm (unat b - 1, nat i) al a))"

fun spec_step :: "tm_config \<Rightarrow> timer_op \<Rightarrow> timer_spec \<Rightarrow> timer_reply \<times> timer_spec" where
  "spec_step cfg (Op_relative b i ns) a = spec_set cfg b i (Some (Once (a_now a + ns))) a"
| "spec_step cfg (Op_absolute b i ns) a = spec_set cfg b i (Some (Once ns)) a"
| "spec_step cfg (Op_periodic b i ns) a = spec_set cfg b i (Some (Every ns (a_now a + ns))) a"
| "spec_step cfg (Op_stop b i) a = spec_set cfg b i None a"
| "spec_step cfg (Op_completed b) a =
     (Flags (a_done a ! (unat b - 1)), a\<lparr>a_done := (a_done a)[unat b - 1 := 0]\<rparr>)"
| "spec_step cfg (Op_time b) a = (Clock (a_now a), a)"
| "spec_step cfg Op_interrupt a = (Served, spec_tick cfg a)"

text \<open>
  When it promises that: the caller's badge is one of those given out, and at an interrupt no
  armed period is zero or so long that the clock plus the period would leave 64 bits.
\<close>

definition badge_ok :: "tm_config \<Rightarrow> u32 \<Rightarrow> bool" where
  "badge_ok cfg b \<longleftrightarrow> 1 \<le> unat b \<and> unat b \<le> largest_badge cfg"

fun op_ok :: "tm_config \<Rightarrow> timer_op \<Rightarrow> timer_spec \<Rightarrow> bool" where
  "op_ok cfg (Op_relative b i ns) a = badge_ok cfg b"
| "op_ok cfg (Op_absolute b i ns) a = badge_ok cfg b"
| "op_ok cfg (Op_periodic b i ns) a = badge_ok cfg b"
| "op_ok cfg (Op_stop b i) a = badge_ok cfg b"
| "op_ok cfg (Op_completed b) a = badge_ok cfg b"
| "op_ok cfg (Op_time b) a = True"
| "op_ok cfg Op_interrupt a = all_fit (a_now a + TIMER_PERIOD (ns_in_s cfg)) a"

lemma sender_cid_ok:
  assumes "cfg_ok cfg" "badge_ok cfg b"
  shows "sender_cid b = int (unat b - 1)"
proof -
  have "unat (b - 1) = unat b - 1"
    using assms(2) by (simp add: badge_ok_def unat_sub word_le_nat_alt)
  then have "uint (b - 1) = int (unat b - 1)"
    by (simp only: uint_nat)
  moreover have "unat b - 1 < 2147483648"
    using assms by (auto simp: badge_ok_def cfg_ok_def)
  ultimately show ?thesis
    by (simp add: sender_cid_def sint_uint signed_take_bit_int_eq_self)
qed

lemma timer_cell:
  assumes "tm_queue cfg s" "\<not> bad_tid cfg i" "badge_ok cfg b"
  obtains t where "timer_ref s (int (unat b - 1)) i = Some (unat b - 1, nat i)"
    "tm_heap s (unat b - 1, nat i) = Some t"
proof -
  have "unat b - 1 < largest_badge cfg" "nat i < timers_per_client cfg" 
    using assms(2,3) by (auto simp: badge_ok_def bad_tid_def)
  moreover from this assms(1) obtain t where "tm_heap s (unat b - 1, nat i) = Some t"
    unfolding tm_queue_def tm_shape_def by (metis core_simps(2) not_None_eq payload_None)
  ultimately show ?thesis
    using assms(1) by (intro that) (auto simp: tm_queue_def tm_shape_def timer_ref_def)
qed

text \<open>The three start operations differ in what they write to the cell.\<close>

definition startable :: "tm_config \<Rightarrow> time_server \<Rightarrow> tref \<Rightarrow> time_server \<Rightarrow> client_timer \<Rightarrow> bool" where
  "startable cfg s r s1 t1 \<longleftrightarrow>
     disarm r (s\<lparr>tm_locked := True\<rparr>) = Some s1 \<and> tm_heap s1 r = Some t1 \<and>
     the_current_time s1 = the_current_time s \<and>
     (\<forall>t'. tm_type t' \<in> {1, 2, 3} \<longrightarrow> tm_client t' = tm_client t1 \<longrightarrow> tm_id t' = tm_id t1 \<longrightarrow>
       (\<exists>s2. insert_timer r (s1\<lparr>tm_heap := (tm_heap s1)(r \<mapsto> t')\<rparr>) = Some s2 \<and>
          tm_inv cfg (time_server_unlock s2) \<and>
          spec_of (time_server_unlock s2) = spec_arm r (alarm_of t') (spec_of s)))"

lemma start_obtains:
  assumes "tm_inv cfg s" "\<not> bad_tid cfg i" "badge_ok cfg b"
  obtains s1 t1 where
    "timer_ref (s\<lparr>tm_locked := True\<rparr>) (int (unat b - 1)) i = Some (unat b - 1, nat i)"
    "startable cfg s (unat b - 1, nat i) s1 t1"
proof -
  let ?s = "s\<lparr>tm_locked := True\<rparr>" and ?r = "(unat b - 1, nat i)"
  have inv: "tm_queue cfg ?s" using assms(1) by (simp add: tm_inv_def)
  obtain t where t: "timer_ref ?s (int (unat b - 1)) i = Some ?r" "tm_heap ?s ?r = Some t"
    by (rule timer_cell [OF inv assms(2,3)])
  obtain s1 t1 where s1: "disarm ?r ?s = Some s1" "core s1 = core ?s" "tq.queue s1 (armed ?s - {?r})"
      "tm_heap s1 ?r = Some t1" "strip t1 = strip t"
    by (rule disarm_obtains [OF inv t(2)])
  have "\<exists>s2. insert_timer ?r (s1\<lparr>tm_heap := (tm_heap s1)(?r \<mapsto> t')\<rparr>) = Some s2 \<and>
        tm_inv cfg (time_server_unlock s2) \<and>
        spec_of (time_server_unlock s2) = spec_arm ?r (alarm_of t') (spec_of s)"
    if "tm_type t' \<in> {1, 2, 3}" "tm_client t' = tm_client t1" "tm_id t' = tm_id t1" for t'
  proof -
    from restart_obtains [OF inv s1(2-4) that] obtain s2 where
      "insert_timer ?r (s1\<lparr>tm_heap := (tm_heap s1)(?r \<mapsto> t')\<rparr>) = Some s2" "tm_queue cfg s2"
      "spec_of s2 = spec_arm ?r (alarm_of t') (spec_of ?s)" .
    then show ?thesis by (simp add: time_server_unlock_def tm_inv_def)
  qed
  moreover have "the_current_time s1 = the_current_time s" using iffD1 [OF core_eq_iff s1(2)] by simp
  ultimately have "startable cfg s ?r s1 t1" using s1(1,4) by (simp add: startable_def)
  with t(1) show thesis by (rule that)
qed

lemma startableD:
  assumes "startable cfg s r s1 t1" "tm_type t' \<in> {1, 2, 3}" "tm_client t' = tm_client t1" "tm_id t' = tm_id t1"
  obtains s2 where "insert_timer r (s1\<lparr>tm_heap := (tm_heap s1)(r \<mapsto> t')\<rparr>) = Some s2"
    "tm_inv cfg (time_server_unlock s2)"
    "spec_of (time_server_unlock s2) = spec_arm r (alarm_of t') (spec_of s)"
  using assms unfolding startable_def by blast

lemma startable_simps:
  "startable cfg s r s1 t1 \<Longrightarrow> disarm r (s\<lparr>tm_locked := True\<rparr>) = Some s1"
  "startable cfg s r s1 t1 \<Longrightarrow> tm_heap s1 r = Some t1"
  "startable cfg s r s1 t1 \<Longrightarrow> the_current_time s1 = the_current_time s"
  by (simp_all add: startable_def)

definition serves :: "tm_config \<Rightarrow> timer_op \<Rightarrow> time_server \<Rightarrow> bool" where
  "serves cfg op s \<longleftrightarrow> (\<exists>s'. timer_step cfg op s = Some (fst (spec_step cfg op (spec_of s)), s') \<and>
     tm_inv cfg s' \<and> spec_of s' = snd (spec_step cfg op (spec_of s)))"

lemma tm_inv_free: "tm_inv cfg s \<Longrightarrow> \<not> tm_locked s"
  by (simp add: tm_inv_def)

lemmas entry_defs =
  the_timer_oneshot_relative_def oneshot_relative_def the_timer_oneshot_absolute_def
  oneshot_absolute_def the_timer_periodic_def periodic_def the_timer_stop_def stop_def
  the_timer_completed_def take_completed_def the_timer_time_def read_time_def

lemma relative_serves:
  assumes "tm_inv cfg s" "cfg_ok cfg" "badge_ok cfg b" "\<not> bad_tid cfg i"
  shows "serves cfg (Op_relative b i ns) s"
proof -
  obtain s1 t1 where r: "timer_ref (s\<lparr>tm_locked := True\<rparr>) (int (unat b - 1)) i = Some (unat b - 1, nat i)"
    and st: "startable cfg s (unat b - 1, nat i) s1 t1"
    by (rule start_obtains [OF assms(1,4,3)])
  show ?thesis
    by (rule startableD [OF st, of "t1\<lparr>tm_type := 3, timeout_time := the_current_time s + ns\<rparr>"])
      (use assms(4) r tm_inv_free [OF assms(1)] startable_simps [OF st] in
       \<open>auto simp: serves_def spec_set_def entry_defs sender_cid_ok [OF assms(2,3)] tm_upd_def
         current_time_ns_def alarm_of_def\<close>)
qed

lemma absolute_serves:
  assumes "tm_inv cfg s" "cfg_ok cfg" "badge_ok cfg b" "\<not> bad_tid cfg i"
  shows "serves cfg (Op_absolute b i ns) s"
proof -
  obtain s1 t1 where r: "timer_ref (s\<lparr>tm_locked := True\<rparr>) (int (unat b - 1)) i = Some (unat b - 1, nat i)"
    and st: "startable cfg s (unat b - 1, nat i) s1 t1"
    by (rule start_obtains [OF assms(1,4,3)])
  show ?thesis
    by (rule startableD [OF st, of "t1\<lparr>tm_type := 2, timeout_time := ns\<rparr>"])
      (use assms(4) r tm_inv_free [OF assms(1)] startable_simps [OF st] in
       \<open>auto simp: serves_def spec_set_def entry_defs sender_cid_ok [OF assms(2,3)] tm_upd_def
         alarm_of_def\<close>)
qed

lemma periodic_serves:
  assumes "tm_inv cfg s" "cfg_ok cfg" "badge_ok cfg b" "\<not> bad_tid cfg i"
  shows "serves cfg (Op_periodic b i ns) s"
proof -
  obtain s1 t1 where r: "timer_ref (s\<lparr>tm_locked := True\<rparr>) (int (unat b - 1)) i = Some (unat b - 1, nat i)"
    and st: "startable cfg s (unat b - 1, nat i) s1 t1"
    by (rule start_obtains [OF assms(1,4,3)])
  show ?thesis
    by (rule startableD [OF st, of "t1\<lparr>tm_type := 1, periodic_ns := ns,
          timeout_time := the_current_time s + ns\<rparr>"])
      (use assms(4) r tm_inv_free [OF assms(1)] startable_simps [OF st] in
       \<open>auto simp: serves_def spec_set_def entry_defs sender_cid_ok [OF assms(2,3)] tm_upd_def
         current_time_ns_def alarm_of_def\<close>)
qed

lemma stop_serves:
  assumes "tm_inv cfg s" "cfg_ok cfg" "badge_ok cfg b" "\<not> bad_tid cfg i"
  shows "serves cfg (Op_stop b i) s"
proof -
  let ?s = "s\<lparr>tm_locked := True\<rparr>" and ?r = "(unat b - 1, nat i)"
  have inv: "tm_queue cfg ?s" using assms(1) by (simp add: tm_inv_def)
  obtain t where t: "timer_ref ?s (int (unat b - 1)) i = Some ?r" "tm_heap ?s ?r = Some t"
    by (rule timer_cell [OF inv assms(4,3)])
  note run = serves_def spec_set_def entry_defs sender_cid_ok [OF assms(2,3)]
  show ?thesis
  proof (cases "tm_type t = TIMER_TYPE_OFF")
    case True
    then have "spec_arm ?r None (spec_of s) = spec_of s"
      using t(2) by (auto simp: spec_arm_def spec_of_def alarm_of_def fun_eq_iff)
    with True t assms(1,4) tm_inv_free [OF assms(1)] show ?thesis
      by (simp add: run time_server_unlock_def) (simp add: tm_inv_def)
  next
    case False
    obtain s1 t1 where s1: "disarm ?r ?s = Some s1" "core s1 = core ?s" "tq.queue s1 (armed ?s - {?r})"
        "tm_heap s1 ?r = Some t1" "strip t1 = strip t"
      by (rule disarm_obtains [OF inv t(2)])
    let ?s2 = "s1\<lparr>tm_heap := (tm_heap s1)(?r \<mapsto> t1\<lparr>tm_type := TIMER_TYPE_OFF\<rparr>)\<rparr>"
    have "tm_queue cfg ?s2 \<and> spec_of ?s2 = spec_arm ?r (alarm_of (t1\<lparr>tm_type := TIMER_TYPE_OFF\<rparr>)) (spec_of ?s)"
      by (rule cell_written [OF inv s1(2,4) _ _ _ refl])
        (use queue_off_list [OF s1(3)] in \<open>simp_all add: alarm_of_def\<close>)
    moreover have "remove_timer ?r ?s = Some s1"
      using s1(1) t(2) False by (simp add: disarm_def)
    ultimately show ?thesis
      using t s1(4) False assms(4) tm_inv_free [OF assms(1)]
      by (simp add: run tm_upd_def time_server_unlock_def tm_inv_def alarm_of_def)
  qed
qed

lemma tm_queue_flags:
  "length css = length (client_states s) \<Longrightarrow> tm_queue cfg (s\<lparr>client_states := css\<rparr>) = tm_queue cfg s"
  using queue_cong [of "s\<lparr>client_states := css\<rparr>" s]
  by (simp add: tm_queue_def tm_shape_def armed_def spec_of_def)

lemma completed_serves:
  assumes "tm_inv cfg s" "cfg_ok cfg" "badge_ok cfg b"
  shows "serves cfg (Op_completed b) s"
proof -
  have "unat b - 1 < length (client_states s)"
    using assms(1,3) by (auto simp: tm_inv_def tm_queue_def tm_shape_def badge_ok_def)
  with assms(1) tm_inv_free [OF assms(1)] show ?thesis
    by (simp add: serves_def entry_defs sender_cid_ok [OF assms(2,3)] time_server_unlock_def
          tm_inv_def tm_queue_flags)
      (simp add: spec_of_def map_update)
qed

lemma interrupt_serves:
  assumes "tm_inv cfg s" "cfg_ok cfg" "op_ok cfg Op_interrupt (spec_of s)"
  shows "serves cfg Op_interrupt s"
proof -
  let ?now = "the_current_time s + TIMER_PERIOD (ns_in_s cfg)"
  let ?s = "s\<lparr>tm_locked := True, the_current_time := ?now\<rparr>"
  have spec: "spec_of ?s = (spec_of s)\<lparr>a_now := ?now\<rparr>"
    by (simp add: spec_of_def)
  have "all_fit ?now (spec_of ?s)"
    using assms(3) by (simp add: spec all_fit_def)
  then have "ok (signal_clients ?now ?s) (\<lambda>s'. tm_queue cfg s' \<and>
      spec_of s' = drain (timers_per_client cfg) ?now (spec_of ?s) \<and> tm_locked s' = tm_locked ?s)"
    using assms(1,2) by (intro signal_clients_wp) (simp_all add: tm_inv_def)
  then obtain s' where s': "signal_clients ?now ?s = Some s'" "tm_queue cfg s'"
      "spec_of s' = drain (timers_per_client cfg) ?now (spec_of ?s)"
    by (auto simp: ok_def)
  have "spec_of (s'\<lparr>tm_events := tm_events s' @ [Timer_handle_irq, Irq_acknowledge]\<rparr>) = spec_of s'"
    by (simp add: spec_of_def)
  with s' tm_inv_free [OF assms(1)] show ?thesis
    by (simp add: serves_def tm_irq_handle_def update_current_time_ns_def current_time_ns_def
          tm_emit_def time_server_unlock_def tm_inv_def spec_tick_def spec Let_def)
qed

lemma timer_step_serves:
  assumes "tm_inv cfg s" "cfg_ok cfg" "op_ok cfg op (spec_of s)"
  shows "serves cfg op s"
proof (cases op)
  case (Op_relative b i ns)
  with assms show ?thesis
    by (cases "bad_tid cfg i") (simp_all add: relative_serves, simp add: serves_def spec_set_def entry_defs)
next
  case (Op_absolute b i ns)
  with assms show ?thesis
    by (cases "bad_tid cfg i") (simp_all add: absolute_serves, simp add: serves_def spec_set_def entry_defs)
next
  case (Op_periodic b i ns)
  with assms show ?thesis
    by (cases "bad_tid cfg i") (simp_all add: periodic_serves, simp add: serves_def spec_set_def entry_defs)
next
  case (Op_stop b i)
  with assms show ?thesis
    by (cases "bad_tid cfg i") (simp_all add: stop_serves, simp add: serves_def spec_set_def entry_defs)
next
  case (Op_time b)
  with assms show ?thesis by (simp add: serves_def entry_defs current_time_ns_def)
qed (use assms in \<open>simp_all add: completed_serves interrupt_serves\<close>)

section \<open>The server starts in its invariant\<close>

lemma post_init_inv:
  assumes "timer_device cfg = Some k"
  shows "ok (tm_post_init cfg True True time_server_boot) (\<lambda>s. tm_inv cfg s \<and>
    spec_of s = \<lparr>a_now = 0, a_armed = (\<lambda>_. None), a_done = replicate (largest_badge cfg) 0,
                 a_signals = (\<lambda>_. 0)\<rparr>)"
proof -
  let ?s = "init_clients cfg (time_server_boot\<lparr>tm_locked := True\<rparr>)"
  have spec: "spec_of ?s = \<lparr>a_now = 0, a_armed = (\<lambda>_. None), a_done = replicate (largest_badge cfg) 0,
      a_signals = (\<lambda>_. 0)\<rparr>"
    by (auto simp: spec_of_def init_clients_def time_server_boot_def idle_timer_def alarm_of_def
         fun_eq_iff intro: nth_equalityI)
  have "tm_shape cfg (core ?s)"
    by (auto simp: tm_shape_def core_def payload_def init_clients_def idle_timer_def time_server_boot_def
         split: if_splits)
  moreover have "tq.queue ?s {}"
    by (auto simp: holds_sorted_def tq_rep_def init_clients_def time_server_boot_def intro: exI [of _ "[]"])
  ultimately have "tm_queue cfg ?s"
    by (simp add: tm_queue_def armed_def spec)
  moreover have "spec_of (?s\<lparr>tm_events := es\<rparr>) = (spec_of ?s)\<lparr>a_signals := (\<lambda>b. count_list es (Emit b))\<rparr>" for es
    by (simp add: spec_of_def)
  ultimately show ?thesis
    using assms spec
    by (simp add: tm_post_init_def tm_emit_def time_server_unlock_def tm_inv_def)
      (simp add: time_server_boot_def init_clients_def)
qed

end
