(* ===== verification/Time_Server_Laws.thy ===== *)
theory Time_Server_Laws
  imports Time_Contract
begin

text \<open>
  The properties of the time server (\<^verbatim>\<open>time_server.c\<close>) and of its example client
  (\<^verbatim>\<open>client.c\<close>), stated on the handlers of the code.
\<close>

section \<open>Runs\<close>

fun ops_ok :: "tm_config \<Rightarrow> timer_op list \<Rightarrow> timer_spec \<Rightarrow> bool" where
  "ops_ok cfg [] a \<longleftrightarrow> True"
| "ops_ok cfg (op # ops) a \<longleftrightarrow> op_ok cfg op a \<and> ops_ok cfg ops (snd (spec_step cfg op a))"

definition spec_init :: "tm_config \<Rightarrow> timer_spec" where
  "spec_init cfg = \<lparr>a_now = 0, a_armed = (\<lambda>_. None), a_done = replicate (largest_badge cfg) 0,
     a_signals = (\<lambda>_. 0)\<rparr>"

lemma run_serves:
  assumes "tm_inv cfg s" "cfg_ok cfg" "ops_ok cfg ops (spec_of s)"
  shows "\<exists>s'. run_ops (timer_step cfg) ops s = Some (fst (spec_run (spec_step cfg) ops (spec_of s)), s') \<and>
    tm_inv cfg s' \<and> spec_of s' = snd (spec_run (spec_step cfg) ops (spec_of s))"
  using assms(1,3)
proof (induction ops arbitrary: s)
  case Nil
  then show ?case by simp
next
  case (Cons op ops)
  have "serves cfg op s" using timer_step_serves [OF Cons.prems(1) assms(2)] Cons.prems(2) by simp
  then obtain s1 where s1: "timer_step cfg op s = Some (fst (spec_step cfg op (spec_of s)), s1)"
      "tm_inv cfg s1" "spec_of s1 = snd (spec_step cfg op (spec_of s))"
    by (auto simp: serves_def)
  from Cons.IH [OF s1(2)] Cons.prems(2) s1 show ?case by (auto simp: split_beta)
qed

text \<open>
  C2: After initialisation the time server answers the calls of its clients and the timer interrupts
  exactly as the specification, for every sequence in which the badges are valid and no interrupt finds a
  timer armed with a period of zero or with a period that takes the clock past 64 bits (\<open>ops_ok\<close>): timers
  are set, stopped and expire independently of the order of the linked list, the list stays sorted and
  consistent, and no lock stays taken. The code does not refuse a period of zero, and the condition is
  needed: the next interrupt does not return (see the last section).
\<close>

theorem timer_server_refines:
  assumes "cfg_ok cfg" "timer_device cfg = Some k" "ops_ok cfg ops (spec_init cfg)"
  shows "ok (tm_post_init cfg True True time_server_boot) (\<lambda>s.
    \<exists>s'. run_ops (timer_step cfg) ops s = Some (fst (spec_run (spec_step cfg) ops (spec_init cfg)), s') \<and>
      tm_inv cfg s' \<and> spec_of s' = snd (spec_run (spec_step cfg) ops (spec_init cfg)))"
proof -
  have "ok (tm_post_init cfg True True time_server_boot)
      (\<lambda>s. tm_inv cfg s \<and> spec_of s = spec_init cfg)"
    using post_init_inv [OF assms(2)] by (simp add: spec_init_def)
  then show ?thesis
  proof (rule ok_mono)
    fix s
    assume "tm_inv cfg s \<and> spec_of s = spec_init cfg"
    with run_serves [OF _ assms(1), of s ops] assms(3)
    show "\<exists>s'. run_ops (timer_step cfg) ops s =
        Some (fst (spec_run (spec_step cfg) ops (spec_init cfg)), s') \<and>
      tm_inv cfg s' \<and> spec_of s' = snd (spec_run (spec_step cfg) ops (spec_init cfg))"
      by simp
  qed
qed

definition small_config :: tm_config where
  "small_config = \<lparr>ns_in_s = 1000000000, timers_per_client = 2, largest_badge = 2, nvtmr_number = 1,
     tmr_code = int, tmr_offset = (\<lambda>k. of_nat k * 8), tmr_irq = (\<lambda>k. of_nat k)\<rparr>"

lemma small_config_ok: "cfg_ok small_config" "timer_device small_config = Some 1"
  by (simp_all add: cfg_ok_def small_config_def timer_device_def upt_rec)

theorem timer_server_refines_witness:
  "ok (tm_post_init small_config True True time_server_boot) (\<lambda>s.
    \<exists>s'. run_ops (timer_step small_config)
           [Op_periodic 1 0 500000, Op_relative 2 1 700000, Op_interrupt, Op_completed 1] s =
        Some ([Status 0, Status 0, Served, Flags 1], s') \<and> tm_inv small_config s')"
proof -
  let ?ops = "[Op_periodic 1 0 500000, Op_relative 2 1 700000, Op_interrupt, Op_completed 1]"
  have "ops_ok small_config ?ops (spec_init small_config)"
    by (simp add: badge_ok_def small_config_def spec_init_def spec_set_def bad_tid_def spec_arm_def
          all_fit_def alarm_fits_def TIMER_PERIOD_def)
  from timer_server_refines [OF small_config_ok this]
  have "ok (tm_post_init small_config True True time_server_boot) (\<lambda>s.
      \<exists>s'. run_ops (timer_step small_config) ?ops s =
        Some (fst (spec_run (spec_step small_config) ?ops (spec_init small_config)), s') \<and>
        tm_inv small_config s')"
    by (rule ok_mono) blast
  moreover have "fst (spec_run (spec_step small_config) ?ops (spec_init small_config)) =
      [Status 0, Status 0, Served, Flags 1]"
    by (simp add: small_config_def spec_init_def spec_set_def bad_tid_def spec_arm_def
          spec_tick_def drain_def fires_opt_def fires_def due_bits_def TIMER_PERIOD_def BIT_def
          upt_rec)
  ultimately show ?thesis by simp
qed

section \<open>One interrupt\<close>

lemma count_signals: "count_list (tm_events s) (Emit b) = a_signals (spec_of s) b"
  by (simp add: spec_of_def)

lemma flags_of: "c < length (client_states s) \<Longrightarrow> completed (client_states s ! c) = a_done (spec_of s) ! c"
  by (simp add: spec_of_def)

lemma fires_after_expire:
  assumes "alarm_fits now al" "expire now al = Some al'"
  shows "fires now al' = 0"
  using assms
proof (induction "fires now al" arbitrary: al)
  case 0
  then show ?case by (simp add: expire_idle)
next
  case (Suc n)
  have pos: "0 < fires now al" using Suc.hyps(2) by simp
  note adv = fires_advance [OF pos Suc.prems(1)] expire_advance [OF pos Suc.prems(1)]
  obtain al1 where al1: "advance al = Some al1"
    using adv(2) Suc.prems(2) by (cases "advance al") auto
  show ?case
    using Suc.hyps(1) [of al1] adv al1 Suc.hyps(2) Suc.prems alarm_fits_advance [OF Suc.prems(1) al1]
    by (simp add: fires_opt_def)
qed

lemma drain_leaves_idle:
  assumes "all_fit now a" "a_armed (drain n now a) r = Some al"
  shows "fires now al = 0"
proof -
  obtain al0 where al0: "a_armed a r = Some al0" "expire now al0 = Some al"
    using assms(2) by (auto simp: drain_def bind_splits)
  with assms(1) have "alarm_fits now al0" unfolding all_fit_def by blast
  from fires_after_expire [OF this al0(2)] show ?thesis .
qed

text \<open>
  C13: When no timer is armed with a period of zero or with a period that takes the clock past 64 bits
  (\<open>all_fit\<close>), the handler of the timer interrupt returns, although its loop re-inserts periodic timers.
  The code accepts a period of zero, with which the handler does not return. Afterwards no armed timer is due, a client's flag for a timer is set exactly when it was set or
  the timer expired, and each client has been notified once per expiry, a timer that is behind by
  several periods counting several times.
\<close>

theorem irq_handle_drains:
  assumes "tm_inv cfg s" "cfg_ok cfg"
    and now: "now = the_current_time s + TIMER_PERIOD (ns_in_s cfg)"
    and fit: "all_fit now (spec_of s)"
  shows "ok (tm_irq_handle cfg s) (\<lambda>s'. tm_inv cfg s' \<and> the_current_time s' = now \<and>
    (\<forall>r al. a_armed (spec_of s') r = Some al \<longrightarrow> fires now al = 0) \<and>
    (\<forall>c i. c < largest_badge cfg \<longrightarrow> i < timers_per_client cfg \<longrightarrow>
       (bit (completed (client_states s' ! c)) i \<longleftrightarrow>
          bit (completed (client_states s ! c)) i \<or> 0 < fires_opt now (a_armed (spec_of s) (c, i)))) \<and>
    (\<forall>c. count_list (tm_events s') (Emit (c + 1)) = count_list (tm_events s) (Emit (c + 1)) +
       (\<Sum>i < timers_per_client cfg. fires_opt now (a_armed (spec_of s) (c, i)))))"
proof -
  have "serves cfg Op_interrupt s"
    by (rule interrupt_serves [OF assms(1,2)]) (use fit now in simp)
  then obtain s' where s': "tm_irq_handle cfg s = Some s'" "tm_inv cfg s'"
      "spec_of s' = drain (timers_per_client cfg) now ((spec_of s)\<lparr>a_now := now\<rparr>)"
    by (auto simp: serves_def spec_tick_def Let_def now)
  have len: "length (client_states s) = largest_badge cfg" "length (client_states s') = largest_badge cfg"
    using assms(1) s'(2) by (simp_all add: tm_inv_def tm_queue_def tm_shape_def)
  have "the_current_time s' = now"
    using arg_cong [OF s'(3), of a_now] by (simp add: drain_def)
  moreover have "\<forall>r al. a_armed (spec_of s') r = Some al \<longrightarrow> fires now al = 0"
    unfolding s'(3) using fit by (intro allI impI drain_leaves_idle) (simp_all add: all_fit_def)
  moreover have "bit (completed (client_states s' ! c)) i \<longleftrightarrow>
      bit (completed (client_states s ! c)) i \<or> 0 < fires_opt now (a_armed (spec_of s) (c, i))"
    if "c < largest_badge cfg" "i < timers_per_client cfg" for c i
  proof -
    have "c < length (a_done (spec_of s))" using that(1) len by (simp add: spec_of_def)
    with that len assms(2) show ?thesis
      by (simp add: flags_of s'(3) nth_drain bit_or_iff bit_due_bits cfg_ok_def)
  qed
  ultimately show ?thesis
    using s'(1,2) by (simp add: count_signals s'(3)) (simp add: drain_def)
qed

text \<open>A state with a timer that is five periods behind.\<close>

definition late_server :: time_server where
  "late_server = \<lparr>timer_head = Some (0, 1),
     tm_heap = (\<lambda>(i, j). if i < 2 \<and> j < 2 then
        Some (if (i, j) = (0, 1) then (idle_timer 0 1)\<lparr>tm_type := 1, periodic_ns := 200000, timeout_time := 100000\<rparr>
              else idle_timer i j) else None),
     client_states = [\<lparr>cs_id = 0, completed = 0\<rparr>, \<lparr>cs_id = 1, completed = 0\<rparr>],
     the_current_time = 0, tm_locked = False, tm_events = []\<rparr>"

lemma late_spec: "a_armed (spec_of late_server) = [(0, 1) \<mapsto> Every 200000 100000]"
  by (auto simp: spec_of_def late_server_def idle_timer_def alarm_of_def fun_eq_iff)

lemma late_inv: "tm_inv small_config late_server"
proof -
  have "armed late_server = {(0, 1)}" by (auto simp: armed_def late_spec)
  moreover have "tq.queue late_server {(0, 1)}"
    unfolding holds_sorted_def
    by (intro exI [of _ "[(0, 1)]"]) (simp add: tq_rep_def late_server_def idle_timer_def)
  moreover have "tm_shape small_config (core late_server)"
    by (auto simp: tm_shape_def core_def payload_def late_server_def small_config_def idle_timer_def
         strip_def split: if_splits)
  ultimately show ?thesis
    by (simp add: tm_inv_def tm_queue_def) (simp add: late_server_def)
qed

theorem irq_handle_drains_witness:
  "ok (tm_irq_handle small_config late_server) (\<lambda>s'. tm_inv small_config s' \<and>
     bit (completed (client_states s' ! 0)) 1 \<and> count_list (tm_events s') (Emit 1) = 5)"
proof -
  have now: "1000000 = the_current_time late_server + TIMER_PERIOD (ns_in_s small_config)"
    by (simp add: late_server_def small_config_def TIMER_PERIOD_def)
  have "all_fit 1000000 (spec_of late_server)"
    by (auto simp: all_fit_def late_spec alarm_fits_def split: if_splits)
  note drained = irq_handle_drains [OF late_inv small_config_ok(1) now this]
  have "(\<Sum>i<2. fires_opt 1000000 (a_armed (spec_of late_server) (0, i))) = 5"
    by (simp add: late_spec fires_opt_def fires_def lessThan_nat_numeral lessThan_Suc)
  moreover have "0 < fires_opt 1000000 (a_armed (spec_of late_server) (0, 1))"
    by (simp add: late_spec fires_opt_def fires_def)
  moreover have "tm_events late_server = []" by (simp add: late_server_def)
  moreover have "0 < largest_badge small_config" "1 < timers_per_client small_config"
      "timers_per_client small_config = 2"
    by (simp_all add: small_config_def)
  ultimately show ?thesis
  proof (intro ok_mono [OF drained], elim conjE)
    fix s'
    assume "tm_inv small_config s'"
      and flags: "\<forall>c i. c < largest_badge small_config \<longrightarrow> i < timers_per_client small_config \<longrightarrow>
        (bit (completed (client_states s' ! c)) i \<longleftrightarrow> bit (completed (client_states late_server ! c)) i \<or>
           0 < fires_opt 1000000 (a_armed (spec_of late_server) (c, i)))"
      and signals: "\<forall>c. count_list (tm_events s') (Emit (c + 1)) =
        count_list (tm_events late_server) (Emit (c + 1)) +
        (\<Sum>i<timers_per_client small_config. fires_opt 1000000 (a_armed (spec_of late_server) (c, i)))"
      and facts: "(\<Sum>i<2. fires_opt 1000000 (a_armed (spec_of late_server) (0, i))) = 5"
        "0 < fires_opt 1000000 (a_armed (spec_of late_server) (0, 1))" "tm_events late_server = []"
        "0 < largest_badge small_config" "1 < timers_per_client small_config"
        "timers_per_client small_config = 2"
    moreover have "bit (completed (client_states s' ! 0)) 1"
      using flags facts(2,4,5) by blast
    moreover have "count_list (tm_events s') (Emit 1) = 5"
      using signals [rule_format, of 0] facts(1,3,6) by (simp only: count_list.simps add_0)
    ultimately show "tm_inv small_config s' \<and> bit (completed (client_states s' ! 0)) 1 \<and>
        count_list (tm_events s') (Emit 1) = 5" by blast
  qed
qed

section \<open>Two ways to lose the server\<close>

lemma zero_period_turn:
  assumes "tm_queue cfg s" "cfg_ok cfg" "a_armed (spec_of s) r0 = Some (Every 0 d)" "d \<le> now"
  obtains r t s1 where "timer_head s = Some r" "tm_heap s r = Some t" "timeout_time t \<le> now"
    "signal_client r now s = Some s1" "tm_queue cfg s1" "a_armed (spec_of s1) r0 = Some (Every 0 d)"
proof -
  have q: "tq.queue s (armed s)" using assms(1) by (simp add: tm_queue_def)
  have r0: "r0 \<in> armed s" using assms(3) by (auto simp: armed_def)
  then obtain r where r: "timer_head s = Some r"
    using tq.queue_top_None [OF q] by (cases "timer_head s") auto
  have least: "r \<in> armed s" "due s r \<le> due s r0"
    using tq.queue_top_least [OF q r] r0 by auto
  obtain t where t: "tm_heap s r = Some t" using least(1) by (auto simp: armed_iff)
  have "due s r0 = d"
    using assms(3) by (auto simp: spec_of_def bind_splits alarm_of_def due_def split: if_splits)
  then have "timeout_time t \<le> now" using least(2) t assms(4) by (simp add: due_def)
  moreover obtain s1 where "signal_client r now s = Some s1" "tm_queue cfg s1"
      "spec_of s1 = spec_signal r (spec_of s)"
    using signal_client_wp [OF assms(1,2) least(1), of now] by (auto simp: ok_def)
  moreover have "a_armed (spec_signal r (spec_of s)) r0 = Some (Every 0 d)"
    using assms(3) by (cases "r0 = r") (auto simp: spec_signal_def advance_def)
  ultimately show thesis using that r t by metis
qed

lemma zero_period_loops:
  assumes "signal_clients now s = Some s'" "tm_queue cfg s" "cfg_ok cfg"
    "a_armed (spec_of s) r0 = Some (Every 0 d)" "d \<le> now"
  shows False
proof -
  have "tm_queue cfg s \<and> a_armed (spec_of s) r0 = Some (Every 0 d) \<and> d \<le> now \<longrightarrow> False"
  proof (rule signal_clients.raw_induct [OF _ assms(1)], intro impI)
    fix rec now s y
    assume IH: "\<And>now s y. rec now s = Some y \<Longrightarrow>
        tm_queue cfg s \<and> a_armed (spec_of s) r0 = Some (Every 0 d) \<and> d \<le> now \<longrightarrow> False"
      and body: "(case timer_head s of None \<Rightarrow> Some s
        | Some r \<Rightarrow> tm_heap s r \<bind> (\<lambda>t. if timeout_time t \<le> now
            then signal_client r now s \<bind> rec now else Some s)) = Some y"
      and s: "tm_queue cfg s \<and> a_armed (spec_of s) r0 = Some (Every 0 d) \<and> d \<le> now"
    obtain r t s1 where "timer_head s = Some r" "tm_heap s r = Some t" "timeout_time t \<le> now"
      "signal_client r now s = Some s1" "tm_queue cfg s1" "a_armed (spec_of s1) r0 = Some (Every 0 d)"
      using s by (blast intro: zero_period_turn [OF _ assms(3)])
    with body IH s show False by auto
  qed
  with assms show False by blast
qed

text \<open>
  C36: \<^verbatim>\<open>timer_periodic\<close> with a period of zero is accepted, and the next interrupt then never
  returns from \<^verbatim>\<open>signal_clients\<close>: it keeps taking the same timer from the head of the list and
  putting it back, with the server's lock held.
\<close>

theorem zero_period_hangs:
  assumes "tm_inv cfg s" "cfg_ok cfg" "badge_ok cfg b" "\<not> bad_tid cfg i"
    and "unat (the_current_time s) + unat (TIMER_PERIOD (ns_in_s cfg)) < 2 ^ 64"
  shows "ok (the_timer_periodic cfg b i 0 s) (\<lambda>(ret, s'). ret = 0 \<and> tm_irq_handle cfg s' = None)"
proof -
  have "serves cfg (Op_periodic b i 0) s" by (rule periodic_serves [OF assms(1-4)])
  then obtain s' where s': "the_timer_periodic cfg b i 0 s = Some (0, s')" "tm_inv cfg s'"
      "spec_of s' = spec_arm (unat b - 1, nat i) (Some (Every 0 (the_current_time s))) (spec_of s)"
    using assms(4) by (auto simp: serves_def spec_set_def)
  have now: "the_current_time s' = the_current_time s"
    using arg_cong [OF s'(3), of a_now] by (simp add: spec_arm_def)
  let ?now = "the_current_time s + TIMER_PERIOD (ns_in_s cfg)"
  let ?s = "s'\<lparr>tm_locked := True, the_current_time := ?now\<rparr>"
  have le: "the_current_time s \<le> ?now"
    using unat_add_fits [OF assms(5)] by (simp add: word_le_nat_alt)
  have armed: "a_armed (spec_of ?s) (unat b - 1, nat i) = Some (Every 0 (the_current_time s))"
    using arg_cong [OF s'(3), of a_armed] by (simp add: spec_arm_def spec_of_def fun_eq_iff)
  have "signal_clients ?now ?s = None"
    using zero_period_loops [OF _ _ assms(2) armed le] s'(2)
    by (cases "signal_clients ?now ?s") (auto simp: tm_inv_def)
  then have "tm_irq_handle cfg s' = None"
    using tm_inv_free [OF s'(2)] now
    by (simp add: tm_irq_handle_def update_current_time_ns_def current_time_ns_def)
  with s'(1) show ?thesis by simp
qed

theorem zero_period_hangs_witness:
  "ok (the_timer_periodic small_config 2 1 0 late_server)
     (\<lambda>(ret, s'). ret = 0 \<and> tm_irq_handle small_config s' = None)"
  by (rule zero_period_hangs [OF late_inv small_config_ok(1)])
    (simp_all add: badge_ok_def bad_tid_def small_config_def late_server_def TIMER_PERIOD_def)

text \<open>
  When the attribute \<^verbatim>\<open>nvtmr_number\<close> names none of the ten devices, \<^verbatim>\<open>post_init\<close> returns
  early with the lock of the server taken. From then on every interrupt and every call with a
  valid timer number blocks for ever; only \<^verbatim>\<open>timer_time\<close>, which takes no lock, answers.
\<close>

theorem bad_device_locks_server:
  assumes "timer_device cfg = None" "\<not> tm_locked s0"
  shows "ok (tm_post_init cfg True dev_ok s0) (\<lambda>s.
    tm_irq_handle cfg s = None \<and>
    (\<forall>b. the_timer_completed b s = None) \<and>
    (\<forall>b i ns. \<not> bad_tid cfg i \<longrightarrow>
       the_timer_periodic cfg b i ns s = None \<and> the_timer_oneshot_relative cfg b i ns s = None \<and>
       the_timer_oneshot_absolute cfg b i ns s = None \<and> the_timer_stop cfg b i s = None) \<and>
    (\<forall>b. the_timer_time b s = the_current_time s0))"
  using assms
  by (simp add: tm_post_init_def init_clients_def tm_irq_handle_def entry_defs current_time_ns_def)

theorem bad_device_locks_server_witness:
  "ok (tm_post_init (small_config\<lparr>nvtmr_number := 10\<rparr>) True True time_server_boot) (\<lambda>s.
     tm_irq_handle (small_config\<lparr>nvtmr_number := 10\<rparr>) s = None \<and>
     the_timer_periodic (small_config\<lparr>nvtmr_number := 10\<rparr>) 1 0 1000 s = None)"
proof -
  let ?cfg = "small_config\<lparr>nvtmr_number := 10\<rparr>"
  have none: "timer_device ?cfg = None" and tid: "\<not> bad_tid ?cfg 0"
    by (simp_all add: timer_device_def small_config_def bad_tid_def upt_rec)
  have free: "\<not> tm_locked time_server_boot" by (simp add: time_server_boot_def)
  show ?thesis
    by (rule ok_mono [OF bad_device_locks_server [OF none free, of True]]) (use tid in blast)
qed

section \<open>The rate of a periodic timer\<close>

text \<open>
  \<open>k\<close> nanoseconds after the start at time 0, a timer of period \<open>p\<close> waits for the next multiple
  of its period.
\<close>

definition rated :: "tref \<Rightarrow> nat \<Rightarrow> nat \<Rightarrow> timer_spec \<Rightarrow> bool" where
  "rated r p k a \<longleftrightarrow> a_now a = of_nat k \<and>
     a_armed a = [r \<mapsto> Every (of_nat p) (of_nat (p * (k div p + 1)))]"

lemma unat_of_nat64: "n < 2 ^ 64 \<Longrightarrow> unat (of_nat n :: u64) = n"
  by (simp add: unat_of_nat)

lemma fires_rated:
  assumes "0 < p" "k' + p < 2 ^ 64" "k \<le> k'"
  shows "fires (of_nat k') (Every (of_nat p) (of_nat (p * (k div p + 1)))) = k' div p - k div p"
proof -
  let ?d = "p * (k div p + 1)"
  have "?d \<le> k + p" by (simp add: times_div_less_eq_dividend)
  then have "?d < 2 ^ 64" "k' < 2 ^ 64" "p < 2 ^ 64" using assms by linarith+
  then have u: "unat (of_nat k' :: u64) = k'" "unat (of_nat p :: u64) = p" "unat (of_nat ?d :: u64) = ?d"
    by (simp_all only: unat_of_nat64)
  show ?thesis
  proof (cases "?d \<le> k'")
    case True
    then obtain m where m: "k' = ?d + m" by (auto dest: le_Suc_ex)
    have "k' div p = k div p + 1 + m div p"
      unfolding m using assms(1) by (simp only: div_mult_self4 neq0_conv)
    with True m show ?thesis
      unfolding fires_def alarm.case word_le_nat_alt u by simp
  next
    case False
    then have "k' div p < k div p + 1"
      using assms(1) by (simp add: div_less_iff_less_mult mult.commute)
    moreover have "k div p \<le> k' div p" using assms(3) by (rule div_le_mono)
    ultimately show ?thesis
      using False unfolding fires_def alarm.case word_le_nat_alt u by simp
  qed
qed

lemma tick_rated:
  assumes "rated (c, i) p k a" "0 < p" "k + T + p < 2 ^ 64" "i < timers_per_client cfg"
    "TIMER_PERIOD (ns_in_s cfg) = of_nat T"
  shows "rated (c, i) p (k + T) (spec_tick cfg a)" "op_ok cfg Op_interrupt a"
    "a_signals (spec_tick cfg a) (Suc c) = a_signals a (Suc c) + ((k + T) div p - k div p)"
proof -
  let ?now = "of_nat (k + T) :: u64" and ?al = "Every (of_nat p) (of_nat (p * (k div p + 1)))"
  have now: "a_now a + TIMER_PERIOD (ns_in_s cfg) = ?now"
    using assms(1,5) by (simp add: rated_def)
  have arm: "a_armed a = [(c, i) \<mapsto> ?al]" using assms(1) by (simp add: rated_def)
  have f: "fires ?now ?al = (k + T) div p - k div p"
    by (rule fires_rated) (use assms in simp_all)
  have mono: "k div p \<le> (k + T) div p" by (rule div_le_mono) simp
  have "expire ?now ?al = Some (Every (of_nat p) (of_nat (p * ((k + T) div p + 1))))"
    using mono unfolding expire_def alarm.case f
    by (simp flip: of_nat_mult of_nat_add add: algebra_simps diff_mult_distrib2)
  then show "rated (c, i) p (k + T) (spec_tick cfg a)"
    unfolding rated_def spec_tick_def Let_def now drain_def by (auto simp: arm)
  have "unat (of_nat (k + T) :: u64) = k + T" "unat (of_nat p :: u64) = p"
    using assms(3) by (auto intro!: unat_of_nat64 simp del: of_nat_add)
  then have "alarm_fits ?now ?al"
    using assms(2,3) unfolding alarm_fits_def alarm.case word_less_nat_alt by simp
  then show "op_ok cfg Op_interrupt a"
    by (simp only: op_ok.simps now) (simp add: all_fit_def arm)
  have "(\<Sum>j<timers_per_client cfg. fires_opt ?now (a_armed a (c, j))) = 
      (\<Sum>j<timers_per_client cfg. if j = i then fires ?now ?al else 0)"
    by (rule sum.cong) (auto simp: arm fires_opt_def)
  also have "\<dots> = (k + T) div p - k div p"
    unfolding f using assms(4) by simp
  finally show "a_signals (spec_tick cfg a) (Suc c) = a_signals a (Suc c) + ((k + T) div p - k div p)"
    unfolding spec_tick_def Let_def now drain_def by simp
qed

lemma ticks_rated:
  assumes "tm_inv cfg s" "cfg_ok cfg" "rated (c, i) p k (spec_of s)" "0 < p"
    "k + n * T + p < 2 ^ 64" "i < timers_per_client cfg" "TIMER_PERIOD (ns_in_s cfg) = of_nat T"
  shows "\<exists>s'. run_ops (timer_step cfg) (replicate n Op_interrupt) s = Some (replicate n Served, s') \<and>
    tm_inv cfg s' \<and> rated (c, i) p (k + n * T) (spec_of s') \<and>
    a_signals (spec_of s') (Suc c) = a_signals (spec_of s) (Suc c) + ((k + n * T) div p - k div p)"
  using assms(1,3,5)
proof (induction n arbitrary: s k)
  case 0
  then show ?case by simp
next
  case (Suc n)
  have room: "k + T + p < 2 ^ 64" using Suc.prems(3) by simp
  note tick = tick_rated [OF Suc.prems(2) assms(4) room assms(6,7)]
  have "serves cfg Op_interrupt s" by (rule interrupt_serves [OF Suc.prems(1) assms(2) tick(2)])
  then obtain s1 where s1: "tm_irq_handle cfg s = Some s1" "tm_inv cfg s1" "spec_of s1 = spec_tick cfg (spec_of s)"
    by (auto simp: serves_def)
  have "rated (c, i) p (k + T) (spec_of s1)" "(k + T) + n * T + p < 2 ^ 64"
    using tick(1) s1(3) Suc.prems(3) by (simp_all add: algebra_simps)
  from Suc.IH [OF s1(2) this] obtain s' where s': "run_ops (timer_step cfg) (replicate n Op_interrupt) s1 =
      Some (replicate n Served, s')" "tm_inv cfg s'"
    "rated (c, i) p (k + T + n * T) (spec_of s')"
    "a_signals (spec_of s') (Suc c) = a_signals (spec_of s1) (Suc c) + ((k + T + n * T) div p - (k + T) div p)"
    by auto
  have "k div p \<le> (k + T) div p" "(k + T) div p \<le> (k + T + n * T) div p"
    by (rule div_le_mono, simp)+
  with s' s1 tick(3) show ?case by (simp add: ac_simps)
qed

text \<open>
  C27: The example client, which asks for a period of one second when it starts, has been notified
  exactly \<open>n div 1000\<close> times after \<open>n\<close> of the millisecond interrupts, for as long as the clock
  fits 64 bits: no tick is lost and none is early, and the error does not accumulate. The callback
  then reads a clock of \<open>n\<close> milliseconds.
\<close>

theorem client_ticks_each_second:
  assumes "cfg_ok cfg" "timer_device cfg = Some k" "badge_ok cfg b" "0 < timers_per_client cfg"
    "ns_in_s cfg = 1000000000" "n * 1000000 + 1000000000 < 2 ^ 64"
  shows "ok (tm_post_init cfg True True time_server_boot) (\<lambda>s.
    \<exists>s1 s2. client_post_init cfg b s = Some (0, s1) \<and>
      run_ops (timer_step cfg) (replicate n Op_interrupt) s1 = Some (replicate n Served, s2) \<and>
      count_list (tm_events s2) (Emit (unat b)) = n div 1000 \<and>
      timer_complete_callback b s2 = of_nat (n * 1000000))"
proof (rule ok_mono [OF post_init_inv [OF assms(2)]], elim conjE)
  fix s
  assume s: "tm_inv cfg s" and spec: "spec_of s = \<lparr>a_now = 0, a_armed = (\<lambda>_. None),
    a_done = replicate (largest_badge cfg) 0, a_signals = (\<lambda>_. 0)\<rparr>"
  let ?c = "unat b - 1"
  have tid: "\<not> bad_tid cfg 0" using assms(4) by (simp add: bad_tid_def)
  have "serves cfg (Op_periodic b 0 1000000000) s"
    by (rule periodic_serves [OF s assms(1,3) tid])
  then obtain s1 where s1: "client_post_init cfg b s = Some (0, s1)" "tm_inv cfg s1"
      "spec_of s1 = spec_arm (?c, 0) (Some (Every 1000000000 1000000000)) (spec_of s)"
    using tid spec by (auto simp: serves_def spec_set_def client_post_init_def)
  have "rated (?c, 0) 1000000000 0 (spec_of s1)"
    by (simp add: s1(3) spec spec_arm_def rated_def)
  moreover have "TIMER_PERIOD (ns_in_s cfg) = of_nat 1000000"
    by (simp add: assms(5) TIMER_PERIOD_def)
  ultimately obtain s2 where s2: "run_ops (timer_step cfg) (replicate n Op_interrupt) s1 = Some (replicate n Served, s2)"
      "a_signals (spec_of s2) (Suc ?c) = a_signals (spec_of s1) (Suc ?c) + ((0 + n * 1000000) div 1000000000 - 0 div 1000000000)"
      "rated (?c, 0) 1000000000 (0 + n * 1000000) (spec_of s2)"
    using ticks_rated [OF s1(2) assms(1), of ?c 0 1000000000 0 n 1000000] assms(4,6) by auto
  have clock: "timer_complete_callback b s2 = of_nat (n * 1000000)"
    using s2(3) by (simp add: rated_def timer_complete_callback_def the_timer_time_def read_time_def current_time_ns_def
      del: of_nat_mult)
  have "Suc ?c = unat b" using assms(3) by (simp add: badge_ok_def)
  moreover have "(n * 1000000) div (1000 * 1000000) = n div 1000"
    by (rule div_mult_mult2) simp
  ultimately have "count_list (tm_events s2) (Emit (unat b)) = n div 1000"
    using s2(2) by (simp add: count_signals s1(3) spec spec_arm_def)
  with s1(1) s2(1) show "\<exists>s1 s2. client_post_init cfg b s = Some (0, s1) \<and>
      run_ops (timer_step cfg) (replicate n Op_interrupt) s1 = Some (replicate n Served, s2) \<and>
      count_list (tm_events s2) (Emit (unat b)) = n div 1000 \<and>
      timer_complete_callback b s2 = of_nat (n * 1000000)" using clock by blast
qed

theorem client_ticks_each_second_witness:
  "ok (tm_post_init small_config True True time_server_boot) (\<lambda>s.
    \<exists>s1 s2. client_post_init small_config 2 s = Some (0, s1) \<and>
      run_ops (timer_step small_config) (replicate 2500 Op_interrupt) s1 = Some (replicate 2500 Served, s2) \<and>
      count_list (tm_events s2) (Emit 2) = 2 \<and> timer_complete_callback 2 s2 = 2500000000)"
  using client_ticks_each_second [OF small_config_ok, of 2 2500]
  by (simp add: badge_ok_def small_config_def)

end
