(* ===== verification/Time_Connector.thy ===== *)
theory Time_Connector
  imports Time_Server_Laws
begin

text \<open>
  The glue between the time server and its clients, \<^verbatim>\<open>templates/seL4TimeServer-to.template.c\<close>. CAmkES
  instantiates the template with the list \<open>badges\<close> of the attributes of the connected clients; what
  it generates for that list is modelled here: the number of clients the server allocates, and the
  table by which a notification finds the client's endpoint.
\<close>

section \<open>The generated code\<close>

text \<open>
  \<^verbatim>\<open>lookup\<close>: an array with a designated initialiser for every badge, so that it ends with the largest
  of them and is \<^verbatim>\<open>NULL\<close> between. An entry is the function that signals the client's endpoint, and
  stands for that endpoint.
\<close>

definition emit_lookup :: "nat list \<Rightarrow> nat option list" where
  "emit_lookup badges = fold (\<lambda>b table. table[b := Some b]) (sort badges)
     (replicate (foldr max badges 0 + 1) None)"

definition timer_emit :: "nat list \<Rightarrow> nat \<Rightarrow> nat list \<Rightarrow> nat list option" where
  "timer_emit badges badge signalled = do {
     let lookup = emit_lookup badges;
     c_assert (badge < length lookup);
     entry \<leftarrow> array_get lookup badge;
     endpoint \<leftarrow> entry;
     Some (signalled @ [endpoint])
   }"

definition timer_largest_badge :: "nat list \<Rightarrow> nat" where
  "timer_largest_badge badges = sort badges ! (length badges - 1)"

section \<open>The table\<close>

lemma length_emit_table: "length (fold (\<lambda>b table. table[b := Some b]) bs t) = length t"
  by (induction bs arbitrary: t) auto

lemma nth_emit_table:
  assumes "\<forall>b\<in>set bs. b < length t" "i < length t"
  shows "fold (\<lambda>b table. table[b := Some b]) bs t ! i = (if i \<in> set bs then Some i else t ! i)"
  using assms by (induction bs arbitrary: t) (auto simp: nth_list_update)

lemma max_badge: "b \<in> set bs \<Longrightarrow> b \<le> foldr max bs (0 :: nat)"
  by (induction bs) auto

lemma emit_lookup_nth:
  assumes "b \<in> set badges"
  shows "b < length (emit_lookup badges)" "emit_lookup badges ! b = Some b"
  using assms max_badge [of _ badges]
  by (auto simp: emit_lookup_def length_emit_table nth_emit_table le_imp_less_Suc)

lemma timer_emit_connected: "b \<in> set badges \<Longrightarrow> timer_emit badges b es = Some (es @ [b])"
  using emit_lookup_nth [of b badges] by (simp add: timer_emit_def c_assert_def)

lemma timer_emit_not_connected:
  assumes "b \<notin> set badges"
  shows "timer_emit badges b es = None"
proof (cases "b < length (emit_lookup badges)")
  case True
  with assms have "emit_lookup badges ! b = None"
    using max_badge [of _ badges]
    by (auto simp: emit_lookup_def length_emit_table nth_emit_table le_imp_less_Suc simp del: replicate.simps)
  with True show ?thesis by (simp add: timer_emit_def)
qed (simp add: timer_emit_def c_assert_def)

lemma largest_badge_bounds:
  assumes "b \<in> set badges"
  shows "b \<le> timer_largest_badge badges"
proof -
  obtain i where i: "i < length (sort badges)" "sort badges ! i = b"
    using assms by (metis in_set_conv_nth set_sort)
  then have "sort badges ! i \<le> sort badges ! (length badges - 1)"
    by (intro sorted_nth_mono) auto
  with i show ?thesis by (simp add: timer_largest_badge_def)
qed

lemma connected_badge_ok:
  "largest_badge cfg = timer_largest_badge badges \<Longrightarrow> 0 \<notin> set badges \<Longrightarrow> unat b \<in> set badges \<Longrightarrow>
   badge_ok cfg b"
  using largest_badge_bounds [of "unat b" badges] by (cases "unat b") (auto simp: badge_ok_def)

section \<open>The notifications of a run\<close>

text \<open>Only connected clients can call, so that only they ever have an alarm.\<close>

fun callers_in :: "nat list \<Rightarrow> timer_op \<Rightarrow> bool" where
  "callers_in badges (Op_relative b i ns) \<longleftrightarrow> unat b \<in> set badges"
| "callers_in badges (Op_absolute b i ns) \<longleftrightarrow> unat b \<in> set badges"
| "callers_in badges (Op_periodic b i ns) \<longleftrightarrow> unat b \<in> set badges"
| "callers_in badges (Op_stop b i) \<longleftrightarrow> unat b \<in> set badges"
| "callers_in badges (Op_completed b) \<longleftrightarrow> unat b \<in> set badges"
| "callers_in badges (Op_time b) \<longleftrightarrow> unat b \<in> set badges"
| "callers_in badges Op_interrupt \<longleftrightarrow> True"

definition only_connected :: "nat list \<Rightarrow> timer_spec \<Rightarrow> bool" where
  "only_connected badges a \<longleftrightarrow>
     (\<forall>c i. Suc c \<notin> set badges \<longrightarrow> a_armed a (c, i) = None) \<and>
     (\<forall>b. b \<notin> set badges \<longrightarrow> a_signals a b = 0)"

lemma spec_set_connected:
  "only_connected badges a \<Longrightarrow> unat b \<in> set badges \<Longrightarrow> 0 \<notin> set badges \<Longrightarrow>
   only_connected badges (snd (spec_set cfg b i al a))"
  by (cases "unat b") (auto simp: only_connected_def spec_set_def spec_arm_def)

lemma tick_connected: "only_connected badges a \<Longrightarrow> only_connected badges (spec_tick cfg a)"
  by (auto simp: only_connected_def spec_tick_def drain_def Let_def fires_opt_def split: nat.splits)

lemma spec_step_connected:
  assumes "only_connected badges a" "callers_in badges op" "0 \<notin> set badges"
  shows "only_connected badges (snd (spec_step cfg op a))"
  using assms
  by (cases op) (auto intro: spec_set_connected tick_connected simp: only_connected_def [of _ "_\<lparr>a_done := _\<rparr>"]
      only_connected_def [of _ a])

lemma spec_run_connected:
  assumes "only_connected badges a" "list_all (callers_in badges) ops" "0 \<notin> set badges"
  shows "only_connected badges (snd (spec_run (spec_step cfg) ops a))"
  using assms(1,2)
proof (induction ops arbitrary: a)
  case (Cons op ops)
  then show ?case
    using Cons.IH [OF spec_step_connected [OF Cons.prems(1) _ assms(3)]] by (simp add: split_beta)
qed simp

text \<open>The emissions of the server, carried out by the generated code.\<close>

fun emissions :: "tm_event list \<Rightarrow> nat list" where
  "emissions [] = []"
| "emissions (Emit b # es) = b # emissions es"
| "emissions (e # es) = emissions es"

fun signal_each :: "nat list \<Rightarrow> nat list \<Rightarrow> nat list \<Rightarrow> nat list option" where
  "signal_each badges [] es = Some es"
| "signal_each badges (b # bs) es = Option.bind (timer_emit badges b es) (signal_each badges bs)"

lemma set_emissions: "b \<in> set (emissions es) \<longleftrightarrow> Emit b \<in> set es"
  by (induction es rule: emissions.induct) auto

lemma signal_each_connected:
  "set bs \<subseteq> set badges \<Longrightarrow> signal_each badges bs es = Some (es @ bs)"
  by (induction bs arbitrary: es) (auto simp: timer_emit_connected)


text \<open>The badges of \<^verbatim>\<open>apps/timer_tk1\<close>.\<close>

definition timer_app_config :: tm_config where
  "timer_app_config = small_config\<lparr>largest_badge := 10\<rparr>"


end
