(* ===== verification/Clkcar_Fwd.thy ===== *)
theory Clkcar_Fwd
  imports Mmio
begin

text \<open>
  The filter in front of the clock and reset controller, \<^verbatim>\<open>components/clkcar/src/fwd_driver.c\<close>.
  A virtual machine reads and writes the controller through it; the kind of each register comes
  from the table \<^verbatim>\<open>tk1_clk_registers\<close> of libplatsupport. That table, the address ranges of the
  PLLs, the numbers of the clocks and of the register kinds, and \<^verbatim>\<open>PAGE_SIZE\<close> are the fields of
  \<open>clk_platform\<close>.
\<close>

section \<open>Data\<close>

datatype access_type = READ_ACCESS | WRITE_ACCESS

record access_request =
  ar_addr :: u32
  ar_type :: access_type
  ar_value :: u32

record clk_register =
  reg_type :: nat
  eb_rb :: u32
  st_clks :: nat

record clk_platform =
  page_size :: u32
  clk_registers :: "clk_register list"
  CLK_RESERVED :: nat
  CLK_PLL :: nat
  CLK_ENBRST_DEVICES :: nat
  CLK_SOURCE :: nat
  CLK_MISC :: nat
  NUM_REGISTER_TYPES :: nat
  PLLC :: "u32 \<times> u32"
  PLLM :: "u32 \<times> u32"
  PLLP :: "u32 \<times> u32"
  PLLP_1 :: "u32 \<times> u32"
  PLLP_RESHIFT_0 :: u32
  CLK_ENB_UARTD :: u32
  CLK_ENB_SDMMC4 :: u32
  CLK_ENB_USB2 :: u32
  CLK_ENB_USB3 :: u32
  uartd_r_clk :: nat
  sdmmc4_r_clk_t :: nat

section \<open>The access handlers\<close>

definition PLLCON :: "u32 \<Rightarrow> u32 \<times> u32 \<Rightarrow> bool" where
  "PLLCON a r \<longleftrightarrow> fst r \<le> a \<and> a < snd r"

abbreviation (input) PLLP_BASE_0 :: u32 where "PLLP_BASE_0 \<equiv> 0xa0"
abbreviation (input) PLLP_MISC_0 :: u32 where "PLLP_MISC_0 \<equiv> 0xac"

text \<open>The branches after PLLP only log which PLL is meant, and fall through to \<^verbatim>\<open>return true\<close>.\<close>

definition allow_pll :: "clk_platform \<Rightarrow> access_request \<Rightarrow> clk_register \<Rightarrow> bool" where
  "allow_pll env ar reg =
     (let addr = ar_addr ar in
      if PLLCON addr (PLLC env) then True
      else if PLLCON addr (PLLM env) then True
      else if PLLCON addr (PLLP env) \<or> PLLCON addr (PLLP_1 env) \<or> addr = PLLP_RESHIFT_0 env then
        \<not> ((addr = PLLP_BASE_0 \<or> addr = PLLP_MISC_0) \<and> ar_type ar = WRITE_ACCESS)
      else True)"

text \<open>\<^verbatim>\<open>__builtin_ctz\<close>: the position of the lowest set bit, for a value other than zero.\<close>

definition ctz :: "u32 \<Rightarrow> nat" where
  "ctz w = (case find (bit w) [0..<32] of Some i \<Rightarrow> i | None \<Rightarrow> 32)"

definition enb_allowed :: "clk_platform \<Rightarrow> u32 \<Rightarrow> bool" where
  "enb_allowed env dev \<longleftrightarrow>
     dev = CLK_ENB_UARTD env \<or> dev = CLK_ENB_SDMMC4 env \<or> dev = CLK_ENB_USB2 env \<or> dev = CLK_ENB_USB3 env"

text \<open>The loop over the set bits; the first argument counts \<^verbatim>\<open>i\<close> up to 32.\<close>

fun enbrst_loop :: "nat \<Rightarrow> clk_platform \<Rightarrow> u32 \<Rightarrow> u32 \<Rightarrow> bool" where
  "enbrst_loop 0 env base_id val = True"
| "enbrst_loop (Suc n) env base_id val =
     (if val = 0 then True
      else let pos = ctz val; dev = base_id + of_nat pos in
        if enb_allowed env dev then enbrst_loop n env base_id (val AND NOT (BIT pos)) else False)"

definition allow_enbrst :: "clk_platform \<Rightarrow> access_request \<Rightarrow> clk_register \<Rightarrow> bool" where
  "allow_enbrst env ar reg =
     (if ar_type ar = WRITE_ACCESS then enbrst_loop 32 env (eb_rb reg * 32) (ar_value ar) else True)"

definition allow_source :: "clk_platform \<Rightarrow> access_request \<Rightarrow> clk_register \<Rightarrow> bool" where
  "allow_source env ar reg =
     (if st_clks reg = uartd_r_clk env \<or> st_clks reg = sdmmc4_r_clk_t env then True
      else if ar_type ar = WRITE_ACCESS then False else True)"

definition allow_misc :: "clk_platform \<Rightarrow> access_request \<Rightarrow> clk_register \<Rightarrow> bool" where
  "allow_misc env ar reg = (if ar_type ar = READ_ACCESS then True else False)"

definition allow_reserved :: "clk_platform \<Rightarrow> access_request \<Rightarrow> clk_register \<Rightarrow> bool" where
  "allow_reserved env ar reg = False"

text \<open>A designated initialiser: where two indices agree the later one counts.\<close>

definition access_handlers ::
  "clk_platform \<Rightarrow> nat \<Rightarrow> (access_request \<Rightarrow> clk_register \<Rightarrow> bool) option" where
  "access_handlers env t =
     (if t = CLK_MISC env then Some (allow_misc env)
      else if t = CLK_SOURCE env then Some (allow_source env)
      else if t = CLK_ENBRST_DEVICES env then Some (allow_enbrst env)
      else if t = CLK_PLL env then Some (allow_pll env)
      else if t = CLK_RESERVED env then Some (allow_reserved env)
      else None)"

section \<open>The interface\<close>

definition handle_register ::
  "clk_platform \<Rightarrow> (nat \<Rightarrow> 'd \<Rightarrow> u32 \<times> 'd) \<Rightarrow> (nat \<Rightarrow> u32 \<Rightarrow> 'd \<Rightarrow> 'd) \<Rightarrow>
   u32 \<Rightarrow> u32 \<Rightarrow> access_type \<Rightarrow> 'd mmio \<Rightarrow> (u32 \<times> 'd mmio) option" where
  "handle_register env rd wr addr val ty m =
     (if addr mod 4 \<noteq> 0 then Some (val, m)
      else do {
        let index = addr div 4;
        reg \<leftarrow> array_get (clk_registers env) (unat index);
        let regtype = reg_type reg;
        if NUM_REGISTER_TYPES env \<le> regtype \<or> regtype \<le> CLK_RESERVED env then Some (val, m)
        else do {
          handler \<leftarrow> access_handlers env regtype;
          let ar = \<lparr>ar_addr = addr, ar_type = ty, ar_value = val\<rparr>;
          if handler ar reg then
            (case ty of
               READ_ACCESS \<Rightarrow> reg_read rd (unat addr) m
             | WRITE_ACCESS \<Rightarrow> do { m \<leftarrow> reg_write wr (unat addr) val m; Some (val, m) })
          else Some (val, m)
        }
      })"

definition clk_fwd_read ::
  "clk_platform \<Rightarrow> (nat \<Rightarrow> 'd \<Rightarrow> u32 \<times> 'd) \<Rightarrow> (nat \<Rightarrow> u32 \<Rightarrow> 'd \<Rightarrow> 'd) \<Rightarrow>
   u32 \<Rightarrow> 'd mmio \<Rightarrow> (u32 \<times> 'd mmio) option" where
  "clk_fwd_read env rd wr addr m =
     (if page_size env \<le> addr then Some (0, m)
      else handle_register env rd wr addr 0 READ_ACCESS m)"

definition clk_fwd_write ::
  "clk_platform \<Rightarrow> (nat \<Rightarrow> 'd \<Rightarrow> u32 \<times> 'd) \<Rightarrow> (nat \<Rightarrow> u32 \<Rightarrow> 'd \<Rightarrow> 'd) \<Rightarrow>
   u32 \<Rightarrow> u32 \<Rightarrow> 'd mmio \<Rightarrow> 'd mmio option" where
  "clk_fwd_write env rd wr addr v m =
     (if page_size env \<le> addr then Some m
      else do {
        (v, m) \<leftarrow> handle_register env rd wr addr v WRITE_ACCESS m;
        Some m
      })"

section \<open>The bit loop\<close>

lemma ctz_lowest:
  assumes "w \<noteq> 0"
  shows "ctz w < 32 \<and> bit w (ctz w)"
proof -
  obtain i where "i < 32" "bit w i"
    using assms bit_word_eqI [of w 0] by auto
  then have "find (bit w) [0..<32] \<noteq> None"
    by (auto simp: find_None_iff)
  then obtain k where k: "find (bit w) [0..<32] = Some k" by auto
  then have "k < 32 \<and> bit w k"
    by (auto simp: find_Some_iff simp del: upt.simps upt_rec_numeral)
  with k show ?thesis by (simp add: ctz_def)
qed

definition bits_of :: "u32 \<Rightarrow> nat set" where
  "bits_of w = {i. i < 32 \<and> bit w i}"

lemma finite_bits_of [simp]: "finite (bits_of w)"
  by (simp add: bits_of_def)

lemma bits_of_clear: "bits_of (w AND NOT (BIT k)) = bits_of w - {k}"
  by (auto simp: bits_of_def bit_and_iff bit_not_iff bit_BIT)

lemma bits_of_empty: "bits_of w = {} \<longleftrightarrow> w = 0"
  using bit_word_eqI [of w 0] by (auto simp: bits_of_def)

lemma enbrst_loop_bits:
  "card (bits_of w) \<le> n \<Longrightarrow>
   enbrst_loop n env base w \<longleftrightarrow> (\<forall>i \<in> bits_of w. enb_allowed env (base + of_nat i))"
proof (induction n env base w rule: enbrst_loop.induct)
  case (1 env base w)
  then show ?case by simp
next
  case (2 n env base w)
  show ?case
  proof (cases "w = 0")
    case True
    then have "bits_of w = {}" using bits_of_empty by blast
    with True show ?thesis by simp
  next
    case False
    then have pos: "ctz w \<in> bits_of w" using ctz_lowest by (simp add: bits_of_def)
    have "card (bits_of w - {ctz w}) \<le> n"
      using 2(2) pos by (simp add: card_Diff_singleton)
    with 2(1) [OF False refl refl] have "enb_allowed env (base + of_nat (ctz w)) \<Longrightarrow>
        enbrst_loop n env base (w AND NOT (BIT (ctz w))) \<longleftrightarrow>
        (\<forall>i \<in> bits_of w - {ctz w}. enb_allowed env (base + of_nat i))"
      by (simp add: bits_of_clear)
    with False pos show ?thesis by (auto simp: Let_def)
  qed
qed

lemma card_bits_of: "card (bits_of w) \<le> 32"
  using card_mono [of "{..<32}" "bits_of w"] by (auto simp: bits_of_def)

text \<open>
  C26: The loop of \<^verbatim>\<open>allow_enbrst\<close>, which takes the lowest set bit off the value until none is left,
  decides exactly whether every set bit of the value stands for one of the four devices the guest
  owns; in particular it always gets through the value within its 32 turns.
\<close>

theorem enbrst_whitelist_exact:
  "allow_enbrst env \<lparr>ar_addr = a, ar_type = WRITE_ACCESS, ar_value = v\<rparr> reg \<longleftrightarrow>
     {i. i < 32 \<and> bit v i} \<subseteq> {i. enb_allowed env (eb_rb reg * 32 + of_nat i)}"
proof -
  have "allow_enbrst env \<lparr>ar_addr = a, ar_type = WRITE_ACCESS, ar_value = v\<rparr> reg \<longleftrightarrow>
      (\<forall>i \<in> bits_of v. enb_allowed env (eb_rb reg * 32 + of_nat i))"
    unfolding allow_enbrst_def by (simp only: access_request.select_convs if_True simp_thms
      enbrst_loop_bits [OF card_bits_of])
  then show ?thesis unfolding bits_of_def by blast
qed

section \<open>What the guest can reach\<close>

text \<open>
  What the filter relies on in libplatsupport: the five register kinds are 0 to 4, the table covers
  the page, and the two protected PLLP registers lie in the range of PLLP and not before it.
\<close>

definition clk_platform_ok :: "clk_platform \<Rightarrow> bool" where
  "clk_platform_ok env \<longleftrightarrow>
     CLK_RESERVED env = 0 \<and> NUM_REGISTER_TYPES env = 5 \<and>
     {CLK_PLL env, CLK_ENBRST_DEVICES env, CLK_SOURCE env, CLK_MISC env} = {1, 2, 3, 4} \<and>
     unat (page_size env) \<le> 4 * length (clk_registers env) \<and>
     list_all (\<lambda>a. PLLCON a (PLLP env) \<and> \<not> PLLCON a (PLLC env) \<and> \<not> PLLCON a (PLLM env))
       [PLLP_BASE_0, PLLP_MISC_0]"

definition clk_reg_at :: "clk_platform \<Rightarrow> nat \<Rightarrow> clk_register" where
  "clk_reg_at env a = clk_registers env ! (a div 4)"

text \<open>
  The writes that pass are characterised by the bits set in the value, as in the code. For an enable or
  reset register that is not a protection of the other devices: the value is written to the whole
  register, so that a zero, or any value without the bit of a device, passes and clears that device's
  bit, SPI1's and UART-B's included, against the comment above the handler.
\<close>

definition guest_may_write :: "clk_platform \<Rightarrow> nat \<Rightarrow> u32 \<Rightarrow> bool" where
  "guest_may_write env a v \<longleftrightarrow>
     reg_type (clk_reg_at env a) = CLK_PLL env \<and> a \<noteq> 0xa0 \<and> a \<noteq> 0xac \<or>
     reg_type (clk_reg_at env a) = CLK_ENBRST_DEVICES env \<and>
       bits_of v \<subseteq> {i. enb_allowed env (eb_rb (clk_reg_at env a) * 32 + of_nat i)} \<or>
     reg_type (clk_reg_at env a) = CLK_SOURCE env \<and>
       st_clks (clk_reg_at env a) \<in> {uartd_r_clk env, sdmmc4_r_clk_t env}"

definition guest_may :: "clk_platform \<Rightarrow> access \<Rightarrow> bool" where
  "guest_may env acc = (case acc of
      Rd a \<Rightarrow> a < unat (page_size env) \<and> reg_type (clk_reg_at env a) \<noteq> CLK_RESERVED env
    | Wr a v \<Rightarrow> a < unat (page_size env) \<and> guest_may_write env a v)"

lemma clk_types:
  assumes "clk_platform_ok env" "CLK_RESERVED env < t" "t < NUM_REGISTER_TYPES env"
  shows "t = CLK_PLL env \<or> t = CLK_ENBRST_DEVICES env \<or> t = CLK_SOURCE env \<or> t = CLK_MISC env"
proof -
  have kinds: "{CLK_PLL env, CLK_ENBRST_DEVICES env, CLK_SOURCE env, CLK_MISC env} = {1, 2, 3, 4}"
    using assms(1) unfolding clk_platform_ok_def by blast
  have "CLK_RESERVED env = 0" "NUM_REGISTER_TYPES env = 5"
    using assms(1) unfolding clk_platform_ok_def by blast+
  with assms(2,3) have "t \<in> {1, 2, 3, 4}" by auto
  then have "t \<in> {CLK_PLL env, CLK_ENBRST_DEVICES env, CLK_SOURCE env, CLK_MISC env}"
    by (simp only: kinds)
  then show ?thesis by simp
qed

lemma handler_exists:
  assumes "clk_platform_ok env" "\<not> (NUM_REGISTER_TYPES env \<le> t \<or> t \<le> CLK_RESERVED env)"
  shows "\<exists>handler. access_handlers env t = Some handler"
proof -
  have "t = CLK_PLL env \<or> t = CLK_ENBRST_DEVICES env \<or> t = CLK_SOURCE env \<or> t = CLK_MISC env"
    using clk_types [OF assms(1), of t] assms(2) by simp
  then show ?thesis by (auto simp: access_handlers_def)
qed

lemma handler_sound:
  assumes "clk_platform_ok env" "access_handlers env t = Some handler"
    "CLK_RESERVED env < t" "t = reg_type reg"
    "handler \<lparr>ar_addr = addr, ar_type = WRITE_ACCESS, ar_value = v\<rparr> reg"
    "reg = clk_reg_at env (unat addr)"
  shows "guest_may_write env (unat addr) v"
proof -
  have pll: "unat addr \<noteq> 0xa0 \<and> unat addr \<noteq> 0xac"
    if "allow_pll env \<lparr>ar_addr = addr, ar_type = WRITE_ACCESS, ar_value = v\<rparr> reg"
  proof -
    have "addr \<noteq> PLLP_BASE_0 \<and> addr \<noteq> PLLP_MISC_0"
      using that assms(1) by (auto simp: allow_pll_def clk_platform_ok_def)
    then show ?thesis by (auto simp: word_unat_eq_iff)
  qed
  have enb: "bits_of v \<subseteq> {i. enb_allowed env (eb_rb reg * 32 + of_nat i)}"
    if "allow_enbrst env \<lparr>ar_addr = addr, ar_type = WRITE_ACCESS, ar_value = v\<rparr> reg"
    using that enbrst_whitelist_exact [of env addr v reg] unfolding bits_of_def by blast
  have src: "st_clks reg \<in> {uartd_r_clk env, sdmmc4_r_clk_t env}"
    if "allow_source env \<lparr>ar_addr = addr, ar_type = WRITE_ACCESS, ar_value = v\<rparr> reg"
    using that by (auto simp: allow_source_def split: if_splits)
  consider "t = CLK_MISC env" "handler = allow_misc env" | "t = CLK_SOURCE env" "handler = allow_source env"
    | "t = CLK_ENBRST_DEVICES env" "handler = allow_enbrst env" | "t = CLK_PLL env" "handler = allow_pll env"
    using assms(2,3) by (auto simp: access_handlers_def split: if_splits)
  then show ?thesis
  proof cases
    case 1
    with assms(5) show ?thesis by (simp add: allow_misc_def)
  next
    case 2
    with assms(4-6) src show ?thesis by (simp add: guest_may_write_def)
  next
    case 3
    with assms(4-6) enb show ?thesis by (simp add: guest_may_write_def)
  next
    case 4
    with assms(4-6) pll show ?thesis by (simp add: guest_may_write_def)
  qed
qed

lemma handle_register_permitted:
  assumes "clk_platform_ok env" "\<not> page_size env \<le> addr"
  shows "ok (handle_register env rd wr addr val ty m)
    (\<lambda>(v, m'). \<exists>accs. touched m m' accs \<and> list_all (guest_may env) accs)"
proof -
  have lt: "unat addr < unat (page_size env)" using assms(2) by (simp add: word_le_nat_alt)
  have quiet: "\<exists>accs. touched m m accs \<and> list_all (guest_may env) accs"
    by (intro exI [of _ "[]"]) (simp add: touched_def)
  show ?thesis
  proof (cases "addr mod 4 = 0")
    case False
    with quiet show ?thesis by (simp add: handle_register_def)
  next
    case True
    then have al: "unat addr mod 4 = 0"
      using unat_mod [of addr 4] by simp
    have ix: "unat (addr div 4) = unat addr div 4" by (simp add: unat_div)
    have "unat addr div 4 < length (clk_registers env)"
      using lt assms(1) by (simp add: clk_platform_ok_def div_less_iff_less_mult)
    then have reg: "array_get (clk_registers env) (unat (addr div 4)) = Some (clk_reg_at env (unat addr))"
      by (simp add: ix clk_reg_at_def)
    let ?reg = "clk_reg_at env (unat addr)"
    show ?thesis
    proof (cases "NUM_REGISTER_TYPES env \<le> reg_type ?reg \<or> reg_type ?reg \<le> CLK_RESERVED env")
      case True
      with quiet reg \<open>addr mod 4 = 0\<close> show ?thesis by (simp add: handle_register_def)
    next
      case False
      from handler_exists [OF assms(1) this]
      obtain handler where h: "access_handlers env (reg_type ?reg) = Some handler" ..
      let ?ar = "\<lparr>ar_addr = addr, ar_type = ty, ar_value = val\<rparr>"
      show ?thesis
      proof (cases "handler ?ar ?reg")
        case False
        with quiet reg h \<open>addr mod 4 = 0\<close> show ?thesis by (simp add: handle_register_def)
      next
        case allowed: True
        show ?thesis
        proof (cases ty)
          case READ_ACCESS
          have "guest_may env (Rd (unat addr))" using False lt by (simp add: guest_may_def)
          with READ_ACCESS allowed False reg h al \<open>addr mod 4 = 0\<close> show ?thesis
            by (auto simp: handle_register_def touched_def)
        next
          case WRITE_ACCESS
          have "guest_may_write env (unat addr) val"
            by (rule handler_sound [OF assms(1) h _ refl _ refl])
              (use False allowed WRITE_ACCESS in simp_all)
          then have "guest_may env (Wr (unat addr) val)" using lt by (simp add: guest_may_def)
          with WRITE_ACCESS allowed False reg h al \<open>addr mod 4 = 0\<close> show ?thesis
            by (auto simp: handle_register_def touched_def)
        qed
      qed
    qed
  qed
qed

interpretation car: forwarder "clk_fwd_read env rd wr" "clk_fwd_write env rd wr"
    "\<lambda>a. clk_platform_ok env" "guest_may env"
  for env and rd :: "nat \<Rightarrow> 'd \<Rightarrow> u32 \<times> 'd" and wr
proof unfold_locales
  fix a v :: u32 and m :: "'d mmio"
  assume env: "clk_platform_ok env"
  show "ok (clk_fwd_read env rd wr a m)
      (\<lambda>(v, m'). \<exists>accs. touched m m' accs \<and> list_all (guest_may env) accs)"
    using handle_register_permitted [OF env, of a rd wr 0 READ_ACCESS m]
    by (cases "page_size env \<le> a")
      (auto simp: clk_fwd_read_def touched_def intro: exI [of _ "[]"])
  show "ok (clk_fwd_write env rd wr a v m)
      (\<lambda>m'. \<exists>accs. touched m m' accs \<and> list_all (guest_may env) accs)"
    using handle_register_permitted [OF env, of a rd wr v WRITE_ACCESS m]
    by (cases "page_size env \<le> a")
      (auto simp: clk_fwd_write_def touched_def split_beta elim!: ok_mono intro: exI [of _ "[]"])
qed


definition sample_platform :: clk_platform where
  "sample_platform = \<lparr>page_size = 16,
     clk_registers = [\<lparr>reg_type = 0, eb_rb = 0, st_clks = 0\<rparr>, \<lparr>reg_type = 2, eb_rb = 2, st_clks = 0\<rparr>,
       \<lparr>reg_type = 3, eb_rb = 0, st_clks = 7\<rparr>, \<lparr>reg_type = 4, eb_rb = 0, st_clks = 0\<rparr>],
     CLK_RESERVED = 0, CLK_PLL = 1, CLK_ENBRST_DEVICES = 2, CLK_SOURCE = 3, CLK_MISC = 4,
     NUM_REGISTER_TYPES = 5, PLLC = (0x80, 0x90), PLLM = (0x90, 0xa0), PLLP = (0xa0, 0xb0),
     PLLP_1 = (0xb0, 0xb0), PLLP_RESHIFT_0 = 0xc0, CLK_ENB_UARTD = 65, CLK_ENB_SDMMC4 = 15,
     CLK_ENB_USB2 = 58, CLK_ENB_USB3 = 59, uartd_r_clk = 7, sdmmc4_r_clk_t = 8\<rparr>"

lemma sample_platform_ok: "clk_platform_ok sample_platform"
  by (simp add: clk_platform_ok_def sample_platform_def PLLCON_def)


text \<open>
  C34: The filter judges only the bits that are set: writing zero to an enable or reset register is
  always let through, whatever devices the register controls. As a write replaces the register, a
  guest can so turn off the clocks of a whole bank, SPI1 and UART-B included, which the comment of
  \<^verbatim>\<open>allow_enbrst\<close> says are protected.
\<close>

theorem zero_write_clears_bank:
  assumes "clk_platform_ok env" "addr < page_size env" "unat addr mod 4 = 0"
    "reg_type (clk_reg_at env (unat addr)) = CLK_ENBRST_DEVICES env"
  shows "clk_fwd_write env ram_rd ram_wr addr 0 m =
    Some (m\<lparr>device := (device m)(unat addr := 0), accesses := accesses m @ [Wr (unat addr) 0]\<rparr>)"
proof -
  let ?reg = "clk_reg_at env (unat addr)"
  have kinds: "{CLK_PLL env, CLK_ENBRST_DEVICES env, CLK_SOURCE env, CLK_MISC env} = {1, 2, 3, 4}"
    using assms(1) unfolding clk_platform_ok_def by blast
  then have "card {CLK_PLL env, CLK_ENBRST_DEVICES env, CLK_SOURCE env, CLK_MISC env} = 4" by simp
  then have differ: "CLK_ENBRST_DEVICES env \<noteq> CLK_MISC env" "CLK_ENBRST_DEVICES env \<noteq> CLK_SOURCE env"
    by (auto simp: card_insert_if split: if_splits)
  have "CLK_ENBRST_DEVICES env \<in> {1, 2, 3, 4}" using kinds by blast
  moreover have codes: "CLK_RESERVED env = 0" "NUM_REGISTER_TYPES env = 5"
    and len: "unat (page_size env) \<le> 4 * length (clk_registers env)"
    using assms(1) unfolding clk_platform_ok_def by blast+
  ultimately have kind: "\<not> (NUM_REGISTER_TYPES env \<le> reg_type ?reg \<or> reg_type ?reg \<le> CLK_RESERVED env)"
    using assms(4) by auto
  have lt: "unat addr < unat (page_size env)" using assms(2) by (simp add: word_less_nat_alt)
  then have "unat addr div 4 < length (clk_registers env)" using len by (simp add: div_less_iff_less_mult)
  then have reg: "array_get (clk_registers env) (unat (addr div 4)) = Some ?reg"
    by (simp add: unat_div clk_reg_at_def)
  have "unat (addr mod 4) = 0" using assms(3) by (simp add: unat_mod)
  then have al: "addr mod 4 = 0" by (simp add: unat_eq_0)
  have "access_handlers env (reg_type ?reg) = Some (allow_enbrst env)"
    using differ assms(4) by (simp add: access_handlers_def)
  moreover have "enbrst_loop 32 env base 0" for base
    using enbrst_loop_bits [of 0 32 env base] by (simp add: bits_of_def)
  ultimately have "handle_register env ram_rd ram_wr addr 0 WRITE_ACCESS m =
      Some (0, m\<lparr>device := (device m)(unat addr := 0), accesses := accesses m @ [Wr (unat addr) 0]\<rparr>)"
    using kind reg al assms(3) by (simp add: handle_register_def allow_enbrst_def ram_wr_def)
  with assms(2) show ?thesis by (simp add: clk_fwd_write_def not_le)
qed

theorem zero_write_clears_bank_witness:
  "clk_fwd_write sample_platform ram_rd ram_wr 4 0 \<lparr>device = (\<lambda>_. 0x8000C2), accesses = []\<rparr> =
     Some \<lparr>device = (\<lambda>_. 0x8000C2)(4 := 0), accesses = [Wr 4 0]\<rparr>"
proof -
  have "(4::u32) < page_size sample_platform" "unat (4::u32) mod 4 = 0"
    "reg_type (clk_reg_at sample_platform (unat (4::u32))) = CLK_ENBRST_DEVICES sample_platform"
    by (simp_all add: sample_platform_def clk_reg_at_def)
  from zero_write_clears_bank [OF sample_platform_ok this] show ?thesis by simp
qed

end
