(* ===== verification/Uart_Fwd.thy ===== *)
theory Uart_Fwd
  imports Mmio
begin

text \<open>
  The UART forwarder, \<^verbatim>\<open>components/tk1_uart/src/fwd_driver.c\<close>: it gives a virtual machine the
  registers of UART-D, which share a page with those of UART-A to UART-C. \<^verbatim>\<open>PAGE_SIZE\<close> and the
  device are parameters.
\<close>

abbreviation (input) ALL_ZERO :: u32 where "ALL_ZERO \<equiv> 0x0"
abbreviation (input) ALL_ONE :: u32 where "ALL_ONE \<equiv> 0xFFFFFFFF"

definition uart_mask_registers :: "u32 list" where
  "uart_mask_registers = [
     ALL_ONE, ALL_ONE, ALL_ONE, ALL_ONE,
     ALL_ONE, ALL_ONE, ALL_ONE, ALL_ONE,
     ALL_ONE, ALL_ONE, ALL_ONE, ALL_ONE,
     ALL_ONE, ALL_ONE, ALL_ONE, ALL_ONE]"

record access_mask =
  am_start :: u32
  am_size :: u32
  am_mask :: "u32 list"

definition uart_mask :: access_mask where
  "uart_mask = \<lparr>am_start = 0x300, am_size = 0x40, am_mask = uart_mask_registers\<rparr>"

definition in_mask :: "access_mask \<Rightarrow> u32 \<Rightarrow> bool" where
  "in_mask am addr \<longleftrightarrow> am_start am \<le> addr \<and> addr < am_start am + am_size am"

definition uart_fwd_read ::
  "u32 \<Rightarrow> (nat \<Rightarrow> 'd \<Rightarrow> u32 \<times> 'd) \<Rightarrow> u32 \<Rightarrow> 'd mmio \<Rightarrow> (u32 \<times> 'd mmio) option" where
  "uart_fwd_read page_size rd addr m =
     (if page_size \<le> addr then Some (0, m)
      else if in_mask uart_mask addr then do {
        let index = (addr - am_start uart_mask) div 4;
        mask \<leftarrow> array_get (am_mask uart_mask) (unat index);
        (v, m) \<leftarrow> reg_read rd (unat addr) m;
        Some (v AND mask, m)
      }
      else Some (0, m))"

definition uart_fwd_write ::
  "u32 \<Rightarrow> (nat \<Rightarrow> 'd \<Rightarrow> u32 \<times> 'd) \<Rightarrow> (nat \<Rightarrow> u32 \<Rightarrow> 'd \<Rightarrow> 'd) \<Rightarrow> u32 \<Rightarrow> u32 \<Rightarrow> 'd mmio \<Rightarrow> 'd mmio option"
where
  "uart_fwd_write page_size rd wr addr v m =
     (if page_size \<le> addr then Some m
      else if in_mask uart_mask addr then do {
        let index = (addr - am_start uart_mask) div 4;
        mask \<leftarrow> array_get (am_mask uart_mask) (unat index);
        (old, m) \<leftarrow> reg_read rd (unat addr) m;
        reg_write wr (unat addr) ((old AND NOT mask) OR (v AND mask)) m
      }
      else Some m)"

section \<open>What the guest can reach\<close>

lemma in_uart_mask: "in_mask uart_mask addr \<longleftrightarrow> 0x300 \<le> unat addr \<and> unat addr < 0x340"
  by (simp add: in_mask_def uart_mask_def word_le_nat_alt word_less_nat_alt)

lemma uart_mask_registers_get: "i < 16 \<Longrightarrow> array_get uart_mask_registers i = Some ALL_ONE"
proof -
  have eq: "uart_mask_registers = replicate 16 ALL_ONE"
    by (simp add: uart_mask_registers_def numeral_eq_Suc)
  show "i < 16 \<Longrightarrow> ?thesis"
    unfolding eq array_get_def by simp
qed

lemma uart_mask_entry:
  assumes "in_mask uart_mask addr"
  shows "array_get (am_mask uart_mask) (unat ((addr - am_start uart_mask) div 4)) = Some ALL_ONE"
proof -
  have "0x300 \<le> addr" using assms by (simp add: in_mask_def uart_mask_def)
  then have "unat ((addr - am_start uart_mask) div 4) = (unat addr - 0x300) div 4"
    by (simp add: uart_mask_def unat_div unat_sub)
  moreover have "(unat addr - 0x300) div 4 < 16"
    using assms unfolding in_uart_mask by presburger
  ultimately show ?thesis by (simp add: uart_mask_def uart_mask_registers_get)
qed

definition uart_reg :: "u32 \<Rightarrow> access \<Rightarrow> bool" where
  "uart_reg page_size acc = (case acc of
      Rd a \<Rightarrow> a mod 4 = 0 \<and> 0x300 \<le> a \<and> a < 0x340 \<and> a < unat page_size
    | Wr a v \<Rightarrow> a mod 4 = 0 \<and> 0x300 \<le> a \<and> a < 0x340 \<and> a < unat page_size)"

definition aligned :: "u32 \<Rightarrow> bool" where
  "aligned a \<longleftrightarrow> unat a mod 4 = 0"

lemma all_one_mask: "(x AND NOT ALL_ONE) OR (v AND ALL_ONE) = v"
proof -
  have "ALL_ONE = - 1" by simp
  then show ?thesis by (simp only:) simp
qed

lemma uart_fwd_read_eq:
  assumes "aligned a"
  shows "uart_fwd_read page_size rd a m =
    (if in_mask uart_mask a \<and> \<not> page_size \<le> a
     then Some (fst (rd (unat a) (device m)),
       m\<lparr>device := snd (rd (unat a) (device m)), accesses := accesses m @ [Rd (unat a)]\<rparr>)
     else Some (0, m))"
proof -
  have "x AND ALL_ONE = x" for x :: u32
    using all_one_mask [of 0 x] by simp
  then show ?thesis
    using assms by (simp add: uart_fwd_read_def uart_mask_entry aligned_def)
qed

lemma uart_fwd_write_eq:
  assumes "aligned a"
  shows "uart_fwd_write page_size rd wr a v m =
    (if in_mask uart_mask a \<and> \<not> page_size \<le> a
     then Some (m\<lparr>device := wr (unat a) v (snd (rd (unat a) (device m))),
       accesses := accesses m @ [Rd (unat a), Wr (unat a) v]\<rparr>)
     else Some m)"
  using assms
  by (simp add: uart_fwd_write_def uart_mask_entry aligned_def all_one_mask [simplified])

interpretation uartd: forwarder "uart_fwd_read page_size rd" "uart_fwd_write page_size rd wr"
    aligned "uart_reg page_size"
  for page_size and rd :: "nat \<Rightarrow> 'd \<Rightarrow> u32 \<times> 'd" and wr
proof unfold_locales
  fix a v :: u32 and m :: "'d mmio"
  assume a: "aligned a"
  have "\<not> page_size \<le> a \<Longrightarrow> unat a < unat page_size" by (simp add: word_le_nat_alt)
  with a show "ok (uart_fwd_read page_size rd a m)
      (\<lambda>(v, m'). \<exists>accs. touched m m' accs \<and> list_all (uart_reg page_size) accs)"
    and "ok (uart_fwd_write page_size rd wr a v m)
      (\<lambda>m'. \<exists>accs. touched m m' accs \<and> list_all (uart_reg page_size) accs)"
    by (auto simp: uart_fwd_read_eq uart_fwd_write_eq touched_def uart_reg_def aligned_def
         in_uart_mask)
qed

text \<open>
  C29: Whatever sequence of aligned reads and writes a guest sends, the forwarder answers each, and
  the device sees no access outside the sixteen registers of UART-D at offsets 0x300 to 0x33c.
\<close>

theorem uart_forward_confined:
  assumes "list_all (\<lambda>q. aligned (fwd_addr q)) qs"
  shows "\<exists>rs m'. run_ops (fwd_step (uart_fwd_read page_size rd) (uart_fwd_write page_size rd wr)) qs m
      = Some (rs, m') \<and>
    (\<exists>accs. accesses m' = accesses m @ accs \<and> list_all (uart_reg page_size) accs)"
  using uartd.session_permitted [OF assms, of page_size rd wr m] by (simp add: touched_def)

theorem uart_forward_confined_witness:
  "\<exists>rs m'. run_ops (fwd_step (uart_fwd_read 4096 ram_rd) (uart_fwd_write 4096 ram_rd ram_wr))
      [Fwd_write 0x300 7, Fwd_write 0x200 9, Fwd_read 0x33c] \<lparr>device = (\<lambda>_. 0), accesses = []\<rparr>
      = Some (rs, m') \<and>
    (\<exists>accs. accesses m' = accs \<and> list_all (uart_reg 4096) accs)"
  using uart_forward_confined [of "[Fwd_write 0x300 7, Fwd_write 0x200 9, Fwd_read 0x33c]" 4096 ram_rd ram_wr
      "\<lparr>device = (\<lambda>_. 0), accesses = []\<rparr>"]
  by (simp add: aligned_def del: run_ops.simps fwd_step.simps)

text \<open>
  Although the mask of every register is all ones, a forwarded write first reads the register.
  The value written is the guest's, but a register whose read has an effect is disturbed: writing a
  byte to send at 0x300 takes a byte out of the receive FIFO, which nobody gets.
\<close>

theorem uart_write_reads_first:
  assumes "aligned a" "0x300 \<le> unat a" "unat a < 0x340" "a < page_size"
  shows "uart_fwd_write page_size rd wr a v m =
    Some (m\<lparr>device := wr (unat a) v (snd (rd (unat a) (device m))),
      accesses := accesses m @ [Rd (unat a), Wr (unat a) v]\<rparr>)"
  using assms by (simp add: uart_fwd_write_eq in_uart_mask)

text \<open>A device with a receive FIFO behind offset 0x300 and a record of what was sent.\<close>

definition fifo_rd :: "nat \<Rightarrow> u32 list \<times> u32 list \<Rightarrow> u32 \<times> (u32 list \<times> u32 list)" where
  "fifo_rd a d = (case d of (x # rx, tx) \<Rightarrow> if a = 0x300 then (x, (rx, tx)) else (0, d) | ([], tx) \<Rightarrow> (0, d))"

definition fifo_wr :: "nat \<Rightarrow> u32 \<Rightarrow> u32 list \<times> u32 list \<Rightarrow> u32 list \<times> u32 list" where
  "fifo_wr a v d = (if a = 0x300 then (fst d, snd d @ [v]) else d)"

theorem uart_write_reads_first_witness:
  "uart_fwd_write 4096 fifo_rd fifo_wr 0x300 0x41 \<lparr>device = ([0x62, 0x63], []), accesses = []\<rparr> =
     Some \<lparr>device = ([0x63], [0x41]), accesses = [Rd 0x300, Wr 0x300 0x41]\<rparr>"
  by (subst uart_write_reads_first) (simp_all add: aligned_def fifo_rd_def fifo_wr_def)

end
