(* ===== verification/Tk1_Uart.thy ===== *)
theory Tk1_Uart
  imports Clkcar
begin

text \<open>
  The UART server, \<^verbatim>\<open>components/tk1_uart/src/tk1_uart.c\<close>: blocking reads and writes on UART-A to
  UART-C over the asynchronous serial driver of libplatsupport. A call starts the transfer under the
  mutex of the UART and then waits on a second mutex, used as a semaphore, that the interrupt
  handler releases when the driver's callback has reported completion.

  The serial driver is the parameter \<open>cdriver\<close>: what its entry points return, and whether they run
  the callback, as functions of the driver's state. The clock component is the model of
  \<^verbatim>\<open>clkcar.c\<close>, with the device behind it as a parameter.
\<close>

section \<open>Data\<close>

record ('d, 'c) cdriver =
  ps_cdev_init :: "int \<Rightarrow> 'd \<Rightarrow> bool \<times> 'd"
  ps_cdev_write :: "int \<Rightarrow> int \<Rightarrow> 'd \<Rightarrow> int \<times> bool \<times> 'd"
  ps_cdev_read :: "int \<Rightarrow> int \<Rightarrow> 'd \<Rightarrow> int \<times> bool \<times> 'd"
  ps_cdev_handle_irq :: "int \<Rightarrow> 'd \<Rightarrow> bool \<times> bool \<times> 'd"
  cdev_id :: "int \<Rightarrow> 'd \<Rightarrow> int"
  write_requested :: "int \<Rightarrow> 'd \<Rightarrow> int"
  write_transfered :: "int \<Rightarrow> 'd \<Rightarrow> int"
  read_requested :: "int \<Rightarrow> 'd \<Rightarrow> int"
  read_transfered :: "int \<Rightarrow> 'd \<Rightarrow> int"
  car_rd :: "nat \<Rightarrow> 'c \<Rightarrow> u32 \<times> 'c"
  car_wr :: "nat \<Rightarrow> u32 \<Rightarrow> 'c \<Rightarrow> 'c"
  clkcar_reg :: nat

text \<open>
  The descriptor of a UART: whether \<^verbatim>\<open>pinst\<close> and the two buffers are not null, its mutexes (held or
  not), and the two flags that the callbacks set.
\<close>

record cdev_desc =
  pinst :: bool
  tx_shmem_buff :: bool
  rx_shmem_buff :: bool
  state_mtx :: bool
  write_sync_mtx :: bool
  read_sync_mtx :: bool
  do_release_write_sync_mutex :: bool
  do_release_read_sync_mutex :: bool

record ('d, 'c) uart_server =
  cdevs :: "cdev_desc list"
  serial :: 'd
  car :: "'c mmio"
  irq_acks :: "int list"

text \<open>An update of the descriptor of one UART.\<close>

definition cdev_upd ::
  "nat \<Rightarrow> (cdev_desc \<Rightarrow> cdev_desc option) \<Rightarrow> ('d, 'c) uart_server \<Rightarrow> ('d, 'c) uart_server option" where
  "cdev_upd i f s = do {
     cd \<leftarrow> array_get (cdevs s) i;
     cd \<leftarrow> f cd;
     cds \<leftarrow> array_set (cdevs s) i cd;
     Some (s\<lparr>cdevs := cds\<rparr>)
   }"

definition state_mtx_lock :: "cdev_desc \<Rightarrow> cdev_desc option" where
  "state_mtx_lock cd = do { l \<leftarrow> lock_take (state_mtx cd); Some (cd\<lparr>state_mtx := l\<rparr>) }"

definition state_mtx_unlock :: "cdev_desc \<Rightarrow> cdev_desc option" where
  "state_mtx_unlock cd = Some (cd\<lparr>state_mtx := lock_release (state_mtx cd)\<rparr>)"

definition write_sync_mtx_lock :: "cdev_desc \<Rightarrow> cdev_desc option" where
  "write_sync_mtx_lock cd = do { l \<leftarrow> lock_take (write_sync_mtx cd); Some (cd\<lparr>write_sync_mtx := l\<rparr>) }"

definition write_sync_mtx_unlock :: "cdev_desc \<Rightarrow> cdev_desc option" where
  "write_sync_mtx_unlock cd = Some (cd\<lparr>write_sync_mtx := lock_release (write_sync_mtx cd)\<rparr>)"

definition read_sync_mtx_lock :: "cdev_desc \<Rightarrow> cdev_desc option" where
  "read_sync_mtx_lock cd = do { l \<leftarrow> lock_take (read_sync_mtx cd); Some (cd\<lparr>read_sync_mtx := l\<rparr>) }"

definition read_sync_mtx_unlock :: "cdev_desc \<Rightarrow> cdev_desc option" where
  "read_sync_mtx_unlock cd = Some (cd\<lparr>read_sync_mtx := lock_release (read_sync_mtx cd)\<rparr>)"

section \<open>Initialisation\<close>

text \<open>\<open>tx\<close> and \<open>rx\<close>: which of the three pairs of dataports are connected.\<close>

definition empty_cdev :: "bool \<Rightarrow> bool \<Rightarrow> cdev_desc" where
  "empty_cdev tx rx = \<lparr>pinst = False, tx_shmem_buff = tx, rx_shmem_buff = rx, state_mtx = False,
     write_sync_mtx = False, read_sync_mtx = False, do_release_write_sync_mutex = False,
     do_release_read_sync_mutex = False\<rparr>"

definition tk1_uart_init ::
  "(nat \<Rightarrow> bool) \<Rightarrow> (nat \<Rightarrow> bool) \<Rightarrow> ('d, 'c) uart_server \<Rightarrow> ('d, 'c) uart_server option" where
  "tk1_uart_init tx rx s = do {
     let s = s\<lparr>cdevs := map (\<lambda>i. empty_cdev (tx i) (rx i)) [0..<3]\<rparr>;
     s \<leftarrow> cdev_upd 0 write_sync_mtx_lock s;
     s \<leftarrow> cdev_upd 1 write_sync_mtx_lock s;
     s \<leftarrow> cdev_upd 2 write_sync_mtx_lock s;
     s \<leftarrow> cdev_upd 0 read_sync_mtx_lock s;
     s \<leftarrow> cdev_upd 1 read_sync_mtx_lock s;
     cdev_upd 2 read_sync_mtx_lock s
   }"

section \<open>Callbacks and interrupts\<close>

definition tk1_uart_write_cb ::
  "uart_ids \<Rightarrow> ('d, 'c) cdriver \<Rightarrow> int \<Rightarrow> ('d, 'c) uart_server \<Rightarrow> ('d, 'c) uart_server option" where
  "tk1_uart_write_cb ids drv d s = do {
     let uart_id = cdev_id drv d (serial s);
     c_assert (NV_UARTA_ASYNC ids \<le> uart_id \<and> uart_id < NV_UARTD_ASYNC ids);
     let uart_id = uart_id - NV_UARTA_ASYNC ids;
     if write_requested drv d (serial s) > 0 then
       cdev_upd (nat uart_id) (\<lambda>cd. Some (cd\<lparr>do_release_write_sync_mutex := True\<rparr>)) s
     else Some s
   }"

definition tk1_uart_read_cb ::
  "uart_ids \<Rightarrow> ('d, 'c) cdriver \<Rightarrow> int \<Rightarrow> ('d, 'c) uart_server \<Rightarrow> ('d, 'c) uart_server option" where
  "tk1_uart_read_cb ids drv d s = do {
     let uart_id = cdev_id drv d (serial s);
     c_assert (NV_UARTA_ASYNC ids \<le> uart_id \<and> uart_id < NV_UARTD_ASYNC ids);
     let uart_id = uart_id - NV_UARTA_ASYNC ids;
     if read_requested drv d (serial s) > 0 then
       cdev_upd (nat uart_id) (\<lambda>cd. Some (cd\<lparr>do_release_read_sync_mutex := True\<rparr>)) s
     else Some s
   }"

definition tk1_uart_irq_handler ::
  "uart_ids \<Rightarrow> ('d, 'c) cdriver \<Rightarrow> int \<Rightarrow> ('d, 'c) uart_server \<Rightarrow> ('d, 'c) uart_server option" where
  "tk1_uart_irq_handler ids drv uart s = do {
     c_assert (NV_UARTA_ASYNC ids \<le> uart \<and> uart \<le> NV_UARTC_ASYNC ids);
     let uart_id = nat (uart - NV_UARTA_ASYNC ids);
     mydev \<leftarrow> array_get (cdevs s) uart_id;
     c_assert (pinst mydev);
     s \<leftarrow> cdev_upd uart_id state_mtx_lock s;
     let (wrote, red, d) = ps_cdev_handle_irq drv uart (serial s);
     let s = s\<lparr>serial := d\<rparr>;
     s \<leftarrow> (if wrote then tk1_uart_write_cb ids drv uart s else Some s);
     s \<leftarrow> (if red then tk1_uart_read_cb ids drv uart s else Some s);
     s \<leftarrow> cdev_upd uart_id state_mtx_unlock s;
     mydev \<leftarrow> array_get (cdevs s) uart_id;
     s \<leftarrow> (if do_release_write_sync_mutex mydev then do {
            s \<leftarrow> cdev_upd uart_id (\<lambda>cd. Some (cd\<lparr>do_release_write_sync_mutex := False\<rparr>)) s;
            cdev_upd uart_id write_sync_mtx_unlock s
          } else Some s);
     mydev \<leftarrow> array_get (cdevs s) uart_id;
     (if do_release_read_sync_mutex mydev then do {
        s \<leftarrow> cdev_upd uart_id (\<lambda>cd. Some (cd\<lparr>do_release_read_sync_mutex := False\<rparr>)) s;
        cdev_upd uart_id read_sync_mtx_unlock s
      } else Some s)
   }"

text \<open>The three entry points: handle the interrupt, then acknowledge it.\<close>

definition tk1_uarta_irq_handle ::
  "uart_ids \<Rightarrow> ('d, 'c) cdriver \<Rightarrow> ('d, 'c) uart_server \<Rightarrow> ('d, 'c) uart_server option" where
  "tk1_uarta_irq_handle ids drv s = do {
     s \<leftarrow> tk1_uart_irq_handler ids drv (NV_UARTA_ASYNC ids) s;
     Some (s\<lparr>irq_acks := irq_acks s @ [NV_UARTA_ASYNC ids]\<rparr>)
   }"

definition tk1_uartb_irq_handle ::
  "uart_ids \<Rightarrow> ('d, 'c) cdriver \<Rightarrow> ('d, 'c) uart_server \<Rightarrow> ('d, 'c) uart_server option" where
  "tk1_uartb_irq_handle ids drv s = do {
     s \<leftarrow> tk1_uart_irq_handler ids drv (NV_UARTB_ASYNC ids) s;
     Some (s\<lparr>irq_acks := irq_acks s @ [NV_UARTB_ASYNC ids]\<rparr>)
   }"

definition tk1_uartc_irq_handle ::
  "uart_ids \<Rightarrow> ('d, 'c) cdriver \<Rightarrow> ('d, 'c) uart_server \<Rightarrow> ('d, 'c) uart_server option" where
  "tk1_uartc_irq_handle ids drv s = do {
     s \<leftarrow> tk1_uart_irq_handler ids drv (NV_UARTC_ASYNC ids) s;
     Some (s\<lparr>irq_acks := irq_acks s @ [NV_UARTC_ASYNC ids]\<rparr>)
   }"

section \<open>Transfers\<close>

text \<open>
  Bringing the UART up on the first transfer, under the state mutex. The result says whether
  \<^verbatim>\<open>pinst\<close> is set afterwards; if not, the caller returns -1 on the spot.
\<close>

definition uart_bring_up ::
  "uart_ids \<Rightarrow> ('d, 'c) cdriver \<Rightarrow> int \<Rightarrow> ('d, 'c) uart_server \<Rightarrow> (bool \<times> ('d, 'c) uart_server) option" where
  "uart_bring_up ids drv uart s = do {
     let uart_num = nat (uart - NV_UARTA_ASYNC ids);
     cd \<leftarrow> array_get (cdevs s) uart_num;
     if pinst cd then Some (True, s)
     else do {
       (_, c) \<leftarrow> clkcar_uart_clk_init ids (car_rd drv) (car_wr drv) (clkcar_reg drv) uart (car s);
       let s = s\<lparr>car := c\<rparr>;
       let (ok, d) = ps_cdev_init drv uart (serial s);
       let s = s\<lparr>serial := d\<rparr>;
       s \<leftarrow> cdev_upd uart_num (\<lambda>cd. Some (cd\<lparr>pinst := ok\<rparr>)) s;
       Some (ok, s)
     }
   }"

text \<open>
  A write up to the point where it waits (\<open>Inr ()\<close>) or has returned (\<open>Inl\<close> the result), what the
  other threads do meanwhile (\<open>others\<close>), and the rest.
\<close>

definition tk1_uart_write_start ::
  "uart_ids \<Rightarrow> ('d, 'c) cdriver \<Rightarrow> int \<Rightarrow> int \<Rightarrow> ('d, 'c) uart_server \<Rightarrow>
   ((int + unit) \<times> ('d, 'c) uart_server) option" where
  "tk1_uart_write_start ids drv uart nbytes s =
     (if uart < NV_UARTA_ASYNC ids \<or> NV_UARTD_ASYNC ids \<le> uart then Some (Inl (-1), s)
      else do {
        let uart_num = nat (uart - NV_UARTA_ASYNC ids);
        cd \<leftarrow> array_get (cdevs s) uart_num;
        if \<not> tx_shmem_buff cd then Some (Inl (-1), s)
        else do {
          s \<leftarrow> cdev_upd uart_num state_mtx_lock s;
          (up, s) \<leftarrow> uart_bring_up ids drv uart s;
          if \<not> up then Some (Inl (-1), s)
          else do {
            let (ret, called, d) = ps_cdev_write drv uart nbytes (serial s);
            let s = s\<lparr>serial := d\<rparr>;
            s \<leftarrow> (if called then tk1_uart_write_cb ids drv uart s else Some s);
            s \<leftarrow> cdev_upd uart_num state_mtx_unlock s;
            if ret < 0 then Some (Inl ret, s) else Some (Inr (), s)
          }
        }
      })"

definition tk1_uart_write ::
  "uart_ids \<Rightarrow> ('d, 'c) cdriver \<Rightarrow> (('d, 'c) uart_server \<Rightarrow> ('d, 'c) uart_server option) \<Rightarrow> int \<Rightarrow> int \<Rightarrow>
   ('d, 'c) uart_server \<Rightarrow> (int \<times> ('d, 'c) uart_server) option" where
  "tk1_uart_write ids drv others uart nbytes s = do {
     (r, s) \<leftarrow> tk1_uart_write_start ids drv uart nbytes s;
     (case r of
        Inl ret \<Rightarrow> Some (ret, s)
      | Inr _ \<Rightarrow> do {
          s \<leftarrow> others s;
          s \<leftarrow> cdev_upd (nat (uart - NV_UARTA_ASYNC ids)) write_sync_mtx_lock s;
          Some (write_transfered drv uart (serial s), s)
        })
   }"

definition tk1_uart_read_start ::
  "uart_ids \<Rightarrow> ('d, 'c) cdriver \<Rightarrow> int \<Rightarrow> int \<Rightarrow> ('d, 'c) uart_server \<Rightarrow>
   ((int + unit) \<times> ('d, 'c) uart_server) option" where
  "tk1_uart_read_start ids drv uart nbytes s =
     (if uart < NV_UARTA_ASYNC ids \<or> NV_UARTD_ASYNC ids \<le> uart then Some (Inl (-1), s)
      else do {
        let uart_num = nat (uart - NV_UARTA_ASYNC ids);
        cd \<leftarrow> array_get (cdevs s) uart_num;
        if \<not> rx_shmem_buff cd then Some (Inl (-1), s)
        else do {
          s \<leftarrow> cdev_upd uart_num state_mtx_lock s;
          (up, s) \<leftarrow> uart_bring_up ids drv uart s;
          if \<not> up then Some (Inl (-1), s)
          else do {
            let (ret, called, d) = ps_cdev_read drv uart nbytes (serial s);
            let s = s\<lparr>serial := d\<rparr>;
            s \<leftarrow> (if called then tk1_uart_read_cb ids drv uart s else Some s);
            s \<leftarrow> cdev_upd uart_num state_mtx_unlock s;
            if ret < 0 then Some (Inl ret, s) else Some (Inr (), s)
          }
        }
      })"

definition tk1_uart_read ::
  "uart_ids \<Rightarrow> ('d, 'c) cdriver \<Rightarrow> (('d, 'c) uart_server \<Rightarrow> ('d, 'c) uart_server option) \<Rightarrow> int \<Rightarrow> int \<Rightarrow>
   ('d, 'c) uart_server \<Rightarrow> (int \<times> ('d, 'c) uart_server) option" where
  "tk1_uart_read ids drv others uart nbytes s = do {
     (r, s) \<leftarrow> tk1_uart_read_start ids drv uart nbytes s;
     (case r of
        Inl ret \<Rightarrow> Some (ret, s)
      | Inr _ \<Rightarrow> do {
          s \<leftarrow> others s;
          s \<leftarrow> cdev_upd (nat (uart - NV_UARTA_ASYNC ids)) read_sync_mtx_lock s;
          Some (read_transfered drv uart (serial s), s)
        })
   }"

end
