(* ===== verification/Tk1_Uart_Laws.thy ===== *)
theory Tk1_Uart_Laws
  imports Tk1_Uart
begin

text \<open>
  The handshake between the transfers of \<^verbatim>\<open>tk1_uart.c\<close> and its interrupt handler: what one
  interrupt does to the mutexes, when a blocked write returns, and how the server is lost when the
  serial driver cannot be initialised.
\<close>

section \<open>Single steps\<close>

definition uart_ids_ok :: "uart_ids \<Rightarrow> bool" where
  "uart_ids_ok ids \<longleftrightarrow> NV_UARTB_ASYNC ids = NV_UARTA_ASYNC ids + 1 \<and>
     NV_UARTC_ASYNC ids = NV_UARTA_ASYNC ids + 2 \<and> NV_UARTD_ASYNC ids = NV_UARTA_ASYNC ids + 3"

lemma cdev_upd_eq:
  "i < length (cdevs s) \<Longrightarrow> cdev_upd i f s =
     map_option (\<lambda>cd. s\<lparr>cdevs := (cdevs s)[i := cd]\<rparr>) (f (cdevs s ! i))"
  by (simp add: cdev_upd_def split: Option.bind_split)

lemmas mtx_defs = state_mtx_lock_def state_mtx_unlock_def write_sync_mtx_lock_def
  write_sync_mtx_unlock_def read_sync_mtx_lock_def read_sync_mtx_unlock_def

text \<open>
  A UART at rest: its number \<open>uart\<close> and index \<open>i\<close>, the state mutex free. The driver knows the
  device by its number.
\<close>

definition uart_at :: "uart_ids \<Rightarrow> ('d, 'c) cdriver \<Rightarrow> int \<Rightarrow> nat \<Rightarrow> ('d, 'c) uart_server \<Rightarrow> bool" where
  "uart_at ids drv uart i s \<longleftrightarrow> uart_ids_ok ids \<and> uart = NV_UARTA_ASYNC ids + int i \<and> i < 3 \<and>
     length (cdevs s) = 3 \<and> \<not> state_mtx (cdevs s ! i) \<and> (\<forall>d. cdev_id drv uart d = uart) \<and>
     clkcar_reg drv mod 4 = 0"

text \<open>What an interrupt makes of the descriptor.\<close>

definition after_irq :: "bool \<Rightarrow> bool \<Rightarrow> cdev_desc \<Rightarrow> cdev_desc" where
  "after_irq w r cd = cd\<lparr>
     write_sync_mtx := write_sync_mtx cd \<and> \<not> (do_release_write_sync_mutex cd \<or> w),
     read_sync_mtx := read_sync_mtx cd \<and> \<not> (do_release_read_sync_mutex cd \<or> r),
     do_release_write_sync_mutex := False, do_release_read_sync_mutex := False\<rparr>"

definition write_done :: "('d, 'c) cdriver \<Rightarrow> int \<Rightarrow> 'd \<Rightarrow> bool" where
  "write_done drv uart d \<longleftrightarrow> (case ps_cdev_handle_irq drv uart d of (w, r, d') \<Rightarrow>
     w \<and> 0 < write_requested drv uart d')"

definition read_done :: "('d, 'c) cdriver \<Rightarrow> int \<Rightarrow> 'd \<Rightarrow> bool" where
  "read_done drv uart d \<longleftrightarrow> (case ps_cdev_handle_irq drv uart d of (w, r, d') \<Rightarrow>
     r \<and> 0 < read_requested drv uart d')"

definition irq_state_of :: "('d, 'c) cdriver \<Rightarrow> int \<Rightarrow> 'd \<Rightarrow> 'd" where
  "irq_state_of drv uart d = snd (snd (ps_cdev_handle_irq drv uart d))"

lemma cdev_desc_eqI:
  "pinst a = pinst b \<Longrightarrow> tx_shmem_buff a = tx_shmem_buff b \<Longrightarrow> rx_shmem_buff a = rx_shmem_buff b \<Longrightarrow>
   state_mtx a = state_mtx b \<Longrightarrow> write_sync_mtx a = write_sync_mtx b \<Longrightarrow>
   read_sync_mtx a = read_sync_mtx b \<Longrightarrow>
   do_release_write_sync_mutex a = do_release_write_sync_mutex b \<Longrightarrow>
   do_release_read_sync_mutex a = do_release_read_sync_mutex b \<Longrightarrow> a = (b::cdev_desc)"
  by simp

lemma irq_handler_eq:
  assumes "uart_at ids drv uart i s" "pinst (cdevs s ! i)"
  shows "tk1_uart_irq_handler ids drv uart s = Some (s\<lparr>serial := irq_state_of drv uart (serial s),
    cdevs := (cdevs s)[i := after_irq (write_done drv uart (serial s)) (read_done drv uart (serial s))
      (cdevs s ! i)]\<rparr>)"
proof -
  obtain w r d where irq: "ps_cdev_handle_irq drv uart (serial s) = (w, r, d)"
    by (cases "ps_cdev_handle_irq drv uart (serial s)")
  have i: "i < length (cdevs s)" "nat (uart - NV_UARTA_ASYNC ids) = i" "NV_UARTA_ASYNC ids \<le> uart"
    "uart \<le> NV_UARTC_ASYNC ids" "uart < NV_UARTD_ASYNC ids" "\<And>d. cdev_id drv uart d = uart"
    "\<not> state_mtx (cdevs s ! i)"
    using assms(1) by (auto simp: uart_at_def uart_ids_ok_def)
  show ?thesis
    using i assms(2) irq
    by (cases s; cases "cdevs s ! i")
      (auto simp: tk1_uart_irq_handler_def cdev_upd_eq mtx_defs tk1_uart_write_cb_def
        tk1_uart_read_cb_def after_irq_def write_done_def read_done_def irq_state_of_def Let_def)
qed

section \<open>Runs of interrupts\<close>

fun uart_irqs ::
  "uart_ids \<Rightarrow> ('d, 'c) cdriver \<Rightarrow> int \<Rightarrow> nat \<Rightarrow> ('d, 'c) uart_server \<Rightarrow> ('d, 'c) uart_server option" where
  "uart_irqs ids drv uart 0 s = Some s"
| "uart_irqs ids drv uart (Suc n) s = do {
     s \<leftarrow> tk1_uart_irq_handler ids drv uart s;
     uart_irqs ids drv uart n s
   }"

definition waiting :: "uart_ids \<Rightarrow> ('d, 'c) cdriver \<Rightarrow> int \<Rightarrow> nat \<Rightarrow> ('d, 'c) uart_server \<Rightarrow> bool" where
  "waiting ids drv uart i s \<longleftrightarrow> uart_at ids drv uart i s \<and> pinst (cdevs s ! i) \<and>
     \<not> do_release_write_sync_mutex (cdevs s ! i)"

abbreviation drv_after :: "('d, 'c) cdriver \<Rightarrow> int \<Rightarrow> nat \<Rightarrow> 'd \<Rightarrow> 'd" where
  "drv_after drv uart n \<equiv> irq_state_of drv uart ^^ n"

lemma uart_irqs_waiting:
  assumes "waiting ids drv uart i s"
  shows "\<exists>s'. uart_irqs ids drv uart n s = Some s' \<and> waiting ids drv uart i s' \<and>
    serial s' = drv_after drv uart n (serial s) \<and>
    write_sync_mtx (cdevs s' ! i) = (write_sync_mtx (cdevs s ! i) \<and>
      (\<forall>j<n. \<not> write_done drv uart (drv_after drv uart j (serial s))))"
  using assms
proof (induction n arbitrary: s)
  case 0
  then show ?case by simp
next
  case (Suc n)
  then have at: "uart_at ids drv uart i s" "pinst (cdevs s ! i)" "i < length (cdevs s)"
    by (auto simp: waiting_def uart_at_def)
  let ?s1 = "s\<lparr>serial := irq_state_of drv uart (serial s),
    cdevs := (cdevs s)[i := after_irq (write_done drv uart (serial s)) (read_done drv uart (serial s))
      (cdevs s ! i)]\<rparr>"
  have irq: "tk1_uart_irq_handler ids drv uart s = Some ?s1" by (rule irq_handler_eq [OF at(1,2)])
  have w: "waiting ids drv uart i ?s1"
    using Suc.prems by (auto simp: waiting_def uart_at_def after_irq_def)
  have sync: "write_sync_mtx (cdevs ?s1 ! i) =
      (write_sync_mtx (cdevs s ! i) \<and> \<not> write_done drv uart (serial s))"
    using Suc.prems at(3) by (simp add: waiting_def after_irq_def)
  have split: "(\<forall>j<Suc n. P j) \<longleftrightarrow> P 0 \<and> (\<forall>j<n. P (Suc j))" for P
    by (metis less_Suc_eq_0_disj not_less_eq zero_less_Suc)
  from Suc.IH [OF w] irq sync show ?case
    unfolding split by (auto simp: funpow_Suc_right simp del: funpow.simps)
qed

lemma clkcar_uart_clk_init_ok:
  assumes "NV_UARTA_ASYNC ids \<le> uart" "uart < NV_UARTD_ASYNC ids" "base mod 4 = 0"
  shows "\<exists>c. clkcar_uart_clk_init ids rd wr base uart m = Some (0, c)"
proof -
  have al: "(base + k) mod 4 = 0" if "k mod 4 = 0" for k
    using assms(3) that by presburger
  have "\<exists>c. clock_uart_init rd wr (base + r) i (base + k) j (base + s) m = Some c"
    if "r mod 4 = 0" "k mod 4 = 0" "s mod 4 = 0" for r k s i j
    using al [OF that(1)] al [OF that(2)] al [OF that(3)] by (simp add: clock_uart_init_def Let_def)
  note run = this [OF _ _ _]
  show ?thesis
    using assms(1,2) run [of 4 16 "0x178" 6 6] run [of 4 16 "0x17C" 7 7] run [of 8 20 "0x1A0" 23 23]
    by (auto simp: clkcar_uart_clk_init_def clock_uarta_init_def clock_uartb_init_def
        clock_uartc_init_def get_car_regs_def)
qed

lemma bring_up_eq:
  assumes "uart_at ids drv uart i (s\<lparr>cdevs := (cdevs s)[i := (cdevs s ! i)\<lparr>state_mtx := False\<rparr>]\<rparr>)"
  shows "\<exists>c. uart_bring_up ids drv uart s =
    (if pinst (cdevs s ! i) then Some (True, s)
     else let (up, d) = ps_cdev_init drv uart (serial s) in
       Some (up, s\<lparr>car := c, serial := d, cdevs := (cdevs s)[i := (cdevs s ! i)\<lparr>pinst := up\<rparr>]\<rparr>))"
proof -
  have i: "i < length (cdevs s)" "nat (uart - NV_UARTA_ASYNC ids) = i" "NV_UARTA_ASYNC ids \<le> uart"
    "uart < NV_UARTD_ASYNC ids" "clkcar_reg drv mod 4 = 0"
    using assms by (auto simp: uart_at_def uart_ids_ok_def)
  obtain c where "clkcar_uart_clk_init ids (car_rd drv) (car_wr drv) (clkcar_reg drv) uart (car s) = Some (0, c)"
    using clkcar_uart_clk_init_ok [OF i(3-5)] by blast
  with i show ?thesis
    by (auto simp: uart_bring_up_def cdev_upd_eq split_beta Let_def)
qed

section \<open>Transfers\<close>

definition brought_up :: "('d, 'c) cdriver \<Rightarrow> int \<Rightarrow> nat \<Rightarrow> ('d, 'c) uart_server \<Rightarrow> bool \<times> 'd" where
  "brought_up drv uart i s =
     (if pinst (cdevs s ! i) then (True, serial s) else ps_cdev_init drv uart (serial s))"

lemma locked_at:
  assumes "uart_at ids drv uart i s"
  shows "cdev_upd i state_mtx_lock s = Some (s\<lparr>cdevs := (cdevs s)[i := (cdevs s ! i)\<lparr>state_mtx := True\<rparr>]\<rparr>)"
    and "uart_at ids drv uart i (s\<lparr>cdevs := (cdevs s)[i := (cdevs s ! i)\<lparr>state_mtx := True\<rparr>],
      cdevs := ((cdevs s)[i := (cdevs s ! i)\<lparr>state_mtx := True\<rparr>])[i := ((cdevs s)[i := (cdevs s ! i)\<lparr>state_mtx := True\<rparr>] ! i)\<lparr>state_mtx := False\<rparr>]\<rparr>)"
  using assms by (auto simp: uart_at_def cdev_upd_eq state_mtx_lock_def)

lemma bring_up_locked:
  assumes "uart_at ids drv uart i s" "brought_up drv uart i s = (up, d)"
  shows "\<exists>c. uart_bring_up ids drv uart (s\<lparr>cdevs := (cdevs s)[i := (cdevs s ! i)\<lparr>state_mtx := True\<rparr>]\<rparr>) =
    Some (up, s\<lparr>car := c, serial := d,
      cdevs := (cdevs s)[i := (cdevs s ! i)\<lparr>state_mtx := True, pinst := up\<rparr>]\<rparr>)"
proof -
  let ?s = "s\<lparr>cdevs := (cdevs s)[i := (cdevs s ! i)\<lparr>state_mtx := True\<rparr>]\<rparr>"
  have i: "i < length (cdevs s)" using assms(1) by (simp add: uart_at_def)
  have "uart_at ids drv uart i (?s\<lparr>cdevs := (cdevs ?s)[i := (cdevs ?s ! i)\<lparr>state_mtx := False\<rparr>]\<rparr>)"
    using locked_at(2) [OF assms(1)] i by simp
  from bring_up_eq [OF this] obtain c where c: "uart_bring_up ids drv uart ?s =
    (if pinst (cdevs ?s ! i) then Some (True, ?s)
     else let (up, d) = ps_cdev_init drv uart (serial ?s) in
       Some (up, ?s\<lparr>car := c, serial := d, cdevs := (cdevs ?s)[i := (cdevs ?s ! i)\<lparr>pinst := up\<rparr>]\<rparr>))" ..
  show ?thesis
  proof (cases "pinst (cdevs s ! i)")
    case True
    then have up: "up" "d = serial s" using assms(2) by (auto simp: brought_up_def)
    have "(cdevs s ! i)\<lparr>state_mtx := True, pinst := up\<rparr> = (cdevs s ! i)\<lparr>state_mtx := True\<rparr>"
      using True up by (cases "cdevs s ! i") simp
    then have "s\<lparr>car := car s, serial := d,
        cdevs := (cdevs s)[i := (cdevs s ! i)\<lparr>state_mtx := True, pinst := up\<rparr>]\<rparr> = ?s"
      using up(2) by (simp only:) (cases s, simp)
    with True c i up show ?thesis by (intro exI [of _ "car s"]) simp
  next
    case False
    with c assms(2) i show ?thesis
      by (intro exI [of _ c]) (simp add: brought_up_def)
  qed
qed

lemma write_start_waits:
  assumes "uart_at ids drv uart i s" "tx_shmem_buff (cdevs s ! i)" "\<not> do_release_write_sync_mutex (cdevs s ! i)"
    "brought_up drv uart i s = (True, d0)" "ps_cdev_write drv uart nbytes d0 = (ret, False, d1)" "0 \<le> ret"
  shows "\<exists>s'. tk1_uart_write_start ids drv uart nbytes s = Some (Inr (), s') \<and> waiting ids drv uart i s' \<and>
    serial s' = d1 \<and> write_sync_mtx (cdevs s' ! i) = write_sync_mtx (cdevs s ! i)"
proof -
  obtain c where c: "uart_bring_up ids drv uart (s\<lparr>cdevs := (cdevs s)[i := (cdevs s ! i)\<lparr>state_mtx := True\<rparr>]\<rparr>) =
    Some (True, s\<lparr>car := c, serial := d0,
      cdevs := (cdevs s)[i := (cdevs s ! i)\<lparr>state_mtx := True, pinst := True\<rparr>]\<rparr>)"
    using bring_up_locked [OF assms(1,4)] by blast
  have i: "i < length (cdevs s)" "nat (uart - NV_UARTA_ASYNC ids) = i" "NV_UARTA_ASYNC ids \<le> uart"
    "uart < NV_UARTD_ASYNC ids" "\<not> state_mtx (cdevs s ! i)"
    using assms(1) by (auto simp: uart_at_def uart_ids_ok_def)
  have "tk1_uart_write_start ids drv uart nbytes s = Some (Inr (), s\<lparr>car := c, serial := d1,
      cdevs := (cdevs s)[i := (cdevs s ! i)\<lparr>pinst := True, state_mtx := False\<rparr>]\<rparr>)"
    using i assms(2,5,6) c
    by (simp add: tk1_uart_write_start_def cdev_upd_eq state_mtx_lock_def state_mtx_unlock_def Let_def)
  with assms(1,3) i(1) show ?thesis
    by (auto simp: waiting_def uart_at_def)
qed

lemma start_fails:
  assumes "uart_at ids drv uart i s" "\<not> pinst (cdevs s ! i)" "fst (ps_cdev_init drv uart (serial s)) = False"
  shows "\<exists>s'. length (cdevs s') = 3 \<and> state_mtx (cdevs s' ! i) \<and> \<not> pinst (cdevs s' ! i) \<and>
    tx_shmem_buff (cdevs s' ! i) = tx_shmem_buff (cdevs s ! i) \<and>
    rx_shmem_buff (cdevs s' ! i) = rx_shmem_buff (cdevs s ! i) \<and>
    (tx_shmem_buff (cdevs s ! i) \<longrightarrow> (\<forall>n. tk1_uart_write_start ids drv uart n s = Some (Inl (-1), s'))) \<and>
    (rx_shmem_buff (cdevs s ! i) \<longrightarrow> (\<forall>n. tk1_uart_read_start ids drv uart n s = Some (Inl (-1), s')))"
proof -
  obtain d where "brought_up drv uart i s = (False, d)"
    using assms(2,3) by (cases "ps_cdev_init drv uart (serial s)") (auto simp: brought_up_def)
  from bring_up_locked [OF assms(1) this] obtain c where
    c: "uart_bring_up ids drv uart (s\<lparr>cdevs := (cdevs s)[i := (cdevs s ! i)\<lparr>state_mtx := True\<rparr>]\<rparr>) =
    Some (False, s\<lparr>car := c, serial := d,
      cdevs := (cdevs s)[i := (cdevs s ! i)\<lparr>state_mtx := True, pinst := False\<rparr>]\<rparr>)" by blast
  have i: "i < length (cdevs s)" "nat (uart - NV_UARTA_ASYNC ids) = i" "NV_UARTA_ASYNC ids \<le> uart"
    "uart < NV_UARTD_ASYNC ids" "length (cdevs s) = 3"
    using assms(1) by (auto simp: uart_at_def uart_ids_ok_def)
  show ?thesis
    by (rule exI [of _ "s\<lparr>car := c, serial := d,
        cdevs := (cdevs s)[i := (cdevs s ! i)\<lparr>state_mtx := True, pinst := False\<rparr>]\<rparr>"])
      (use i c locked_at(1) [OF assms(1)] in
       \<open>simp add: tk1_uart_write_start_def tk1_uart_read_start_def Let_def\<close>)
qed

lemma state_locked_blocks:
  assumes "NV_UARTA_ASYNC ids \<le> uart" "uart < NV_UARTD_ASYNC ids" "nat (uart - NV_UARTA_ASYNC ids) < length (cdevs s)"
    "state_mtx (cdevs s ! nat (uart - NV_UARTA_ASYNC ids))"
  shows "tx_shmem_buff (cdevs s ! nat (uart - NV_UARTA_ASYNC ids)) \<Longrightarrow> tk1_uart_write ids drv others uart n s = None"
    and "rx_shmem_buff (cdevs s ! nat (uart - NV_UARTA_ASYNC ids)) \<Longrightarrow> tk1_uart_read ids drv others uart n s = None"
  using assms
  by (simp_all add: tk1_uart_write_def tk1_uart_write_start_def tk1_uart_read_def tk1_uart_read_start_def
      cdev_upd_eq state_mtx_lock_def Let_def)

text \<open>
  C19: A write on an idle UART whose driver accepts the data returns exactly when one of the
  interrupts that follow reports the completion of a transfer of more than zero bytes. It then
  returns the driver's byte count, and leaves the mutexes as it found them, ready for the next
  transfer. So a write of zero bytes, which the driver's callback does not count, never returns.
\<close>

theorem uart_write_returns:
  assumes "uart_at ids drv uart i s" "tx_shmem_buff (cdevs s ! i)" "write_sync_mtx (cdevs s ! i)"
    "\<not> do_release_write_sync_mutex (cdevs s ! i)"
    "brought_up drv uart i s = (True, d0)" "ps_cdev_write drv uart nbytes d0 = (ret, False, d1)" "0 \<le> ret"
  shows "if \<exists>j<k. write_done drv uart (drv_after drv uart j d1)
    then ok (tk1_uart_write ids drv (uart_irqs ids drv uart k) uart nbytes s) (\<lambda>(v, s').
      v = write_transfered drv uart (drv_after drv uart k d1) \<and> waiting ids drv uart i s' \<and>
      write_sync_mtx (cdevs s' ! i))
    else tk1_uart_write ids drv (uart_irqs ids drv uart k) uart nbytes s = None"
proof -
  obtain s1 where s1: "tk1_uart_write_start ids drv uart nbytes s = Some (Inr (), s1)"
      "waiting ids drv uart i s1" "serial s1 = d1" "write_sync_mtx (cdevs s1 ! i)"
    using write_start_waits [OF assms(1,2,4-7)] assms(3) by blast
  obtain s2 where s2: "uart_irqs ids drv uart k s1 = Some s2" "waiting ids drv uart i s2"
      "serial s2 = drv_after drv uart k d1"
      "write_sync_mtx (cdevs s2 ! i) \<longleftrightarrow> \<not> (\<exists>j<k. write_done drv uart (drv_after drv uart j d1))"
    using uart_irqs_waiting [OF s1(2), of k] s1(3,4) by auto
  have i: "i < length (cdevs s2)" "nat (uart - NV_UARTA_ASYNC ids) = i"
    using s2(2) by (auto simp: waiting_def uart_at_def)
  have "waiting ids drv uart i (s2\<lparr>cdevs := (cdevs s2)[i := (cdevs s2 ! i)\<lparr>write_sync_mtx := True\<rparr>]\<rparr>)"
    using s2(2) i(1) by (auto simp: waiting_def uart_at_def)
  then show ?thesis
    using s1(1) s2(1,3,4) i
    by (cases "\<exists>j<k. write_done drv uart (drv_after drv uart j d1)")
      (simp_all add: tk1_uart_write_def cdev_upd_eq write_sync_mtx_lock_def)
qed

text \<open>A driver whose state is the number of bytes asked for and moved, and a server after start-up.\<close>

definition bench_driver :: "bool \<Rightarrow> (int \<times> int, nat \<Rightarrow> u32) cdriver" where
  "bench_driver up = \<lparr>ps_cdev_init = (\<lambda>u d. (up, d)),
     ps_cdev_write = (\<lambda>u n d. (0, False, (n, 0))), ps_cdev_read = (\<lambda>u n d. (0, False, (n, 0))),
     ps_cdev_handle_irq = (\<lambda>u d. (True, False, (fst d, fst d))), cdev_id = (\<lambda>u d. u),
     write_requested = (\<lambda>u d. fst d), write_transfered = (\<lambda>u d. snd d),
     read_requested = (\<lambda>u d. 0), read_transfered = (\<lambda>u d. 0),
     car_rd = ram_rd, car_wr = ram_wr, clkcar_reg = 0\<rparr>"

definition bench_server :: "(int \<times> int, nat \<Rightarrow> u32) uart_server" where
  "bench_server = \<lparr>cdevs = replicate 3 ((empty_cdev True True)\<lparr>write_sync_mtx := True, read_sync_mtx := True\<rparr>),
     serial = (0, 0), car = \<lparr>device = (\<lambda>_. 0), accesses = []\<rparr>, irq_acks = []\<rparr>"

lemma bench_server_started:
  "tk1_uart_init (\<lambda>_. True) (\<lambda>_. True) (bench_server\<lparr>cdevs := cds\<rparr>) = Some bench_server"
  by (simp add: tk1_uart_init_def bench_server_def empty_cdev_def cdev_upd_def mtx_defs numeral_eq_Suc
      Let_def)

lemma bench_at: "uart_at sample_ids (bench_driver up) 4 0 bench_server"
  by (simp add: uart_at_def uart_ids_ok_def sample_ids_def bench_driver_def bench_server_def empty_cdev_def)

theorem uart_write_returns_witness:
  "ok (tk1_uart_write sample_ids (bench_driver True) (uart_irqs sample_ids (bench_driver True) 4 1) 4 12
       bench_server) (\<lambda>(v, s'). v = 12) \<and>
   tk1_uart_write sample_ids (bench_driver True) (uart_irqs sample_ids (bench_driver True) 4 9) 4 0
       bench_server = None"
proof -
  have s: "tx_shmem_buff (cdevs bench_server ! 0)" "write_sync_mtx (cdevs bench_server ! 0)"
    "\<not> do_release_write_sync_mutex (cdevs bench_server ! 0)"
    "brought_up (bench_driver True) 4 0 bench_server = (True, (0, 0))"
    by (simp_all add: bench_server_def empty_cdev_def brought_up_def bench_driver_def)
  have w: "ps_cdev_write (bench_driver True) 4 n (0, 0) = (0, False, (n, 0))" for n
    by (simp add: bench_driver_def)
  have req: "fst (drv_after (bench_driver True) 4 j (n, 0)) = n" for j and n :: int
    by (induction j) (simp_all add: irq_state_of_def bench_driver_def)
  have fin: "write_done (bench_driver True) 4 d \<longleftrightarrow> 0 < fst d" for d
    by (simp add: write_done_def bench_driver_def)
  have one: "write_transfered (bench_driver True) 4 (drv_after (bench_driver True) 4 1 (12, 0)) = 12"
    by (simp add: irq_state_of_def bench_driver_def)
  note run = uart_write_returns [OF bench_at s w]
  show ?thesis
    using run [of 1 12] run [of 9 0] one by (simp add: fin req ok_def) blast
qed

text \<open>
  When the serial driver cannot be initialised, the first write or read on the UART returns -1
  but keeps the state mutex, so that every later write and read on that UART blocks for ever, and
  an interrupt of the UART stops the server at an assertion.
\<close>

theorem failed_init_locks_uart:
  assumes "uart_at ids drv uart i s" "tx_shmem_buff (cdevs s ! i)" "rx_shmem_buff (cdevs s ! i)"
    "\<not> pinst (cdevs s ! i)" "fst (ps_cdev_init drv uart (serial s)) = False"
  shows "\<exists>s'. tk1_uart_write ids drv others uart n s = Some (-1, s') \<and>
    tk1_uart_read ids drv others uart n s = Some (-1, s') \<and>
    tk1_uart_irq_handler ids drv uart s' = None \<and>
    (\<forall>others n. tk1_uart_write ids drv others uart n s' = None \<and>
       tk1_uart_read ids drv others uart n s' = None)"
proof -
  obtain s' where s': "length (cdevs s') = 3" "state_mtx (cdevs s' ! i)" "\<not> pinst (cdevs s' ! i)"
      "tx_shmem_buff (cdevs s' ! i)" "rx_shmem_buff (cdevs s' ! i)"
      "\<And>n. tk1_uart_write_start ids drv uart n s = Some (Inl (-1), s')"
      "\<And>n. tk1_uart_read_start ids drv uart n s = Some (Inl (-1), s')"
    using start_fails [OF assms(1,4,5)] assms(2,3) by auto
  have i: "nat (uart - NV_UARTA_ASYNC ids) = i" "NV_UARTA_ASYNC ids \<le> uart" "uart < NV_UARTD_ASYNC ids" "i < 3"
    using assms(1) by (auto simp: uart_at_def uart_ids_ok_def)
  have "tk1_uart_write ids drv others uart n s = Some (-1, s')" "tk1_uart_read ids drv others uart n s = Some (-1, s')"
    by (simp_all add: tk1_uart_write_def tk1_uart_read_def s'(6,7))
  moreover have "tk1_uart_irq_handler ids drv uart s' = None"
    using i s'(1,3) by (simp add: tk1_uart_irq_handler_def Let_def split: Option.bind_split)
  moreover have "tk1_uart_write ids drv others uart n s' = None" "tk1_uart_read ids drv others uart n s' = None"
    for others n
    using state_locked_blocks [OF i(2,3), of s'] i(1,4) s'(1,2,4,5) by simp_all
  ultimately show ?thesis by blast
qed

theorem failed_init_locks_uart_witness:
  "\<exists>s'. tk1_uart_write sample_ids (bench_driver False) Some 4 12 bench_server = Some (-1, s') \<and>
     tk1_uart_irq_handler sample_ids (bench_driver False) 4 s' = None \<and>
     tk1_uart_read sample_ids (bench_driver False) Some 4 12 s' = None"
proof -
  have s: "tx_shmem_buff (cdevs bench_server ! 0)" "rx_shmem_buff (cdevs bench_server ! 0)"
    "\<not> pinst (cdevs bench_server ! 0)"
    "fst (ps_cdev_init (bench_driver False) 4 (serial bench_server)) = False"
    by (simp_all add: bench_server_def empty_cdev_def bench_driver_def)
  from failed_init_locks_uart [OF bench_at s, of Some 12] show ?thesis by blast
qed

end
