(* ===== verification/Tk1_Uart_Runs.thy ===== *)
theory Tk1_Uart_Runs
  imports Tk1_Uart_Laws
begin

text \<open>
  The UART server under every interleaving of its threads: the transfers on the three UARTs and their
  interrupts never touch each other's state, and the mutex of a UART is held between steps only when
  the UART could not be brought up.
\<close>

section \<open>Every interleaving\<close>

text \<open>
  The atomic steps of the server's threads: a transfer up to the point where it waits, its end when it
  gets the lock it waits for, and an interrupt.
\<close>

datatype uart_op = UWrite int int | UWrite_end int | URead int int | URead_end int | UIrq int

fun op_uart :: "uart_op \<Rightarrow> int" where
  "op_uart (UWrite u n) = u"
| "op_uart (UWrite_end u) = u"
| "op_uart (URead u n) = u"
| "op_uart (URead_end u) = u"
| "op_uart (UIrq u) = u"

fun uart_step ::
  "uart_ids \<Rightarrow> ('d, 'c) cdriver \<Rightarrow> uart_op \<Rightarrow> ('d, 'c) uart_server \<Rightarrow> ('d, 'c) uart_server option" where
  "uart_step ids drv (UWrite u n) s = map_option snd (tk1_uart_write_start ids drv u n s)"
| "uart_step ids drv (UWrite_end u) s = cdev_upd (nat (u - NV_UARTA_ASYNC ids)) write_sync_mtx_lock s"
| "uart_step ids drv (URead u n) s = map_option snd (tk1_uart_read_start ids drv u n s)"
| "uart_step ids drv (URead_end u) s = cdev_upd (nat (u - NV_UARTA_ASYNC ids)) read_sync_mtx_lock s"
| "uart_step ids drv (UIrq u) s = tk1_uart_irq_handler ids drv u s"

fun uart_steps ::
  "uart_ids \<Rightarrow> ('d, 'c) cdriver \<Rightarrow> uart_op list \<Rightarrow> ('d, 'c) uart_server \<Rightarrow> ('d, 'c) uart_server option" where
  "uart_steps ids drv [] s = Some s"
| "uart_steps ids drv (op # ops) s = do { s \<leftarrow> uart_step ids drv op s; uart_steps ids drv ops s }"

text \<open>\<open>touches i s s'\<close>: only the descriptor of UART \<open>i\<close> changed, and not which buffers it has.\<close>

definition touches :: "nat \<Rightarrow> ('d, 'c) uart_server \<Rightarrow> ('d, 'c) uart_server \<Rightarrow> bool" where
  "touches i s s' \<longleftrightarrow> length (cdevs s') = length (cdevs s) \<and>
     (\<forall>j < length (cdevs s). tx_shmem_buff (cdevs s' ! j) = tx_shmem_buff (cdevs s ! j) \<and>
        rx_shmem_buff (cdevs s' ! j) = rx_shmem_buff (cdevs s ! j) \<and>
        (j \<noteq> i \<longrightarrow> cdevs s' ! j = cdevs s ! j))"

lemma touches_refl [simp]: "touches i s s"
  by (simp add: touches_def)

lemma touches_trans [trans]: "touches i s s' \<Longrightarrow> touches i s' s'' \<Longrightarrow> touches i s s''"
  by (simp add: touches_def)

lemma touches_more [simp]:
  "touches i s (s'\<lparr>serial := d\<rparr>) = touches i s s'" "touches i s (s'\<lparr>car := c\<rparr>) = touches i s s'"
  "touches i (s\<lparr>serial := d\<rparr>) s' = touches i s s'" "touches i (s\<lparr>car := c\<rparr>) s' = touches i s s'"
  by (simp_all add: touches_def)

lemma cdev_upd_Some:
  "cdev_upd i f s = Some s' \<longleftrightarrow>
   i < length (cdevs s) \<and> (\<exists>cd. f (cdevs s ! i) = Some cd \<and> s' = s\<lparr>cdevs := (cdevs s)[i := cd]\<rparr>)"
  by (auto simp: cdev_upd_def bind_splits array_get_Some_iff array_set_Some_iff)

lemma touches_upd:
  assumes "cdev_upd i f s = Some s'"
    "\<And>cd cd'. f cd = Some cd' \<Longrightarrow> tx_shmem_buff cd' = tx_shmem_buff cd \<and> rx_shmem_buff cd' = rx_shmem_buff cd"
  shows "touches i s s'"
proof -
  obtain cd where cd: "i < length (cdevs s)" "f (cdevs s ! i) = Some cd" "s' = s\<lparr>cdevs := (cdevs s)[i := cd]\<rparr>"
    using assms(1) by (auto simp: cdev_upd_Some)
  from assms(2) [OF cd(2)] show ?thesis
    using nth_list_update_eq [OF cd(1), of cd] by (simp add: touches_def cd(3)) (metis nth_list_update_neq)
qed

lemma lock_take_Some: "lock_take b = Some c \<longleftrightarrow> \<not> b \<and> c"
  by (cases b) auto

lemma mtx_touches:
  "cdev_upd i state_mtx_lock s = Some s' \<Longrightarrow> touches i s s'"
  "cdev_upd i state_mtx_unlock s = Some s' \<Longrightarrow> touches i s s'"
  "cdev_upd i write_sync_mtx_lock s = Some s' \<Longrightarrow> touches i s s'"
  "cdev_upd i write_sync_mtx_unlock s = Some s' \<Longrightarrow> touches i s s'"
  "cdev_upd i read_sync_mtx_lock s = Some s' \<Longrightarrow> touches i s s'"
  "cdev_upd i read_sync_mtx_unlock s = Some s' \<Longrightarrow> touches i s s'"
  "cdev_upd i (\<lambda>cd. Some (cd\<lparr>pinst := b\<rparr>)) s = Some s' \<Longrightarrow> touches i s s'"
  "cdev_upd i (\<lambda>cd. Some (cd\<lparr>do_release_write_sync_mutex := b\<rparr>)) s = Some s' \<Longrightarrow> touches i s s'"
  "cdev_upd i (\<lambda>cd. Some (cd\<lparr>do_release_read_sync_mutex := b\<rparr>)) s = Some s' \<Longrightarrow> touches i s s'"
  by (erule touches_upd, auto simp: mtx_defs bind_splits)+

text \<open>What the state mutex and \<^verbatim>\<open>pinst\<close> of UART \<open>i\<close> are afterwards.\<close>

definition mtx_of :: "nat \<Rightarrow> ('d, 'c) uart_server \<Rightarrow> bool \<times> bool" where
  "mtx_of i s = (state_mtx (cdevs s ! i), pinst (cdevs s ! i))"

lemma mtx_of_more [simp]: "mtx_of i (s\<lparr>serial := d\<rparr>) = mtx_of i s" "mtx_of i (s\<lparr>car := c\<rparr>) = mtx_of i s"
  by (simp_all add: mtx_of_def)

lemma mtx_steps:
  "cdev_upd i state_mtx_lock s = Some s' \<Longrightarrow> mtx_of i s' = (True, snd (mtx_of i s))"
  "cdev_upd i state_mtx_unlock s = Some s' \<Longrightarrow> mtx_of i s' = (False, snd (mtx_of i s))"
  "cdev_upd i write_sync_mtx_lock s = Some s' \<Longrightarrow> mtx_of i s' = mtx_of i s"
  "cdev_upd i write_sync_mtx_unlock s = Some s' \<Longrightarrow> mtx_of i s' = mtx_of i s"
  "cdev_upd i read_sync_mtx_lock s = Some s' \<Longrightarrow> mtx_of i s' = mtx_of i s"
  "cdev_upd i read_sync_mtx_unlock s = Some s' \<Longrightarrow> mtx_of i s' = mtx_of i s"
  "cdev_upd i (\<lambda>cd. Some (cd\<lparr>pinst := b\<rparr>)) s = Some s' \<Longrightarrow> mtx_of i s' = (fst (mtx_of i s), b)"
  "cdev_upd i (\<lambda>cd. Some (cd\<lparr>do_release_write_sync_mutex := b\<rparr>)) s = Some s' \<Longrightarrow> mtx_of i s' = mtx_of i s"
  "cdev_upd i (\<lambda>cd. Some (cd\<lparr>do_release_read_sync_mutex := b\<rparr>)) s = Some s' \<Longrightarrow> mtx_of i s' = mtx_of i s"
  by (auto simp: cdev_upd_Some mtx_of_def mtx_defs bind_splits lock_take_Some)

lemma write_cb_confined:
  assumes "tk1_uart_write_cb ids drv u s = Some s'" "\<And>u d. cdev_id drv u d = u"
  shows "touches (nat (u - NV_UARTA_ASYNC ids)) s s'"
    "mtx_of (nat (u - NV_UARTA_ASYNC ids)) s' = mtx_of (nat (u - NV_UARTA_ASYNC ids)) s"
  using assms mtx_touches(8) mtx_steps(8)
  by (auto simp: tk1_uart_write_cb_def bind_splits Let_def split: if_splits)

lemma read_cb_confined:
  assumes "tk1_uart_read_cb ids drv u s = Some s'" "\<And>u d. cdev_id drv u d = u"
  shows "touches (nat (u - NV_UARTA_ASYNC ids)) s s'"
    "mtx_of (nat (u - NV_UARTA_ASYNC ids)) s' = mtx_of (nat (u - NV_UARTA_ASYNC ids)) s"
  using assms mtx_touches(9) mtx_steps(9)
  by (auto simp: tk1_uart_read_cb_def bind_splits Let_def split: if_splits)

lemma bring_up_confined:
  assumes "uart_bring_up ids drv u s = Some (up, s')"
  shows "touches (nat (u - NV_UARTA_ASYNC ids)) s s'"
    "mtx_of (nat (u - NV_UARTA_ASYNC ids)) s' = (fst (mtx_of (nat (u - NV_UARTA_ASYNC ids)) s), up)"
proof -
  let ?i = "nat (u - NV_UARTA_ASYNC ids)"
  obtain cd where cd: "array_get (cdevs s) ?i = Some cd"
    using assms by (auto simp: uart_bring_up_def bind_splits Let_def)
  have "touches ?i s s' \<and> mtx_of ?i s' = (fst (mtx_of ?i s), up)"
  proof (cases "pinst cd")
    case True
    then show ?thesis
      using assms cd by (auto simp: uart_bring_up_def array_get_Some_iff mtx_of_def Let_def)
  next
    case False
    obtain r c where c: "clkcar_uart_clk_init ids (car_rd drv) (car_wr drv) (clkcar_reg drv) u (car s) = Some (r, c)"
      using assms cd False by (auto simp: uart_bring_up_def bind_splits Let_def)
    obtain d where "ps_cdev_init drv u (serial s) = (up, d)"
        "cdev_upd ?i (\<lambda>cd. Some (cd\<lparr>pinst := up\<rparr>)) (s\<lparr>car := c, serial := d\<rparr>) = Some s'"
      using assms cd False c by (auto simp: uart_bring_up_def bind_splits Let_def split: prod.splits)
    from mtx_touches(7) [OF this(2)] mtx_steps(7) [OF this(2)] show ?thesis by simp
  qed
  then show "touches ?i s s'" "mtx_of ?i s' = (fst (mtx_of ?i s), up)" by simp_all
qed

text \<open>The two transfers start alike, but for the buffer, the driver's call and the callback.\<close>

definition transfer_start where
  "transfer_start connected xfer cb ids drv u s =
     (if u < NV_UARTA_ASYNC ids \<or> NV_UARTD_ASYNC ids \<le> u then Some (Inl (-1), s)
      else do {
        let i = nat (u - NV_UARTA_ASYNC ids);
        cd \<leftarrow> array_get (cdevs s) i;
        if \<not> connected cd then Some (Inl (-1), s)
        else do {
          s \<leftarrow> cdev_upd i state_mtx_lock s;
          (up, s) \<leftarrow> uart_bring_up ids drv u s;
          if \<not> up then Some (Inl (-1), s)
          else do {
            let (ret, called, d) = xfer (serial s);
            let s = s\<lparr>serial := d\<rparr>;
            s \<leftarrow> (if called then cb s else Some s);
            s \<leftarrow> cdev_upd i state_mtx_unlock s;
            if ret < 0 then Some (Inl ret, s) else Some (Inr (), s)
          }
        }
      })"

lemma start_eqs:
  "tk1_uart_write_start ids drv u n =
     transfer_start tx_shmem_buff (ps_cdev_write drv u n) (tk1_uart_write_cb ids drv u) ids drv u"
  "tk1_uart_read_start ids drv u n =
     transfer_start rx_shmem_buff (ps_cdev_read drv u n) (tk1_uart_read_cb ids drv u) ids drv u"
  by (simp_all add: fun_eq_iff tk1_uart_write_start_def tk1_uart_read_start_def transfer_start_def)

text \<open>A step leaves the mutex of its UART as it was, or has released it, or could not bring it up.\<close>

definition confined :: "nat \<Rightarrow> ('d, 'c) uart_server \<Rightarrow> ('d, 'c) uart_server \<Rightarrow> bool" where
  "confined i s s' \<longleftrightarrow> touches i s s' \<and>
     (fst (mtx_of i s') \<longrightarrow> mtx_of i s' = mtx_of i s \<or> \<not> snd (mtx_of i s'))"

lemma transfer_start_confined:
  assumes "transfer_start connected xfer cb ids drv u s = Some (r, s')"
    "\<And>s s'. cb s = Some s' \<Longrightarrow> touches (nat (u - NV_UARTA_ASYNC ids)) s s'"
  defines "i \<equiv> nat (u - NV_UARTA_ASYNC ids)"
  shows "confined i s s'"
proof (cases "u < NV_UARTA_ASYNC ids \<or> NV_UARTD_ASYNC ids \<le> u")
  case True
  then show ?thesis using assms by (simp add: transfer_start_def confined_def)
next
  case False
  obtain cd where cd: "array_get (cdevs s) i = Some cd"
    using assms(1) False by (auto simp: transfer_start_def bind_splits Let_def i_def)
  show ?thesis
  proof (cases "connected cd")
    case nobuf: False
    then show ?thesis using assms(1) False cd by (auto simp: transfer_start_def confined_def Let_def i_def)
  next
    case buf: True
    obtain s1 up s2 where s1: "cdev_upd i state_mtx_lock s = Some s1" "uart_bring_up ids drv u s1 = Some (up, s2)"
      using assms(1) False cd buf by (auto simp: transfer_start_def bind_splits Let_def i_def)
    note t1 = mtx_touches(1) [OF s1(1)] bring_up_confined [OF s1(2), folded i_def] mtx_steps(1) [OF s1(1)]
    show ?thesis
    proof (cases up)
      case no: False
      then have "s' = s2" using assms(1) False cd buf s1 by (simp add: transfer_start_def Let_def i_def)
      with t1 no show ?thesis unfolding confined_def using touches_trans by (metis snd_conv)
    next
      case up: True
      obtain ret called d where w: "xfer (serial s2) = (ret, called, d)"
        by (cases "xfer (serial s2)")
      obtain s3 where s3: "(if called then cb (s2\<lparr>serial := d\<rparr>) else Some (s2\<lparr>serial := d\<rparr>)) = Some s3"
          "cdev_upd i state_mtx_unlock s3 = Some s'"
        using assms(1) False cd buf s1 up w
        by (auto simp: transfer_start_def bind_splits Let_def i_def split: if_splits)
      have "touches i s2 s3"
        using s3(1) assms(2) [of "s2\<lparr>serial := d\<rparr>" s3, folded i_def] by (cases called) auto
      with t1 mtx_touches(2) [OF s3(2)] mtx_steps(2) [OF s3(2)] show ?thesis
        unfolding confined_def using touches_trans by (metis fst_conv)
    qed
  qed
qed

text \<open>The end of the handler: releasing a waiting thread.\<close>

lemma release_confined:
  "(if b then do {
      s \<leftarrow> cdev_upd i (\<lambda>cd. Some (cd\<lparr>do_release_write_sync_mutex := False\<rparr>)) s;
      cdev_upd i write_sync_mtx_unlock s
    } else Some s) = Some s' \<Longrightarrow> touches i s s' \<and> mtx_of i s' = mtx_of i s"
  "(if b then do {
      s \<leftarrow> cdev_upd i (\<lambda>cd. Some (cd\<lparr>do_release_read_sync_mutex := False\<rparr>)) s;
      cdev_upd i read_sync_mtx_unlock s
    } else Some s) = Some s' \<Longrightarrow> touches i s s' \<and> mtx_of i s' = mtx_of i s"
  by (cases b; simp add: bind_splits; metis mtx_touches mtx_steps touches_trans)+

lemma irq_confined:
  assumes "tk1_uart_irq_handler ids drv u s = Some s'" "\<And>u d. cdev_id drv u d = u"
  shows "confined (nat (u - NV_UARTA_ASYNC ids)) s s'"
proof -
  let ?i = "nat (u - NV_UARTA_ASYNC ids)"
  obtain s1 where s1: "cdev_upd ?i state_mtx_lock s = Some s1"
    using assms(1) by (auto simp: tk1_uart_irq_handler_def bind_splits Let_def)
  obtain w r d where irq: "ps_cdev_handle_irq drv u (serial s1) = (w, r, d)"
    by (cases "ps_cdev_handle_irq drv u (serial s1)")
  obtain s2 s3 s4 s5 where c:
      "(if w then tk1_uart_write_cb ids drv u (s1\<lparr>serial := d\<rparr>) else Some (s1\<lparr>serial := d\<rparr>)) = Some s2"
      "(if r then tk1_uart_read_cb ids drv u s2 else Some s2) = Some s3"
      "cdev_upd ?i state_mtx_unlock s3 = Some s4"
      "(if do_release_write_sync_mutex (cdevs s4 ! ?i) then do {
            s \<leftarrow> cdev_upd ?i (\<lambda>cd. Some (cd\<lparr>do_release_write_sync_mutex := False\<rparr>)) s4;
            cdev_upd ?i write_sync_mtx_unlock s
          } else Some s4) = Some s5"
      "(if do_release_read_sync_mutex (cdevs s5 ! ?i) then do {
            s \<leftarrow> cdev_upd ?i (\<lambda>cd. Some (cd\<lparr>do_release_read_sync_mutex := False\<rparr>)) s5;
            cdev_upd ?i read_sync_mtx_unlock s
          } else Some s5) = Some s'"
    using assms(1) irq s1
    by (auto simp: tk1_uart_irq_handler_def bind_splits array_get_Some_iff Let_def)
  have "touches ?i s1 s2" "touches ?i s2 s3"
    using c(1,2) write_cb_confined(1) [OF _ assms(2), of ids u "s1\<lparr>serial := d\<rparr>" s2]
      read_cb_confined(1) [OF _ assms(2), of ids u s2 s3]
    by (auto split: if_splits)
  moreover note release_confined(1) [OF c(4)] release_confined(2) [OF c(5)]
  ultimately show ?thesis
    unfolding confined_def
    using mtx_touches(1) [OF s1] mtx_touches(2) [OF c(3)] mtx_steps(2) [OF c(3)] touches_trans
    by (metis fst_conv)
qed

lemma uart_step_confined:
  assumes "uart_step ids drv op s = Some s'" "\<And>u d. cdev_id drv u d = u"
  shows "confined (nat (op_uart op - NV_UARTA_ASYNC ids)) s s'"
proof (cases op)
  case (UWrite u n)
  then show ?thesis
    using assms(1) transfer_start_confined write_cb_confined(1) [OF _ assms(2)] by (fastforce simp: start_eqs)
next
  case (URead u n)
  then show ?thesis
    using assms(1) transfer_start_confined read_cb_confined(1) [OF _ assms(2)] by (fastforce simp: start_eqs)
next
  case (UIrq u)
  then show ?thesis using assms(1) irq_confined [OF _ assms(2)] by simp
next
  case (UWrite_end u)
  then show ?thesis using assms mtx_touches(3) mtx_steps(3) by (fastforce simp: confined_def)
next
  case (URead_end u)
  then show ?thesis using assms mtx_touches(5) mtx_steps(5) by (fastforce simp: confined_def)
qed

section \<open>Runs\<close>

definition uarts_ok :: "(nat \<Rightarrow> bool) \<Rightarrow> (nat \<Rightarrow> bool) \<Rightarrow> ('d, 'c) uart_server \<Rightarrow> bool" where
  "uarts_ok tx rx s \<longleftrightarrow> length (cdevs s) = 3 \<and>
     (\<forall>i < 3. tx_shmem_buff (cdevs s ! i) = tx i \<and> rx_shmem_buff (cdevs s ! i) = rx i \<and>
        (state_mtx (cdevs s ! i) \<longrightarrow> \<not> pinst (cdevs s ! i)))"

lemma confined_ok:
  assumes "confined k s s'" "uarts_ok tx rx s"
  shows "uarts_ok tx rx s' \<and> (\<forall>i < 3. i \<noteq> k \<longrightarrow> cdevs s' ! i = cdevs s ! i)"
proof -
  have t: "touches k s s'" "fst (mtx_of k s') \<longrightarrow> mtx_of k s' = mtx_of k s \<or> \<not> snd (mtx_of k s')"
    using assms(1) by (auto simp: confined_def)
  have "state_mtx (cdevs s' ! i) \<longrightarrow> \<not> pinst (cdevs s' ! i)" if "i < 3" for i
    using t assms(2) that by (cases "i = k") (auto simp: uarts_ok_def touches_def mtx_of_def)
  with t(1) assms(2) show ?thesis
    by (auto simp: uarts_ok_def touches_def)
qed

lemma uart_steps_ok:
  assumes "uart_steps ids drv ops s = Some s'" "uarts_ok tx rx s" "\<And>u d. cdev_id drv u d = u"
  shows "uarts_ok tx rx s' \<and>
    (\<forall>i < 3. (\<forall>op \<in> set ops. nat (op_uart op - NV_UARTA_ASYNC ids) \<noteq> i) \<longrightarrow> cdevs s' ! i = cdevs s ! i)"
  using assms(1,2)
proof (induction ops arbitrary: s)
  case Nil
  then show ?case by simp
next
  case (Cons op ops)
  then obtain s1 where s1: "uart_step ids drv op s = Some s1" "uart_steps ids drv ops s1 = Some s'"
    by (auto simp: bind_splits)
  from confined_ok [OF uart_step_confined [OF s1(1) assms(3)] Cons.prems(2)] Cons.IH [OF s1(2)]
  show ?case by auto
qed

lemma tk1_uart_init_eq:
  "tk1_uart_init tx rx s = Some (s\<lparr>cdevs := map (\<lambda>i.
     (empty_cdev (tx i) (rx i))\<lparr>write_sync_mtx := True, read_sync_mtx := True\<rparr>) [0..<3]\<rparr>)"
  by (simp add: tk1_uart_init_def empty_cdev_def cdev_upd_def mtx_defs numeral_eq_Suc Let_def)

lemma tk1_uart_init_ok: "tk1_uart_init tx rx s0 = Some s \<Longrightarrow> uarts_ok tx rx s"
  by (auto simp: tk1_uart_init_eq uarts_ok_def empty_cdev_def simp del: upt_Suc)

text \<open>
  C18: After start-up, whatever transfers and interrupts run in whatever interleaving, there are three
  UARTs with the buffers they were connected to; a state mutex is held between steps only on a UART
  that could not be brought up; and a UART that none of the steps names is exactly as it was.
\<close>

theorem uart_server_separates:
  assumes "tk1_uart_init tx rx s0 = Some s" "uart_steps ids drv ops s = Some s'"
    "\<And>u d. cdev_id drv u d = u"
  shows "length (cdevs s') = 3 \<and>
    (\<forall>i < 3. tx_shmem_buff (cdevs s' ! i) = tx i \<and> rx_shmem_buff (cdevs s' ! i) = rx i \<and>
       (state_mtx (cdevs s' ! i) \<longrightarrow> \<not> pinst (cdevs s' ! i)) \<and>
       ((\<forall>op \<in> set ops. nat (op_uart op - NV_UARTA_ASYNC ids) \<noteq> i) \<longrightarrow> cdevs s' ! i = cdevs s ! i))"
  using uart_steps_ok [OF assms(2) tk1_uart_init_ok [OF assms(1)] assms(3)]
  by (simp add: uarts_ok_def)

theorem uart_server_separates_witness:
  "\<exists>s'. uart_steps sample_ids (bench_driver True) [UWrite 4 12] bench_server = Some s' \<and>
     length (cdevs s') = 3 \<and> cdevs s' ! 1 = cdevs bench_server ! 1 \<and> cdevs s' ! 2 = cdevs bench_server ! 2"
proof -
  have pre: "tx_shmem_buff (cdevs bench_server ! 0)" "\<not> do_release_write_sync_mutex (cdevs bench_server ! 0)"
    "brought_up (bench_driver True) 4 0 bench_server = (True, (0, 0))"
    "ps_cdev_write (bench_driver True) 4 12 (0, 0) = (0, False, (12, 0))" "(0::int) \<le> 0"
    by (simp_all add: bench_server_def empty_cdev_def brought_up_def bench_driver_def)
  obtain s' where s': "uart_steps sample_ids (bench_driver True) [UWrite 4 12] bench_server = Some s'"
    using write_start_waits [OF bench_at pre] by auto
  have id: "cdev_id (bench_driver True) u d = u" for u d
    by (simp add: bench_driver_def)
  from uart_server_separates [OF bench_server_started s' id] s' show ?thesis
    by (auto simp: sample_ids_def)
qed

end
