(* ===== verification/Uart_Apps.thy ===== *)
theory Uart_Apps
  imports Tk1_Uart_Laws
begin

text \<open>
  The UART test applications: the echo server \<^verbatim>\<open>apps/uart-test/components/tk1_uart_test/src/tk1_uart_test.c\<close>
  and its peer \<^verbatim>\<open>apps/uart-test-client/components/tk1_uart_test_client/src/tk1_uart_test_client.c\<close>. They
  reach the UART server by two RPC calls and two dataports: a read leaves its bytes in
  \<^verbatim>\<open>tk1_uartb_rx_buff\<close>, a write takes them from \<^verbatim>\<open>tk1_uartb_tx_buff\<close>. The calls are the fields of a
  \<open>uart_rpc\<close>, and \<open>server_rpc\<close> makes one from the model of \<^verbatim>\<open>tk1_uart.c\<close>.
\<close>

abbreviation (input) N_ITERATIONS :: nat where "N_ITERATIONS \<equiv> 256"
abbreviation (input) TEST_XOR_MAGIC :: u8 where "TEST_XOR_MAGIC \<equiv> 0x20"
abbreviation (input) SERVER_RESTART_CHAR :: u8 where "SERVER_RESTART_CHAR \<equiv> 0x7E"
abbreviation (input) SERVER_NEW_BEHAVIOUR_CHAR0 :: u8 where "SERVER_NEW_BEHAVIOUR_CHAR0 \<equiv> 0x21"
abbreviation (input) SERVER_NEW_BEHAVIOUR_CHAR1 :: u8 where "SERVER_NEW_BEHAVIOUR_CHAR1 \<equiv> 0x40"
abbreviation (input) SERVER_NEW_BEHAVIOUR_CHAR2 :: u8 where "SERVER_NEW_BEHAVIOUR_CHAR2 \<equiv> 0x23"

section \<open>The interface to the UART server\<close>

record 'u uart_rpc =
  rpc_read :: "int \<Rightarrow> int \<Rightarrow> 'u \<Rightarrow> (int \<times> u8 list \<times> 'u) option"
  rpc_write :: "int \<Rightarrow> int \<Rightarrow> u8 list \<Rightarrow> 'u \<Rightarrow> (int \<times> 'u) option"

text \<open>
  The state of an application: its two dataports, its static buffer (\<^verbatim>\<open>rxdata\<close> of the server,
  \<^verbatim>\<open>inbuff\<close> of the client), and the UART server.
\<close>

record 'u test_app =
  tx_port :: "u8 list"
  rx_port :: "u8 list"
  rxdata :: "u8 list"
  uart_srv :: 'u

definition app_read :: "'u uart_rpc \<Rightarrow> int \<Rightarrow> nat \<Rightarrow> 'u test_app \<Rightarrow> (int \<times> 'u test_app) option" where
  "app_read rpc uart_id n s = do {
     (status, rx, u) \<leftarrow> rpc_read rpc uart_id (int n) (uart_srv s);
     Some (status, s\<lparr>rx_port := rx, uart_srv := u\<rparr>)
   }"

definition app_write :: "'u uart_rpc \<Rightarrow> int \<Rightarrow> nat \<Rightarrow> 'u test_app \<Rightarrow> (int \<times> 'u test_app) option" where
  "app_write rpc uart_id n s = do {
     (status, u) \<leftarrow> rpc_write rpc uart_id (int n) (tx_port s) (uart_srv s);
     Some (status, s\<lparr>uart_srv := u\<rparr>)
   }"

text \<open>
  The server as the applications reach it: \<open>rx\<close> and \<open>put\<close> are the receive dataport as the serial
  driver leaves it, and what the driver finds in the transmit dataport.
\<close>

definition server_rpc ::
  "uart_ids \<Rightarrow> ('d, 'c) cdriver \<Rightarrow> (('d, 'c) uart_server \<Rightarrow> ('d, 'c) uart_server option) \<Rightarrow>
   ('d \<Rightarrow> u8 list) \<Rightarrow> (u8 list \<Rightarrow> 'd \<Rightarrow> 'd) \<Rightarrow> ('d, 'c) uart_server uart_rpc" where
  "server_rpc ids drv others rx put =
     \<lparr>rpc_read = (\<lambda>uart n s. do {
        (status, s) \<leftarrow> tk1_uart_read ids drv others uart n s;
        Some (status, rx (serial s), s)
      }),
      rpc_write = (\<lambda>uart n tx s.
        tk1_uart_write ids drv others uart n (s\<lparr>serial := put tx (serial s)\<rparr>))\<rparr>"

section \<open>Reading a fixed number of bytes\<close>

text \<open>
  \<^verbatim>\<open>read_fixed_length\<close> of both applications: \<open>off\<close> is where \<^verbatim>\<open>inbuff\<close> points into the static buffer,
  \<open>got\<close> is \<^verbatim>\<open>n_chars_read\<close>. A failed read is tried again.
\<close>

partial_function (option) read_fixed_length ::
  "'u uart_rpc \<Rightarrow> int \<Rightarrow> nat \<Rightarrow> nat \<Rightarrow> nat \<Rightarrow> nat \<Rightarrow> 'u test_app \<Rightarrow> (nat \<times> 'u test_app) option" where
  "read_fixed_length rpc uart_id buffsize n off got s =
     (if got < n then
        Option.bind (app_read rpc uart_id buffsize s) (\<lambda>(status, s).
          if status < 0 then read_fixed_length rpc uart_id buffsize n off got s
          else Option.bind (memcpy (rxdata s) (off + got) (rx_port s) (nat status)) (\<lambda>buf.
            read_fixed_length rpc uart_id buffsize n off (got + nat status) (s\<lparr>rxdata := buf\<rparr>)))
      else Some (got, s))"

section \<open>The echo server\<close>

text \<open>\<^verbatim>\<open>memmove(buf, &buf[src], n)\<close> inside one array.\<close>

definition memmove_down :: "'a list \<Rightarrow> nat \<Rightarrow> nat \<Rightarrow> 'a list option" where
  "memmove_down buf src n = memcpy buf 0 (drop src buf) n"

definition xor_range :: "nat \<Rightarrow> nat \<Rightarrow> u8 list \<Rightarrow> u8 list" where
  "xor_range from n buf = fold (\<lambda>j b. b[j := b ! j XOR TEST_XOR_MAGIC]) [from..<from + n] buf"

fun echo_incrementing_loop ::
  "'u uart_rpc \<Rightarrow> int \<Rightarrow> bool \<Rightarrow> nat list \<Rightarrow> int \<Rightarrow> 'u test_app \<Rightarrow> 'u test_app option" where
  "echo_incrementing_loop rpc uartb do_xor [] buffered s = Some s"
| "echo_incrementing_loop rpc uartb do_xor (i # is) buffered s = do {
     c_assert (0 \<le> buffered);
     (status, s) \<leftarrow> read_fixed_length rpc uartb (N_ITERATIONS * 2) i (nat buffered) 0 s;
     if status < i then echo_incrementing_loop rpc uartb do_xor is buffered s
     else do {
       buf \<leftarrow> array_set (rxdata s) (nat buffered + status) 0;
       let buf = (if do_xor then xor_range (nat buffered) status buf else buf);
       let s = s\<lparr>rxdata := buf\<rparr>;
       let buffered = buffered + int status;
       tx \<leftarrow> memcpy (tx_port s) 0 (rxdata s) i;
       let s = s\<lparr>tx_port := tx\<rparr>;
       (status, s) \<leftarrow> app_write rpc uartb i s;
       if status < 0 then echo_incrementing_loop rpc uartb do_xor is buffered s
       else do {
         buf \<leftarrow> memmove_down (rxdata s) (nat status) (nat status);
         echo_incrementing_loop rpc uartb do_xor is (buffered - status) (s\<lparr>rxdata := buf\<rparr>)
       }
     }
   }"

definition server_echo_incrementing ::
  "'u uart_rpc \<Rightarrow> int \<Rightarrow> nat \<Rightarrow> bool \<Rightarrow> 'u test_app \<Rightarrow> 'u test_app option" where
  "server_echo_incrementing rpc uartb n_iterations do_xor s =
     echo_incrementing_loop rpc uartb do_xor [1..<n_iterations + 1] 0
       (s\<lparr>rxdata := replicate (N_ITERATIONS * 2) 0\<rparr>)"

definition fleas_poem :: "u8 list" where
  "fleas_poem = map of_char
     (''Big fleas have little fleas'' @ [CHR 0x0A] @ ''Upon their back to bite 'em;'' @ [CHR 0x0A] @
      ''And little fleas have smaller fleas'' @ [CHR 0x0A] @ ''And so on ad infinitum.'' @ [CHR 0x0A])"

definition server_echo_once ::
  "'u uart_rpc \<Rightarrow> int \<Rightarrow> bool \<Rightarrow> bool \<Rightarrow> 'u test_app \<Rightarrow> 'u test_app option" where
  "server_echo_once rpc uartb do_xor do_poem s = do {
     (status, s) \<leftarrow> app_read rpc uartb (N_ITERATIONS * 2) s;
     if status < 0 then Some s
     else do {
       buf \<leftarrow> memcpy (rxdata s) 0 (rx_port s) (nat status);
       buf \<leftarrow> array_set buf (nat status) 0;
       let s = s\<lparr>rxdata := buf\<rparr>;
       let n_bytes_to_write = (if \<not> do_poem then nat status else length fleas_poem);
       tx \<leftarrow> memcpy (tx_port s) 0 (if \<not> do_poem then rx_port s else fleas_poem) n_bytes_to_write;
       let s = s\<lparr>tx_port := (if do_xor then xor_range 0 n_bytes_to_write tx else tx)\<rparr>;
       (status, s) \<leftarrow> app_write rpc uartb n_bytes_to_write s;
       Some s
     }
   }"

text \<open>The command loop: the characters of one read, up to a restart.\<close>

fun scan_commands :: "u8 list \<Rightarrow> int \<Rightarrow> int \<times> bool" where
  "scan_commands [] server_behaviour = (server_behaviour, False)"
| "scan_commands (c # cs) server_behaviour =
     (if c = SERVER_RESTART_CHAR then (server_behaviour, True)
      else if c = SERVER_NEW_BEHAVIOUR_CHAR0 then scan_commands cs 0
      else if c = SERVER_NEW_BEHAVIOUR_CHAR1 then scan_commands cs 1
      else if c = SERVER_NEW_BEHAVIOUR_CHAR2 then scan_commands cs 2
      else scan_commands cs server_behaviour)"

partial_function (option) command_loop ::
  "'u uart_rpc \<Rightarrow> int \<Rightarrow> int \<Rightarrow> 'u test_app \<Rightarrow> (int \<times> 'u test_app) option" where
  "command_loop rpc uartb server_behaviour s =
     Option.bind (app_read rpc uartb (N_ITERATIONS * 2) s) (\<lambda>(status, s).
       if status < 0 then command_loop rpc uartb server_behaviour s
       else Option.bind (c_assert (nat status \<le> length (rx_port s))) (\<lambda>_.
         if snd (scan_commands (take (nat status) (rx_port s)) server_behaviour)
         then Some (fst (scan_commands (take (nat status) (rx_port s)) server_behaviour), s)
         else command_loop rpc uartb
                (fst (scan_commands (take (nat status) (rx_port s)) server_behaviour)) s))"

fun echo_times :: "'u uart_rpc \<Rightarrow> int \<Rightarrow> nat \<Rightarrow> 'u test_app \<Rightarrow> 'u test_app option" where
  "echo_times rpc uartb 0 s = Some s"
| "echo_times rpc uartb (Suc n) s = do {
     s \<leftarrow> server_echo_once rpc uartb False False s;
     echo_times rpc uartb n s
   }"

text \<open>One turn of the outer loop of \<^verbatim>\<open>run\<close>, and \<^verbatim>\<open>run\<close> itself.\<close>

definition server_turn :: "'u uart_rpc \<Rightarrow> int \<Rightarrow> int \<Rightarrow> 'u test_app \<Rightarrow> (int \<times> 'u test_app) option" where
  "server_turn rpc uartb server_behaviour s = do {
     s \<leftarrow> (if server_behaviour = 0 then server_echo_incrementing rpc uartb N_ITERATIONS True s
          else if server_behaviour = 1 then server_echo_once rpc uartb False True s
          else if server_behaviour = 2 then echo_times rpc uartb N_ITERATIONS s
          else Some s);
     command_loop rpc uartb server_behaviour s
   }"

partial_function (option) server_run ::
  "'u uart_rpc \<Rightarrow> int \<Rightarrow> int \<Rightarrow> 'u test_app \<Rightarrow> int option" where
  "server_run rpc uartb server_behaviour s =
     Option.bind (server_turn rpc uartb server_behaviour s) (\<lambda>(b, s). server_run rpc uartb b s)"

section \<open>The client\<close>

fun fill_tx :: "nat list \<Rightarrow> u8 list \<Rightarrow> u8 list option" where
  "fill_tx [] tx = Some tx"
| "fill_tx (j # js) tx = do { tx \<leftarrow> array_set tx j 0x55; fill_tx js tx }"

text \<open>Its own \<^verbatim>\<open>read_fixed_length\<close> is that of the server, always into the start of its buffer.\<close>

definition client_read_fixed_length ::
  "'u uart_rpc \<Rightarrow> int \<Rightarrow> nat \<Rightarrow> nat \<Rightarrow> 'u test_app \<Rightarrow> (nat \<times> 'u test_app) option" where
  "client_read_fixed_length rpc uart_id buffsize n s = read_fixed_length rpc uart_id buffsize n 0 0 s"

fun check_lowercase :: "nat list \<Rightarrow> u8 list \<Rightarrow> int \<Rightarrow> int option" where
  "check_lowercase [] buf ret = Some ret"
| "check_lowercase (j # js) buf ret = do {
     c \<leftarrow> array_get buf j;
     check_lowercase js buf (if c < 0x61 \<or> 0x7A < c then -1 else ret)
   }"

text \<open>
  \<open>resp\<close> and \<open>chk\<close> are the constants \<^verbatim>\<open>CONFIG_TEST_READ_RESPONSE\<close>, true in the source, and
  \<^verbatim>\<open>CONFIG_TEST_CHECK_RESPONSE_XOR\<close>, false. The delay loop of the other case has no effect on the state.
\<close>

fun client_loop ::
  "bool \<Rightarrow> bool \<Rightarrow> 'u uart_rpc \<Rightarrow> int \<Rightarrow> nat list \<Rightarrow> int \<Rightarrow> 'u test_app \<Rightarrow> (int \<times> 'u test_app) option" where
  "client_loop resp chk rpc uartb [] ret s = Some (ret, s)"
| "client_loop resp chk rpc uartb (i # is) ret s = do {
     tx \<leftarrow> fill_tx [0..<i] (tx_port s);
     (status, s) \<leftarrow> app_write rpc uartb i (s\<lparr>tx_port := tx\<rparr>);
     if status < int i then client_loop resp chk rpc uartb is ret s
     else if resp then do {
       (n, s) \<leftarrow> client_read_fixed_length rpc uartb (N_ITERATIONS * 2) i s;
       if int n < 0 then client_loop resp chk rpc uartb is (-1) s
       else do {
         buf \<leftarrow> array_set (rxdata s) n 0;
         let s = s\<lparr>rxdata := buf\<rparr>;
         ret \<leftarrow> (if chk then check_lowercase [0..<i] (rxdata s) ret else Some ret);
         client_loop resp chk rpc uartb is ret s
       }
     } else client_loop resp chk rpc uartb is ret s
   }"

definition client_run ::
  "bool \<Rightarrow> bool \<Rightarrow> 'u uart_rpc \<Rightarrow> int \<Rightarrow> 'u test_app \<Rightarrow> (int \<times> 'u test_app) option" where
  "client_run resp chk rpc uartb s =
     client_loop resp chk rpc uartb [1..<N_ITERATIONS + 1] 0 (s\<lparr>rxdata := replicate (N_ITERATIONS * 2) 0\<rparr>)"

end
