(* ===== verification/Uart_Apps_Laws.thy ===== *)
theory Uart_Apps_Laws
  imports Uart_Apps
begin

text \<open>
  What the UART test applications do on a serial line. The line is a contract (locale
  \<open>serial_line\<close>): the reads deliver a given sequence of failures and chunks of bytes, the writes send
  what they are given. The lemmas about the applications are proved under it, and the last section
  proves that the model of \<^verbatim>\<open>tk1_uart.c\<close> provides it.
\<close>

section \<open>The serial line\<close>

locale serial_line =
  fixes rpc :: "'u uart_rpc"
    and uart :: int
    and ready :: "'u \<Rightarrow> bool"
    and inp :: "'u \<Rightarrow> (int + u8 list) list"
    and outp :: "'u \<Rightarrow> u8 list"
  assumes read_fails: "ready u \<Longrightarrow> inp u = Inl e # evs \<Longrightarrow>
      \<exists>rx u'. rpc_read rpc uart (int (N_ITERATIONS * 2)) u = Some (e, rx, u') \<and> e < 0 \<and>
        ready u' \<and> inp u' = evs \<and> outp u' = outp u"
    and read_delivers: "ready u \<Longrightarrow> inp u = Inr c # evs \<Longrightarrow>
      \<exists>rx u'. rpc_read rpc uart (int (N_ITERATIONS * 2)) u = Some (int (length c), c @ rx, u') \<and>
        ready u' \<and> inp u' = evs \<and> outp u' = outp u"
    and write_sends: "ready u \<Longrightarrow> 0 < n \<Longrightarrow> n \<le> length tx \<Longrightarrow>
      \<exists>u'. rpc_write rpc uart (int n) tx u = Some (int n, u') \<and>
        ready u' \<and> inp u' = inp u \<and> outp u' = outp u @ take n tx"

text \<open>The bytes of the line, and what a read of at least \<open>n\<close> bytes takes from it.\<close>

fun line_bytes :: "(int + u8 list) list \<Rightarrow> u8 list" where
  "line_bytes [] = []"
| "line_bytes (Inl e # evs) = line_bytes evs"
| "line_bytes (Inr c # evs) = c @ line_bytes evs"

fun gather :: "nat \<Rightarrow> nat \<Rightarrow> (int + u8 list) list \<Rightarrow> (u8 list \<times> (int + u8 list) list) option" where
  "gather n got evs =
     (if n \<le> got then Some ([], evs)
      else case evs of
        [] \<Rightarrow> None
      | Inl e # evs \<Rightarrow> gather n got evs
      | Inr c # evs \<Rightarrow> map_option (\<lambda>(d, r). (c @ d, r)) (gather n (got + length c) evs))"

declare gather.simps [simp del]

lemma gather_bytes:
  "gather n got evs = Some (d, r) \<Longrightarrow> line_bytes evs = d @ line_bytes r \<and> n \<le> got + length d"
proof (induction n got evs arbitrary: d rule: gather.induct)
  case (1 n got evs)
  show ?case
  proof (cases "n \<le> got")
    case True
    with 1 show ?thesis by (simp add: gather.simps)
  next
    case False
    with 1 show ?thesis
      by (cases evs rule: line_bytes.cases) (fastforce simp: gather.simps [of n got] add.assoc)+
  qed
qed

section \<open>The echo\<close>

definition echo_byte :: "bool \<Rightarrow> u8 \<Rightarrow> u8" where
  "echo_byte do_xor c = (if do_xor then c XOR TEST_XOR_MAGIC else c)"

lemma len_moved: "2 * i \<le> length y \<Longrightarrow> length (take i (drop i y) @ drop i y) = length y"
  by simp

lemma xor_range_nth:
  "from + n \<le> length buf \<Longrightarrow> length (xor_range from n buf) = length buf \<and>
   (\<forall>j < length buf. xor_range from n buf ! j =
      (if from \<le> j \<and> j < from + n then echo_byte True (buf ! j) else buf ! j))"
proof (induction n)
  case 0
  then show ?case by (auto simp: xor_range_def)
next
  case (Suc n)
  have "xor_range from (Suc n) buf =
      (xor_range from n buf)[from + n := xor_range from n buf ! (from + n) XOR TEST_XOR_MAGIC]"
    by (simp add: xor_range_def)
  with Suc show ?case
    by (simp add: nth_list_update echo_byte_def)
qed

lemma xor_range_eq:
  "from + n \<le> length buf \<Longrightarrow>
   xor_range from n buf = take from buf @ map (echo_byte True) (take n (drop from buf)) @ drop (from + n) buf"
  using xor_range_nth [of "from" n buf]
  by (intro nth_equalityI) (simp_all add: nth_append, linarith)

text \<open>The pace of the client: every answer fits its buffer with a final zero.\<close>

fun answered :: "nat list \<Rightarrow> (int + u8 list) list \<Rightarrow> bool" where
  "answered [] evs \<longleftrightarrow> True"
| "answered (i # is) evs \<longleftrightarrow> (case gather i 0 evs of
     None \<Rightarrow> False
   | Some (d, evs) \<Rightarrow> length d < N_ITERATIONS * 2 \<and> answered is evs)"

text \<open>What its check looks for: the first \<open>i\<close> bytes of the \<open>i\<close>-th answer are lower-case letters.\<close>

definition lower :: "u8 \<Rightarrow> bool" where
  "lower c \<longleftrightarrow> 0x61 \<le> c \<and> c \<le> 0x7A"

fun all_lower :: "nat list \<Rightarrow> (int + u8 list) list \<Rightarrow> bool" where
  "all_lower [] evs \<longleftrightarrow> True"
| "all_lower (i # is) evs \<longleftrightarrow> (case gather i 0 evs of
     None \<Rightarrow> False
   | Some (d, evs) \<Rightarrow> (\<forall>j < i. lower (d ! j)) \<and> all_lower is evs)"

text \<open>The commands on a line: the last selection before the first restart character.\<close>

fun commands :: "(int + u8 list) list \<Rightarrow> int \<Rightarrow> (int \<times> (int + u8 list) list) option" where
  "commands [] b = None"
| "commands (Inl e # evs) b = commands evs b"
| "commands (Inr c # evs) b =
     (case scan_commands c b of (b', restart) \<Rightarrow> if restart then Some (b', evs) else commands evs b')"

definition selected :: "u8 list \<Rightarrow> int \<Rightarrow> int" where
  "selected cs b = fold (\<lambda>c b. if c = SERVER_NEW_BEHAVIOUR_CHAR0 then 0
     else if c = SERVER_NEW_BEHAVIOUR_CHAR1 then 1
     else if c = SERVER_NEW_BEHAVIOUR_CHAR2 then 2 else b) cs b"

lemma scan_commands_eq:
  "scan_commands cs b = (selected (takeWhile (\<lambda>c. c \<noteq> SERVER_RESTART_CHAR) cs) b, SERVER_RESTART_CHAR \<in> set cs)"
  by (induction cs arbitrary: b) (auto simp: selected_def)

lemma selected_append: "selected (cs @ ds) b = selected ds (selected cs b)"
  by (simp add: selected_def)

lemma commands_eq:
  "commands evs b = Some (b', r) \<Longrightarrow>
   b' = selected (takeWhile (\<lambda>c. c \<noteq> SERVER_RESTART_CHAR) (line_bytes evs)) b \<and>
   SERVER_RESTART_CHAR \<in> set (line_bytes evs)"
proof (induction evs b rule: commands.induct)
  case (3 c evs b)
  show ?case
  proof (cases "SERVER_RESTART_CHAR \<in> set c")
    case True
    with 3 show ?thesis by (auto simp: scan_commands_eq takeWhile_append)
  next
    case False
    then have "takeWhile (\<lambda>c. c \<noteq> SERVER_RESTART_CHAR) c = c" by (auto simp: takeWhile_eq_all_conv)
    with False 3 show ?thesis by (auto simp: scan_commands_eq takeWhile_append selected_append)
  qed
qed simp_all

lemma fill_tx_append: "fill_tx (js @ ks) tx = Option.bind (fill_tx js tx) (fill_tx ks)"
  by (induction js arbitrary: tx) (auto split: Option.bind_split)

lemma fill_tx_eq: "i \<le> length tx \<Longrightarrow> fill_tx [0..<i] tx = Some (replicate i 0x55 @ drop i tx)"
proof (induction i)
  case 0
  then show ?case by simp
next
  case (Suc i)
  then have "drop i tx \<noteq> []" by simp
  with Suc show ?case
    by (simp add: fill_tx_append list_update_append replicate_append_same drop_Suc tl_drop
        upd_conv_take_nth_drop)
qed

text \<open>
  The pace at which the echo server keeps up: no iteration buffers more than the static buffer takes,
  nor leaves over more than the \<open>i\<close> bytes that its \<^verbatim>\<open>memmove\<close> keeps.
\<close>

fun paced :: "nat list \<Rightarrow> nat \<Rightarrow> (int + u8 list) list \<Rightarrow> bool" where
  "paced [] k evs \<longleftrightarrow> True"
| "paced (i # is) k evs \<longleftrightarrow> (case gather i 0 evs of
     None \<Rightarrow> False
   | Some (d, evs) \<Rightarrow> k + length d < N_ITERATIONS * 2 \<and> k + length d \<le> 2 * i \<and> paced is (k + length d - i) evs)"

context serial_line
begin

lemma read_fixed_length_gathers:
  assumes "ready (uart_srv s)" "inp (uart_srv s) = evs" "gather n got evs = Some (d, r)"
    "off + got \<le> length (rxdata s)"
  shows "if off + got + length d \<le> length (rxdata s)
    then \<exists>rx u. read_fixed_length rpc uart (N_ITERATIONS * 2) n off got s = Some (got + length d,
        s\<lparr>rx_port := rx, uart_srv := u,
          rxdata := take (off + got) (rxdata s) @ d @ drop (off + got + length d) (rxdata s)\<rparr>) \<and>
      ready u \<and> inp u = r \<and> outp u = outp (uart_srv s)
    else read_fixed_length rpc uart (N_ITERATIONS * 2) n off got s = None"
  using assms
proof (induction n got evs arbitrary: s d rule: gather.induct)
  case (1 n got evs)
  note rdy = 1(3) and now = 1(4) and gat = 1(5) and room = 1(6)
  show ?case
  proof (cases "n \<le> got")
    case True
    with 1 show ?thesis
      by (subst (1 2) read_fixed_length.simps)
        (auto simp: gather.simps intro!: exI [of _ "rx_port s"] exI [of _ "uart_srv s"])
  next
    case False
    with gat obtain e evs' where evs: "evs = e # evs'"
      by (cases evs) (auto simp: gather.simps)
    show ?thesis
    proof (cases e)
      case (Inl err)
      obtain rx u where u: "rpc_read rpc uart (int (N_ITERATIONS * 2)) (uart_srv s) = Some (err, rx, u)"
          "err < 0" "ready u" "inp u = evs'" "outp u = outp (uart_srv s)"
        using read_fails [OF rdy] now evs Inl by blast
      let ?s = "s\<lparr>rx_port := rx, uart_srv := u\<rparr>"
      have "gather n got evs' = Some (d, r)"
        using gat evs Inl False by (simp add: gather.simps [of n got "_ # _"])
      moreover have step: "read_fixed_length rpc uart (N_ITERATIONS * 2) n off got s =
          read_fixed_length rpc uart (N_ITERATIONS * 2) n off got ?s"
        by (subst read_fixed_length.simps) (use False u in \<open>simp add: app_read_def\<close>)
      ultimately show ?thesis
        unfolding step
        using 1(1) [OF False evs Inl, of ?s d] u room by (auto split: if_splits)
    next
      case (Inr c)
      obtain rx u where u: "rpc_read rpc uart (int (N_ITERATIONS * 2)) (uart_srv s) =
          Some (int (length c), c @ rx, u)" "ready u" "inp u = evs'" "outp u = outp (uart_srv s)"
        using read_delivers [OF rdy] now evs Inr by blast
      obtain d' where d: "d = c @ d'" "gather n (got + length c) evs' = Some (d', r)"
        using gat evs Inr False by (auto simp: gather.simps [of n got])
      show ?thesis
      proof (cases "off + got + length c \<le> length (rxdata s)")
        case True
        let ?s = "s\<lparr>rx_port := c @ rx, uart_srv := u,
          rxdata := take (off + got) (rxdata s) @ c @ drop (off + got + length c) (rxdata s)\<rparr>"
        have step: "read_fixed_length rpc uart (N_ITERATIONS * 2) n off got s =
            read_fixed_length rpc uart (N_ITERATIONS * 2) n off (got + length c) ?s"
          by (subst read_fixed_length.simps) (use False u True in \<open>simp add: app_read_def\<close>)
        have len: "length (rxdata ?s) = length (rxdata s)" using True by simp
        show ?thesis
          unfolding step
          using 1(2) [OF False evs Inr, of ?s d'] u d True room len
          by (auto split: if_splits simp: ac_simps)
      next
        case out: False
        have "read_fixed_length rpc uart (N_ITERATIONS * 2) n off got s = None"
          by (subst read_fixed_length.simps) (use False u out in \<open>simp add: app_read_def memcpy_out\<close>)
        with out d show ?thesis by simp
      qed
    qed
  qed
qed

text \<open>One iteration of the echo, with \<open>left\<close> what the earlier ones left in the buffer.\<close>

lemma echo_iteration:
  assumes "ready (uart_srv s)" "inp (uart_srv s) = evs" "gather i 0 evs = Some (d, r)"
    "length left + length d < N_ITERATIONS * 2"
    "length (rxdata s) = N_ITERATIONS * 2" "take (length left) (rxdata s) = left"
    "0 < i" "i \<le> N_ITERATIONS" "i \<le> length (tx_port s)"
    and b: "left @ map (echo_byte do_xor) d = b"
  shows "\<exists>s' z. echo_incrementing_loop rpc uart do_xor (i # is) (int (length left)) s =
      echo_incrementing_loop rpc uart do_xor is (int (length left + length d - i)) s' \<and>
    ready (uart_srv s') \<and> inp (uart_srv s') = r \<and> length (tx_port s') = length (tx_port s) \<and>
    outp (uart_srv s') = outp (uart_srv s) @ take i b \<and>
    length (rxdata s') = N_ITERATIONS * 2 \<and>
    rxdata s' = take i (drop i (b @ z)) @ drop i (b @ z)"
proof -
  let ?f = "map (echo_byte do_xor)" and ?k = "length left"
  have id: "i \<le> length d" using gather_bytes [OF assms(3)] by simp
  obtain rx u where rd: "read_fixed_length rpc uart (N_ITERATIONS * 2) i ?k 0 s = Some (length d,
      s\<lparr>rx_port := rx, uart_srv := u, rxdata := left @ d @ drop (?k + length d) (rxdata s)\<rparr>)"
      "ready u" "inp u = r" "outp u = outp (uart_srv s)"
    using read_fixed_length_gathers [OF assms(1-3), of ?k] assms(4-6) by auto
  obtain z where z: "drop (?k + length d) (rxdata s) = z" "length z = N_ITERATIONS * 2 - (?k + length d)"
    using assms(5) by simp
  let ?z = "z[0 := 0]"
  have bl: "length b = ?k + length d" using b by auto
  have zn: "(left @ d @ z)[?k + length d := 0] = left @ d @ ?z"
    by (simp add: list_update_append)
  have xr: "(if do_xor then xor_range ?k (length d) (left @ d @ ?z) else left @ d @ ?z) = b @ ?z"
    using xor_range_eq [of ?k "length d" "left @ d @ ?z"]
    unfolding b [symmetric] by (auto simp: echo_byte_def cong: map_cong)
  let ?tx = "take i b @ drop i (tx_port s)"
  have ib: "i \<le> length b" using bl id by simp
  then have tx: "i \<le> length ?tx" "take i ?tx = take i b" using assms(9) by simp_all
  obtain u' where wr: "rpc_write rpc uart (int i) ?tx u = Some (int i, u')"
      "ready u'" "inp u' = r" "outp u' = outp (uart_srv s) @ take i b"
    using write_sends [OF rd(2) assms(7) tx(1)] rd(3,4) unfolding tx(2) by auto
  let ?m = "take i (drop i (b @ ?z)) @ drop i (b @ ?z)"
  let ?s = "s\<lparr>rx_port := rx, tx_port := ?tx, uart_srv := u', rxdata := ?m\<rparr>"
  have step: "echo_incrementing_loop rpc uart do_xor (i # is) (int ?k) s =
      echo_incrementing_loop rpc uart do_xor is (int (?k + length d - i)) ?s"
  proof (cases do_xor)
    case True
    then show ?thesis
      using rd(1) z zn xr wr(1) id bl assms(4,7-9) ib
      by (simp add: app_write_def memmove_down_def Let_def of_nat_diff)
  next
    case False
    then have lb: "left @ d @ y = b @ y" for y
      using b by (simp add: echo_byte_def [abs_def])
    with False show ?thesis
      using rd(1) z zn wr(1) id bl assms(4,7-9) ib
      by (simp add: lb app_write_def memmove_down_def Let_def of_nat_diff)
  qed
  have all: "length (b @ ?z) = N_ITERATIONS * 2" using bl z(2) assms(4) by simp
  have "length ?m = length (b @ ?z)" by (rule len_moved) (use all assms(8) in linarith)
  moreover have m: "rxdata ?s = ?m" by simp
  ultimately have "length (rxdata ?s) = N_ITERATIONS * 2" using all by (simp only:)
  moreover have "length (tx_port ?s) = length (tx_port s)" using ib assms(9) by simp
  moreover have "ready (uart_srv ?s)" "inp (uart_srv ?s) = r" "outp (uart_srv ?s) = outp (uart_srv s) @ take i b"
    using wr(2-4) by simp_all
  ultimately show ?thesis
    using step m by blast
qed

lemma echo_loop_streams:
  assumes "ready (uart_srv s)" "inp (uart_srv s) = evs" "paced is (length left) evs"
    "length (rxdata s) = N_ITERATIONS * 2" "take (length left) (rxdata s) = left"
    "\<And>i. i \<in> set is \<Longrightarrow> 0 < i \<and> i \<le> N_ITERATIONS \<and> i \<le> length (tx_port s)"
  shows "\<exists>s'. echo_incrementing_loop rpc uart do_xor is (int (length left)) s = Some s' \<and>
    ready (uart_srv s') \<and> outp (uart_srv s') = outp (uart_srv s) @
      take (sum_list is) (left @ map (echo_byte do_xor) (line_bytes evs))"
  using assms
proof (induction "is" arbitrary: s left evs)
  case Nil
  then show ?case by simp
next
  case (Cons i "is")
  let ?f = "map (echo_byte do_xor)" and ?k = "length left"
  have i: "0 < i" "i \<le> N_ITERATIONS" "i \<le> length (tx_port s)" using Cons.prems(6) by auto
  obtain d r where g: "gather i 0 evs = Some (d, r)" "?k + length d < N_ITERATIONS * 2"
      "?k + length d \<le> 2 * i" "paced is (?k + length d - i) r"
    using Cons.prems(3) by (auto split: option.splits)
  have d: "line_bytes evs = d @ line_bytes r" "i \<le> length d"
    using gather_bytes [OF g(1)] by auto
  obtain b where b: "left @ ?f d = b" "length b = ?k + length d" by simp
  obtain s' z where s': "echo_incrementing_loop rpc uart do_xor (i # is) (int ?k) s =
      echo_incrementing_loop rpc uart do_xor is (int (?k + length d - i)) s'"
      "ready (uart_srv s')" "inp (uart_srv s') = r" "length (tx_port s') = length (tx_port s)"
      "outp (uart_srv s') = outp (uart_srv s) @ take i b" "length (rxdata s') = N_ITERATIONS * 2"
      "rxdata s' = take i (drop i (b @ z)) @ drop i (b @ z)"
    using echo_iteration [OF Cons.prems(1,2) g(1,2) Cons.prems(4,5) i b(1), of "is"] by blast
  have len: "length (drop i b) = ?k + length d - i" using b(2) by simp
  have "take (length (drop i b)) (rxdata s') = drop i b"
    unfolding s'(7) using g(3) d(2) b(2) by simp
  with Cons.IH [of s' r "drop i b"] s'(2-4,6) g(4) Cons.prems(6) len
  obtain s'' where s'': "echo_incrementing_loop rpc uart do_xor is (int (?k + length d - i)) s' = Some s''"
      "ready (uart_srv s'')" "outp (uart_srv s'') = outp (uart_srv s') @
        take (sum_list is) (drop i b @ ?f (line_bytes r))"
    by auto
  moreover have "take i b @ take (sum_list is) (drop i b @ ?f (line_bytes r)) =
      take (sum_list (i # is)) (left @ ?f (line_bytes evs))"
  proof -
    have "i \<le> length b" using d(2) b(2) by simp
    then show ?thesis
      unfolding d(1) map_append append_assoc [symmetric] b(1) by (simp add: take_add ac_simps)
  qed
  ultimately show ?case
    using s'(1,5) by auto
qed

lemma check_lowercase_eq:
  "\<forall>j \<in> set js. j < length buf \<Longrightarrow> check_lowercase js buf ret =
     Some (if \<forall>j \<in> set js. lower (buf ! j) then ret else -1)"
  by (induction js arbitrary: ret) (auto simp: lower_def not_less)

lemma client_loop_ramps:
  assumes "ready (uart_srv s)" "inp (uart_srv s) = evs" "answered is evs"
    "length (rxdata s) = N_ITERATIONS * 2"
    "\<And>i. i \<in> set is \<Longrightarrow> 0 < i \<and> i \<le> length (tx_port s)"
  shows "\<exists>s'. client_loop True chk rpc uart is ret s =
      Some (if chk \<and> \<not> all_lower is evs then -1 else ret, s') \<and> ready (uart_srv s') \<and>
    outp (uart_srv s') = outp (uart_srv s) @ replicate (sum_list is) 0x55"
  using assms
proof (induction "is" arbitrary: s evs ret)
  case Nil
  then show ?case by simp
next
  case (Cons i "is")
  have i: "0 < i" "i \<le> length (tx_port s)" using Cons.prems(5) by auto
  let ?tx = "replicate i 0x55 @ drop i (tx_port s)"
  have fill: "fill_tx [0..<i] (tx_port s) = Some ?tx" using fill_tx_eq [OF i(2)] .
  obtain u where wr: "rpc_write rpc uart (int i) ?tx (uart_srv s) = Some (int i, u)" "ready u"
      "inp u = evs" "outp u = outp (uart_srv s) @ replicate i 0x55"
    using write_sends [OF Cons.prems(1) i(1), of ?tx] Cons.prems(2) i by auto
  obtain d r where g: "gather i 0 evs = Some (d, r)" "length d < N_ITERATIONS * 2" "answered is r"
    using Cons.prems(3) by (auto split: option.splits)
  let ?s1 = "s\<lparr>tx_port := ?tx, uart_srv := u\<rparr>"
  obtain rx u' where rd: "read_fixed_length rpc uart (N_ITERATIONS * 2) i 0 0 ?s1 = Some (length d,
      ?s1\<lparr>rx_port := rx, uart_srv := u', rxdata := d @ drop (length d) (rxdata s)\<rparr>)"
      "ready u'" "inp u' = r" "outp u' = outp u"
    using read_fixed_length_gathers [of ?s1 evs i 0 d r 0] wr(2,3) g(1,2) Cons.prems(4) by auto
  let ?s2 = "?s1\<lparr>rx_port := rx, uart_srv := u', rxdata := (d @ drop (length d) (rxdata s))[length d := 0]\<rparr>"
  let ?low = "\<forall>j < i. lower (d ! j)"
  let ?ret = "if chk \<and> \<not> ?low then -1 else ret"
  have len: "i \<le> length d" using gather_bytes [OF g(1)] by simp
  then have "check_lowercase [0..<i] (rxdata ?s2) ret = Some (if ?low then ret else -1)"
    using Cons.prems(4) g(2) by (subst check_lowercase_eq) (auto simp: nth_append)
  then have step: "client_loop True chk rpc uart (i # is) ret s = client_loop True chk rpc uart is ?ret ?s2"
    using fill wr(1) rd(1) g(2) Cons.prems(4)
    by (auto simp add: app_write_def client_read_fixed_length_def Let_def simp del: upt_Suc check_lowercase.simps)
  have "\<exists>s'. client_loop True chk rpc uart is ?ret ?s2 = Some (if chk \<and> \<not> all_lower is r then -1 else ?ret, s') \<and> ready (uart_srv s') \<and>
      outp (uart_srv s') = outp (uart_srv ?s2) @ replicate (sum_list is) 0x55"
    by (rule Cons.IH [of _ r]) (use rd(2,3) g(2,3) Cons.prems(4,5) i in auto)
  then show ?case
    unfolding step using rd(4) wr(4) g(1) by (auto simp: replicate_add split: if_splits)
qed

lemma command_loop_selects:
  assumes "ready (uart_srv s)" "inp (uart_srv s) = evs" "commands evs b = Some (b', r)"
  shows "\<exists>s'. command_loop rpc uart b s = Some (b', s') \<and> ready (uart_srv s') \<and> inp (uart_srv s') = r \<and>
    outp (uart_srv s') = outp (uart_srv s)"
  using assms
proof (induction evs b arbitrary: s rule: commands.induct)
  case (1 b)
  then show ?case by simp
next
  case (2 e evs b)
  obtain rx u where u: "rpc_read rpc uart (int (N_ITERATIONS * 2)) (uart_srv s) = Some (e, rx, u)"
      "e < 0" "ready u" "inp u = evs" "outp u = outp (uart_srv s)"
    using read_fails [OF 2(2,3)] by blast
  have "command_loop rpc uart b s = command_loop rpc uart b (s\<lparr>rx_port := rx, uart_srv := u\<rparr>)"
    by (subst command_loop.simps) (use u in \<open>simp add: app_read_def\<close>)
  with 2(1) [of "s\<lparr>rx_port := rx, uart_srv := u\<rparr>"] 2(4) u show ?case by simp
next
  case (3 c evs b)
  obtain rx u where u: "rpc_read rpc uart (int (N_ITERATIONS * 2)) (uart_srv s) = Some (int (length c), c @ rx, u)"
      "ready u" "inp u = evs" "outp u = outp (uart_srv s)"
    using read_delivers [OF 3(2,3)] by blast
  let ?s = "s\<lparr>rx_port := c @ rx, uart_srv := u\<rparr>"
  have "command_loop rpc uart b s = (if snd (scan_commands c b) then Some (fst (scan_commands c b), ?s)
      else command_loop rpc uart (fst (scan_commands c b)) ?s)"
    by (subst command_loop.simps) (use u in \<open>simp add: app_read_def\<close>)
  with 3(1) [of _ _ ?s] 3(4) u show ?case
    by (auto split: prod.splits if_splits)
qed

end

section \<open>Properties of the applications\<close>

text \<open>
  On a serial line, a read of at least \<open>n\<close> bytes tries failed reads again, stops at the first
  read that completes \<open>n\<close> bytes, and leaves all the bytes read, in order, in the buffer; when they
  are more than the buffer takes, which the size asked for does not prevent, the code writes past it.
\<close>

theorem read_fixed_length_reads:
  assumes "serial_line rpc uart ready inp outp" "ready (uart_srv s)"
    "gather n 0 (inp (uart_srv s)) = Some (d, evs)" "off \<le> length (rxdata s)"
  shows "n \<le> length d \<and> line_bytes (inp (uart_srv s)) = d @ line_bytes evs \<and>
    (if off + length d \<le> length (rxdata s)
     then ok (read_fixed_length rpc uart (N_ITERATIONS * 2) n off 0 s) (\<lambda>(got, s').
       got = length d \<and> take (length d) (drop off (rxdata s')) = d \<and>
       take off (rxdata s') = take off (rxdata s) \<and> inp (uart_srv s') = evs)
     else read_fixed_length rpc uart (N_ITERATIONS * 2) n off 0 s = None)"
  using serial_line.read_fixed_length_gathers [OF assms(1,2) refl assms(3), of off]
    gather_bytes [OF assms(3)] assms(4)
  by (auto simp: ok_def split: if_splits)

text \<open>
  C22: As long as the pace is kept, the echo server returns and has sent the bytes it received, each
  with the case bit flipped if asked to, in order and without loss, in iterations of 1, 2, 3 ...
  bytes, however the line cut them into reads.
\<close>

theorem echo_server_streams:
  assumes "serial_line rpc uart ready inp outp" "ready (uart_srv s)"
    "paced [1..<n + 1] 0 (inp (uart_srv s))" "n \<le> N_ITERATIONS" "N_ITERATIONS \<le> length (tx_port s)"
  shows "ok (server_echo_incrementing rpc uart n do_xor s) (\<lambda>s'. outp (uart_srv s') =
    outp (uart_srv s) @ map (echo_byte do_xor) (take (\<Sum>{1..n}) (line_bytes (inp (uart_srv s)))))"
proof -
  have "sum_list [1..<n + 1] = \<Sum>{1..n}"
    by (simp only: distinct_sum_list_conv_Sum distinct_upt set_upt Suc_eq_plus1 [symmetric]
        atLeastLessThanSuc_atLeastAtMost)
  then show ?thesis
    using serial_line.echo_loop_streams [OF assms(1), of "s\<lparr>rxdata := replicate (N_ITERATIONS * 2) 0\<rparr>"
        "inp (uart_srv s)" "[1..<n + 1]" "[]" do_xor] assms
    by (auto simp: server_echo_incrementing_def ok_def take_map simp del: upt_Suc)
qed

text \<open>
  A burst of more than two bytes in the first read loses data: the \<^verbatim>\<open>memmove\<close> keeps as many
  bytes as were sent, not as many as are left over, so that the second iteration sends the second byte
  twice and drops the third.
\<close>

theorem echo_burst_loses_a_byte:
  assumes "serial_line rpc uart ready inp outp" "ready (uart_srv s)"
    "gather 1 0 (inp (uart_srv s)) = Some (a # b # c # d, r)" "gather 2 0 r = Some (e, r')"
    "length d + length e < N_ITERATIONS * 2 - 3" "N_ITERATIONS \<le> length (tx_port s)"
  shows "ok (server_echo_incrementing rpc uart 2 False s) (\<lambda>s'. outp (uart_srv s') = outp (uart_srv s) @ [a, b, b])"
proof -
  let ?s0 = "s\<lparr>rxdata := replicate (N_ITERATIONS * 2) 0\<rparr>"
  have id: "echo_byte False x = x" "map (echo_byte False) xs = xs" for x xs
    by (simp_all add: echo_byte_def [abs_def])
  note turn = serial_line.echo_iteration [OF assms(1)]
  obtain s1 z where s1: "echo_incrementing_loop rpc uart False [1, 2] 0 ?s0 =
      echo_incrementing_loop rpc uart False [2] (int (length d + 2)) s1"
      "ready (uart_srv s1)" "inp (uart_srv s1) = r" "length (tx_port s1) = length (tx_port s)"
      "outp (uart_srv s1) = outp (uart_srv s) @ [a]" "length (rxdata s1) = N_ITERATIONS * 2"
      "rxdata s1 = b # b # c # d @ z"
    using turn [of ?s0 "inp (uart_srv s)" 1 "a # b # c # d" r "[]" False "a # b # c # d" "[2]"] assms(2,3,5,6)
    by (auto simp: id simp del: echo_incrementing_loop.simps(2))
  let ?left = "take (length d + 2) (rxdata s1)"
  have left: "length ?left = length d + 2" "?left = b # b # take (length d) (c # d @ z)"
    by (simp_all add: s1(7))
  obtain s2 where s2: "echo_incrementing_loop rpc uart False [2] (int (length d + 2)) s1 = Some s2"
      "outp (uart_srv s2) = outp (uart_srv s1) @ take 2 (?left @ e)"
    using turn [of s1 r 2 e r' ?left False "?left @ e" "[]"] s1(2-4,6) left(1) assms(4,5,6)
    by (auto simp: id simp del: echo_incrementing_loop.simps(2))
  have "server_echo_incrementing rpc uart 2 False s = echo_incrementing_loop rpc uart False [1, 2] 0 ?s0"
    by (simp add: server_echo_incrementing_def upt_rec numeral_2_eq_2 del: echo_incrementing_loop.simps)
  with s1(1,5) s2 show ?thesis
    unfolding left(2) by (simp del: echo_incrementing_loop.simps)
qed

lemma client_run_ramps:
  assumes "serial_line rpc uart ready inp outp" "ready (uart_srv s)"
    "answered [1..<N_ITERATIONS + 1] (inp (uart_srv s))" "N_ITERATIONS \<le> length (tx_port s)"
  shows "ok (client_run True chk rpc uart s) (\<lambda>(ret, s').
    ret = (if chk \<and> \<not> all_lower [1..<N_ITERATIONS + 1] (inp (uart_srv s)) then -1 else 0) \<and> outp (uart_srv s') = outp (uart_srv s) @ replicate (\<Sum>{1..N_ITERATIONS}) 0x55)"
proof -
  have "sum_list [1..<N_ITERATIONS + 1] = \<Sum>{1..N_ITERATIONS}"
    by (simp only: distinct_sum_list_conv_Sum distinct_upt set_upt Suc_eq_plus1 [symmetric]
        atLeastLessThanSuc_atLeastAtMost)
  moreover have "\<exists>s'. client_loop True chk rpc uart [1..<N_ITERATIONS + 1] 0 (s\<lparr>rxdata := replicate (N_ITERATIONS * 2) 0\<rparr>) =
      Some (if chk \<and> \<not> all_lower [1..<N_ITERATIONS + 1] (inp (uart_srv s)) then -1 else 0, s') \<and> ready (uart_srv s') \<and> outp (uart_srv s') = outp (uart_srv s) @ replicate (sum_list [1..<N_ITERATIONS + 1]) 0x55"
    using serial_line.client_loop_ramps [OF assms(1), of "s\<lparr>rxdata := replicate (N_ITERATIONS * 2) 0\<rparr>"
        "inp (uart_srv s)" "[1..<N_ITERATIONS + 1]" chk 0] assms(2-4)
    by (simp del: upt_Suc upt_conv_Cons)
  ultimately show ?thesis
    by (auto simp: client_run_def ok_def simp del: upt_Suc)
qed

text \<open>The server selects its next behaviour by the commands; \<^verbatim>\<open>run\<close> never returns.\<close>

lemma server_selects:
  assumes "serial_line rpc uart ready inp outp" "ready (uart_srv s)"
    "commands (inp (uart_srv s)) b = Some (b', r)" "b \<notin> {0, 1, 2}"
  shows "ok (server_turn rpc uart b s) (\<lambda>(next, s').
    next = selected (takeWhile (\<lambda>c. c \<noteq> SERVER_RESTART_CHAR) (line_bytes (inp (uart_srv s)))) b \<and>
    inp (uart_srv s') = r \<and> outp (uart_srv s') = outp (uart_srv s))"
  using serial_line.command_loop_selects [OF assms(1,2) refl assms(3)] commands_eq [OF assms(3)] assms(4)
  by (auto simp: server_turn_def ok_def)

lemma server_runs_forever: "server_run rpc uart b s = None"
proof (cases "server_run rpc uart b s")
  case (Some r)
  have "False"
    by (rule server_run.raw_induct [of "\<lambda>_ _ _ _ _. False", OF _ Some]) (auto simp: bind_splits)
  then show ?thesis ..
qed

end
