(* ===== verification/Uart_Line.thy ===== *)
theory Uart_Line
  imports Uart_Apps_Laws
begin

text \<open>
  The composition of the UART applications with the UART server: over a serial driver that completes
  its transfers (locale \<open>line_driver\<close>), the model of \<^verbatim>\<open>tk1_uart.c\<close> is a serial line (\<open>sublocale\<close>). A
  driver of this kind is interpreted at the end, and the applications run on it.
\<close>

section \<open>The UART server is such a line\<close>

text \<open>
  What is asked of the serial driver: a transfer that it accepts is completed by the next interrupt,
  a read with the next chunk in the dataport.
\<close>

locale line_driver =
  fixes ids :: uart_ids
    and drv :: "('d, 'c) cdriver"
    and uart :: int
    and i :: nat
    and rx :: "'d \<Rightarrow> u8 list"
    and put :: "u8 list \<Rightarrow> 'd \<Rightarrow> 'd"
    and idle :: "'d \<Rightarrow> bool"
    and dinp :: "'d \<Rightarrow> (int + u8 list) list"
    and doutp :: "'d \<Rightarrow> u8 list"
  assumes numbers: "uart_ids_ok ids" "uart = NV_UARTA_ASYNC ids + int i" "i < 3"
      "cdev_id drv uart d = uart" "clkcar_reg drv mod 4 = 0"
    and refuses: "idle d \<Longrightarrow> dinp d = Inl e # evs \<Longrightarrow>
      \<exists>d'. ps_cdev_read drv uart (int (N_ITERATIONS * 2)) d = (e, False, d') \<and> e < 0 \<and>
        idle d' \<and> dinp d' = evs \<and> doutp d' = doutp d"
    and delivers: "idle d \<Longrightarrow> dinp d = Inr c # evs \<Longrightarrow>
      \<exists>ret d1 d2 rest. ps_cdev_read drv uart (int (N_ITERATIONS * 2)) d = (ret, False, d1) \<and> 0 \<le> ret \<and>
        ps_cdev_handle_irq drv uart d1 = (False, True, d2) \<and> 0 < read_requested drv uart d2 \<and>
        read_transfered drv uart d2 = int (length c) \<and> rx d2 = c @ rest \<and>
        idle d2 \<and> dinp d2 = evs \<and> doutp d2 = doutp d"
    and sends: "idle d \<Longrightarrow> 0 < n \<Longrightarrow> n \<le> length tx \<Longrightarrow>
      \<exists>ret d1 d2. ps_cdev_write drv uart (int n) (put tx d) = (ret, False, d1) \<and> 0 \<le> ret \<and>
        ps_cdev_handle_irq drv uart d1 = (True, False, d2) \<and> 0 < write_requested drv uart d2 \<and>
        write_transfered drv uart d2 = int n \<and>
        idle d2 \<and> dinp d2 = dinp d \<and> doutp d2 = doutp d @ take n tx"

text \<open>A UART after start-up and its first transfer, at rest.\<close>

definition uart_up :: "uart_ids \<Rightarrow> ('d, 'c) cdriver \<Rightarrow> int \<Rightarrow> nat \<Rightarrow> ('d, 'c) uart_server \<Rightarrow> bool" where
  "uart_up ids drv uart i s \<longleftrightarrow> uart_at ids drv uart i s \<and>
     pinst (cdevs s ! i) \<and> tx_shmem_buff (cdevs s ! i) \<and> rx_shmem_buff (cdevs s ! i) \<and>
     write_sync_mtx (cdevs s ! i) \<and> read_sync_mtx (cdevs s ! i) \<and>
     \<not> do_release_write_sync_mutex (cdevs s ! i) \<and> \<not> do_release_read_sync_mutex (cdevs s ! i)"

lemma uart_up_serial: "uart_up ids drv uart i s \<Longrightarrow> uart_up ids drv uart i (s\<lparr>serial := d\<rparr>)"
  by (auto simp: uart_up_def uart_at_def)

lemma uart_upD:
  assumes "uart_up ids drv uart i s"
  shows "i < length (cdevs s)" "nat (uart - NV_UARTA_ASYNC ids) = i" "NV_UARTA_ASYNC ids \<le> uart"
    "uart < NV_UARTD_ASYNC ids" "\<not> state_mtx (cdevs s ! i)"
    "(cdevs s)[i := (cdevs s ! i)\<lparr>state_mtx := False\<rparr>] = cdevs s"
proof -
  have at: "uart_at ids drv uart i s" using assms by (simp add: uart_up_def)
  then show "i < length (cdevs s)" "nat (uart - NV_UARTA_ASYNC ids) = i" "NV_UARTA_ASYNC ids \<le> uart"
    "uart < NV_UARTD_ASYNC ids" "\<not> state_mtx (cdevs s ! i)"
    by (auto simp: uart_at_def uart_ids_ok_def)
  then show "(cdevs s)[i := (cdevs s ! i)\<lparr>state_mtx := False\<rparr>] = cdevs s"
    by (intro list_update_same_conv [THEN iffD2]) simp_all
qed

lemma read_started:
  assumes "uart_up ids drv uart i s" "ps_cdev_read drv uart n (serial s) = (ret, False, d)"
  shows "tk1_uart_read_start ids drv uart n s =
    Some (if ret < 0 then Inl ret else Inr (), s\<lparr>serial := d\<rparr>)"
  using assms uart_upD [OF assms(1)]
  by (simp add: uart_up_def tk1_uart_read_start_def uart_bring_up_def cdev_upd_eq mtx_defs Let_def)

lemma write_started:
  assumes "uart_up ids drv uart i s" "ps_cdev_write drv uart n (serial s) = (ret, False, d)"
  shows "tk1_uart_write_start ids drv uart n s =
    Some (if ret < 0 then Inl ret else Inr (), s\<lparr>serial := d\<rparr>)"
  using assms uart_upD [OF assms(1)]
  by (simp add: uart_up_def tk1_uart_write_start_def uart_bring_up_def cdev_upd_eq mtx_defs Let_def)

lemma completion:
  assumes "uart_up ids drv uart i s" "ps_cdev_handle_irq drv uart (serial s) = (w, r, d)"
    "w \<Longrightarrow> 0 < write_requested drv uart d" "r \<Longrightarrow> 0 < read_requested drv uart d"
  shows "tk1_uart_irq_handler ids drv uart s = Some (s\<lparr>serial := d,
    cdevs := (cdevs s)[i := (cdevs s ! i)\<lparr>write_sync_mtx := \<not> w, read_sync_mtx := \<not> r\<rparr>]\<rparr>)"
proof -
  have "after_irq w r (cdevs s ! i) = (cdevs s ! i)\<lparr>write_sync_mtx := \<not> w, read_sync_mtx := \<not> r\<rparr>"
    using assms(1) by (simp add: after_irq_def uart_up_def)
  moreover have "write_done drv uart (serial s) = w" "read_done drv uart (serial s) = r"
    "irq_state_of drv uart (serial s) = d"
    using assms(2-4) by (auto simp: write_done_def read_done_def irq_state_of_def)
  ultimately show ?thesis
    using irq_handler_eq [of ids drv uart i s] assms(1) by (simp add: uart_up_def)
qed

lemma read_round:
  assumes "uart_up ids drv uart i s" "ps_cdev_read drv uart n (serial s) = (ret, False, d1)" "0 \<le> ret"
    "ps_cdev_handle_irq drv uart d1 = (False, True, d2)" "0 < read_requested drv uart d2"
  shows "tk1_uart_read ids drv (uart_irqs ids drv uart 1) uart n s =
    Some (read_transfered drv uart d2, s\<lparr>serial := d2\<rparr>)"
proof -
  let ?s = "s\<lparr>serial := d1\<rparr>"
  have "tk1_uart_irq_handler ids drv uart ?s = Some (?s\<lparr>serial := d2,
      cdevs := (cdevs s)[i := (cdevs s ! i)\<lparr>write_sync_mtx := True, read_sync_mtx := False\<rparr>]\<rparr>)"
    using completion [of ids drv uart i ?s False True d2] uart_up_serial [OF assms(1)] assms(4,5) by simp
  moreover have "(cdevs s)[i := (cdevs s ! i)\<lparr>write_sync_mtx := True, read_sync_mtx := True\<rparr>] = cdevs s"
    using assms(1) by (intro list_update_same_conv [THEN iffD2]) (auto simp: uart_up_def uart_at_def)
  ultimately show ?thesis
    using read_started [OF assms(1,2)] assms(3) uart_upD [OF assms(1)]
    by (simp add: tk1_uart_read_def cdev_upd_eq read_sync_mtx_lock_def)
qed

lemma write_round:
  assumes "uart_up ids drv uart i s" "ps_cdev_write drv uart n (serial s) = (ret, False, d1)" "0 \<le> ret"
    "ps_cdev_handle_irq drv uart d1 = (True, False, d2)" "0 < write_requested drv uart d2"
  shows "tk1_uart_write ids drv (uart_irqs ids drv uart 1) uart n s =
    Some (write_transfered drv uart d2, s\<lparr>serial := d2\<rparr>)"
proof -
  let ?s = "s\<lparr>serial := d1\<rparr>"
  have "tk1_uart_irq_handler ids drv uart ?s = Some (?s\<lparr>serial := d2,
      cdevs := (cdevs s)[i := (cdevs s ! i)\<lparr>write_sync_mtx := False, read_sync_mtx := True\<rparr>]\<rparr>)"
    using completion [of ids drv uart i ?s True False d2] uart_up_serial [OF assms(1)] assms(4,5) by simp
  moreover have "(cdevs s)[i := (cdevs s ! i)\<lparr>read_sync_mtx := True, write_sync_mtx := True\<rparr>] = cdevs s"
    using assms(1) by (intro list_update_same_conv [THEN iffD2]) (auto simp: uart_up_def uart_at_def)
  ultimately show ?thesis
    using write_started [OF assms(1,2)] assms(3) uart_upD [OF assms(1)]
    by (simp add: tk1_uart_write_def cdev_upd_eq write_sync_mtx_lock_def)
qed

sublocale line_driver \<subseteq> serial_line "server_rpc ids drv (uart_irqs ids drv uart 1) rx put" uart
  "\<lambda>s. uart_up ids drv uart i s \<and> idle (serial s)" "\<lambda>s. dinp (serial s)" "\<lambda>s. doutp (serial s)"
proof
  fix u e evs
  assume u: "uart_up ids drv uart i u \<and> idle (serial u)" "dinp (serial u) = Inl e # evs"
  obtain d' where d: "ps_cdev_read drv uart (int (N_ITERATIONS * 2)) (serial u) = (e, False, d')" "e < 0"
      "idle d'" "dinp d' = evs" "doutp d' = doutp (serial u)"
    using refuses u by blast
  have "tk1_uart_read ids drv (uart_irqs ids drv uart 1) uart (int (N_ITERATIONS * 2)) u = Some (e, u\<lparr>serial := d'\<rparr>)"
    using read_started [OF conjunct1 [OF u(1)] d(1)] d(2) by (simp add: tk1_uart_read_def)
  with u(1) d show "\<exists>rxa u'. rpc_read (server_rpc ids drv (uart_irqs ids drv uart 1) rx put) uart
      (int (N_ITERATIONS * 2)) u = Some (e, rxa, u') \<and> e < 0 \<and>
      (uart_up ids drv uart i u' \<and> idle (serial u')) \<and> dinp (serial u') = evs \<and> doutp (serial u') = doutp (serial u)"
    by (auto simp: server_rpc_def uart_up_serial)
next
  fix u c evs
  assume u: "uart_up ids drv uart i u \<and> idle (serial u)" "dinp (serial u) = Inr c # evs"
  obtain ret d1 d2 rest where d: "ps_cdev_read drv uart (int (N_ITERATIONS * 2)) (serial u) = (ret, False, d1)"
      "0 \<le> ret" "ps_cdev_handle_irq drv uart d1 = (False, True, d2)" "0 < read_requested drv uart d2"
      "read_transfered drv uart d2 = int (length c)" "rx d2 = c @ rest" "idle d2" "dinp d2 = evs"
      "doutp d2 = doutp (serial u)"
    using delivers u by blast
  from read_round [OF conjunct1 [OF u(1)] d(1-4)] d(5-) u(1)
  show "\<exists>rxa u'. rpc_read (server_rpc ids drv (uart_irqs ids drv uart 1) rx put) uart
      (int (N_ITERATIONS * 2)) u = Some (int (length c), c @ rxa, u') \<and>
      (uart_up ids drv uart i u' \<and> idle (serial u')) \<and> dinp (serial u') = evs \<and> doutp (serial u') = doutp (serial u)"
    by (auto simp: server_rpc_def uart_up_serial)
next
  fix u n tx
  assume u: "uart_up ids drv uart i u \<and> idle (serial u)" "0 < n" "n \<le> length (tx :: u8 list)"
  let ?u = "u\<lparr>serial := put tx (serial u)\<rparr>"
  obtain ret d1 d2 where d: "ps_cdev_write drv uart (int n) (serial ?u) = (ret, False, d1)"
      "0 \<le> ret" "ps_cdev_handle_irq drv uart d1 = (True, False, d2)" "0 < write_requested drv uart d2"
      "write_transfered drv uart d2 = int n" "idle d2" "dinp d2 = dinp (serial u)"
      "doutp d2 = doutp (serial u) @ take n tx"
    using sends [of "serial u" n tx] u by auto
  from write_round [OF uart_up_serial [OF conjunct1 [OF u(1)]] d(1-4)] d(5-) u(1)
  show "\<exists>u'. rpc_write (server_rpc ids drv (uart_irqs ids drv uart 1) rx put) uart (int n) tx u = Some (int n, u') \<and>
      (uart_up ids drv uart i u' \<and> idle (serial u')) \<and> dinp (serial u') = dinp (serial u) \<and>
      doutp (serial u') = doutp (serial u) @ take n tx"
    by (auto simp: server_rpc_def uart_up_serial)
qed

text \<open>
  A driver of this kind: its state is the input to come, the output so far, the two dataports, and
  the transfer in progress.
\<close>

datatype line_mode = LIdle | LReading | LWriting

record line_dev =
  l_in :: "(int + u8 list) list"
  l_out :: "u8 list"
  l_tx :: "u8 list"
  l_rx :: "u8 list"
  l_mode :: line_mode
  l_req :: int
  l_moved :: int

definition line_idle :: "line_dev \<Rightarrow> bool" where
  "line_idle d \<longleftrightarrow> (\<forall>e. Inl e \<in> set (l_in d) \<longrightarrow> e < 0)"

definition line_read :: "int \<Rightarrow> int \<Rightarrow> line_dev \<Rightarrow> int \<times> bool \<times> line_dev" where
  "line_read u n d = (case l_in d of
     Inl e # evs \<Rightarrow> (e, False, d\<lparr>l_in := evs\<rparr>)
   | _ \<Rightarrow> (0, False, d\<lparr>l_mode := LReading, l_req := n\<rparr>))"

definition line_write :: "int \<Rightarrow> int \<Rightarrow> line_dev \<Rightarrow> int \<times> bool \<times> line_dev" where
  "line_write u n d = (0, False, d\<lparr>l_mode := LWriting, l_req := n\<rparr>)"

definition line_irq :: "int \<Rightarrow> line_dev \<Rightarrow> bool \<times> bool \<times> line_dev" where
  "line_irq u d = (case l_mode d of
     LReading \<Rightarrow> (case l_in d of
         Inr c # evs \<Rightarrow> (False, True, d\<lparr>l_in := evs, l_rx := c, l_moved := int (length c), l_mode := LIdle\<rparr>)
       | _ \<Rightarrow> (False, False, d))
   | LWriting \<Rightarrow> (True, False, d\<lparr>l_out := l_out d @ take (nat (l_req d)) (l_tx d), l_moved := l_req d,
        l_mode := LIdle\<rparr>)
   | LIdle \<Rightarrow> (False, False, d))"

definition line_drv :: "(line_dev, nat \<Rightarrow> u32) cdriver" where
  "line_drv = \<lparr>ps_cdev_init = (\<lambda>u d. (True, d)), ps_cdev_write = line_write, ps_cdev_read = line_read,
     ps_cdev_handle_irq = line_irq, cdev_id = (\<lambda>u d. u),
     write_requested = (\<lambda>u d. l_req d), write_transfered = (\<lambda>u d. l_moved d),
     read_requested = (\<lambda>u d. l_req d), read_transfered = (\<lambda>u d. l_moved d),
     car_rd = ram_rd, car_wr = ram_wr, clkcar_reg = 0\<rparr>"

interpretation uartb_line: line_driver sample_ids line_drv 5 1 l_rx "\<lambda>tx d. d\<lparr>l_tx := tx\<rparr>" line_idle l_in l_out
proof
  show "uart_ids_ok sample_ids" by (simp add: uart_ids_ok_def sample_ids_def)
  show "(5 :: int) = NV_UARTA_ASYNC sample_ids + int 1" by (simp add: sample_ids_def)
qed (auto simp: line_drv_def line_read_def line_write_def line_irq_def line_idle_def)

abbreviation line_rpc :: "(line_dev, nat \<Rightarrow> u32) uart_server uart_rpc" where
  "line_rpc \<equiv> server_rpc sample_ids line_drv (uart_irqs sample_ids line_drv 5 1) l_rx (\<lambda>tx d. d\<lparr>l_tx := tx\<rparr>)"

definition line_app :: "(int + u8 list) list \<Rightarrow> (line_dev, nat \<Rightarrow> u32) uart_server test_app" where
  "line_app evs = \<lparr>tx_port = replicate 4096 0, rx_port = replicate 4096 0, rxdata = replicate 512 0,
     uart_srv = \<lparr>
       cdevs = replicate 3 ((empty_cdev True True)\<lparr>pinst := True, write_sync_mtx := True, read_sync_mtx := True\<rparr>),
       serial = \<lparr>l_in = evs, l_out = [], l_tx = [], l_rx = [], l_mode = LIdle, l_req = 0, l_moved = 0\<rparr>,
       car = \<lparr>device = (\<lambda>_. 0), accesses = []\<rparr>, irq_acks = []\<rparr>\<rparr>"

lemma line_app_ready:
  "(\<forall>e. Inl e \<in> set evs \<longrightarrow> e < 0) \<Longrightarrow>
   uart_up sample_ids line_drv 5 1 (uart_srv (line_app evs)) \<and> line_idle (serial (uart_srv (line_app evs)))"
  by (simp add: line_app_def uart_up_def uart_at_def uart_ids_ok_def sample_ids_def line_drv_def
      line_idle_def empty_cdev_def)

lemma line_app_simps [simp]:
  "l_in (serial (uart_srv (line_app evs))) = evs" "l_out (serial (uart_srv (line_app evs))) = []"
  "tx_port (line_app evs) = replicate 4096 0" "rxdata (line_app evs) = replicate 512 0"
  by (simp_all add: line_app_def)

theorem read_fixed_length_reads_witness:
  "ok (read_fixed_length line_rpc 5 (N_ITERATIONS * 2) 2 0 0 (line_app [Inl (-1), Inr [0x41], Inr [0x42, 0x43]]))
     (\<lambda>(got, s'). got = 3) \<and>
   read_fixed_length line_rpc 5 (N_ITERATIONS * 2) 2 510 0 (line_app [Inl (-1), Inr [0x41], Inr [0x42, 0x43]]) = None"
proof -
  have g: "gather 2 0 (l_in (serial (uart_srv (line_app [Inl (-1), Inr [0x41], Inr [0x42, 0x43]])))) =
      Some ([0x41, 0x42, 0x43], [])"
    by (simp add: gather.simps)
  note run = read_fixed_length_reads [OF uartb_line.serial_line_axioms line_app_ready g]
  from run [of 0] run [of 510] show ?thesis
    by (auto simp: ok_def)
qed

theorem echo_server_streams_witness:
  "ok (server_echo_incrementing line_rpc 5 2 True (line_app [Inr [0x41], Inl (-1), Inr [0x42], Inr [0x43, 0x44]]))
     (\<lambda>s'. l_out (serial (uart_srv s')) = [0x61, 0x62, 0x63])"
proof -
  have p: "paced [1..<2 + 1] 0 (l_in (serial (uart_srv (line_app [Inr [0x41], Inl (-1), Inr [0x42], Inr [0x43, 0x44]]))))"
    by (simp add: gather.simps upt_rec)
  have "(\<Sum>{1..2}) = (3 :: nat)" by code_simp
  then show ?thesis
    using echo_server_streams [OF uartb_line.serial_line_axioms line_app_ready p, of True]
    by (auto simp: ok_def echo_byte_def)
qed

theorem echo_burst_loses_a_byte_witness:
  "ok (server_echo_incrementing line_rpc 5 2 False (line_app [Inr [0x41, 0x42, 0x43], Inr [0x44, 0x45]]))
     (\<lambda>s'. l_out (serial (uart_srv s')) = [0x41, 0x42, 0x42])"
proof -
  have g: "gather 1 0 (l_in (serial (uart_srv (line_app [Inr [0x41, 0x42, 0x43], Inr [0x44, 0x45]])))) =
      Some ([0x41, 0x42, 0x43], [Inr [0x44, 0x45]])" "gather 2 0 [Inr [0x44, 0x45]] = Some ([0x44, 0x45], [])"
    by (simp_all add: gather.simps)
  show ?thesis
    using echo_burst_loses_a_byte [OF uartb_line.serial_line_axioms line_app_ready g] by auto
qed

end
