(* ===== verification/Spec2Isabelle.thy ===== *)
theory Spec2Isabelle
  imports Can_Filter_Laws Can_Queue_Conc Can_Stream Can_App Can_Second_Buffer Can_On_Spi Can_Xmit_Race Time_Connector Clkcar_Fwd Uart_Fwd
    Tk1_Uart_Runs Uart_Line
begin

text \<open>
  A board support package for the Tegra K1 on seL4: CAmkES components, each a C program with its own
  state, that call each other by RPC, share dataports, and signal each other with notifications.
  All paths below are relative to \<^verbatim>\<open>src\<close>.

  \<^bold>\<open>The parts and how they meet.\<close> An application sends and receives CAN frames through the RPC
  interface of the CAN component (\<^verbatim>\<open>components/can\<close>). The frames pass two ring buffers
  between the RPC threads and the interrupt handler. The driver talks to the MCP2515 controller in
  instructions of a few bytes, which it puts into a dataport and has transferred by the SPI component
  (\<^verbatim>\<open>components/spi\<close>). That component runs the asynchronous SPI driver of libplatsupport, selects the
  chip through the GPIO component (\<^verbatim>\<open>components/gpio\<close>) and needs its clock from
  \<^verbatim>\<open>components/clkcar\<close>. The controller's interrupt line is a GPIO: the GPIO component forwards it as a
  notification to the CAN component, whose handler acknowledges it back. The UART component
  (\<^verbatim>\<open>components/tk1_uart\<close>) serves blocking transfers on three UARTs. Two forwarders
  (\<^verbatim>\<open>fwd_driver.c\<close> in \<^verbatim>\<open>clkcar\<close> and \<^verbatim>\<open>tk1_uart\<close>) give a guest virtual machine filtered access to the
  clock controller and to UART-D. The time server (\<^verbatim>\<open>components/TimeServerNVTMR\<close>) multiplexes one
  hardware timer among its clients, of which \<^verbatim>\<open>components/TimeClient\<close> is an example.

  \<^bold>\<open>How the C code is rendered.\<close> Integers keep their width (\<open>u8\<close>, \<open>u32\<close>, bit fields such as \<open>29 word\<close>);
  a struct is a record, an enum a datatype or its integers. Each component's static variables form
  one state record, which its functions take and return. What has no result in C is \<open>None\<close>: an access
  out of bounds, a failed assertion, a lock that nobody will release, a loop that never ends; a
  theorem that a call returns says \<open>= Some \<dots>\<close>. Loops that wait for hardware or for another thread
  are \<open>partial_function (option)\<close>, so that waiting for ever is the value \<open>None\<close> and no fuel is needed;
  loops over the fixed number of buffers, filters or devices are structural recursion. Bounded loops
  have the bound of the code (\<open>enbrst_loop\<close> 32 turns, the search of \<open>set_baudrate\<close> 8 to 25 quanta).
  Calls that leave a component (notifications, acknowledgements, pin changes, register accesses)
  are recorded in a log in the order the code makes them. The printing of log messages is left out.

  \<^bold>\<open>What is a parameter.\<close> The code below is not part of the sources. It is an argument of the definitions,
  and a theorem that relies on its behaviour names that as a hypothesis:
  \<^item> the MCP2515 and the transfer itself: a \<open>bus\<close>, a function of the bytes sent and the number of bytes
    read. \<open>full_duplex\<close>: the received bytes are as many as were exchanged; \<open>filters_hidden\<close>: the acceptance filters
    read as zero outside configuration mode, and only commands that touch the mode leave the mode;
    \<open>normal_mode\<close>: besides, the mode read back is normal mode and the received length codes fit a frame;
    \<open>register_file\<close>: in configuration mode the filter
    registers return what was written.
  \<^item> libplatsupport's drivers: \<open>spi_driver\<close> (hypotheses \<open>accepts\<close>, \<open>completes\<close>: it takes a transfer and
    completes it by one interrupt), \<open>cdriver\<close> for the UARTs (\<open>uart_at\<close>: it numbers the UARTs as it was
    asked), and for GPIOs and the timer events of a log.
  \<^item> its tables and constants: the UART numbers (\<open>uart_ids\<close>), the register table of the clock controller
    (\<open>clk_platform\<close>, \<open>clk_platform_ok\<close>), the rounding division (\<open>rounds_to_nearest\<close>).
  \<^item> the CAmkES configuration of the time server: number of clients and timers (\<open>cfg_ok\<close>), and that calls
    come from existing clients, with timers whose period is not zero and that do not overflow the 64-bit
    clock when an interrupt finds them armed (\<open>op_ok\<close>; the code refuses neither).
  \<^item> the interrupt pin and its latch in the GPIO controller (\<open>can_hw\<close>; \<open>level_pin\<close>: the pin stays low while
    flags are set, and a pin that stays low latches no edge; \<open>rx1_sticks\<close>: the same of the flag of the second
    receive buffer).
  Each such hypothesis is discharged on a concrete instance by a witness.

  \<^bold>\<open>CAN driver.\<close>
  \<^item> \<open>Prelude\<close>: machine types, checked array accesses, locks, the \<open>ok\<close> calculus of postconditions that the
    driver proofs use, lemmas on words and lists.
  \<^item> \<open>Can_Types\<close>: the frames of \<^verbatim>\<open>include/can_inf.h\<close>.
  \<^item> \<open>Can_Queue\<close>: \<^verbatim>\<open>queue.c\<close>. Both rings live in one pool (\<open>mq_mem\<close>). Locale \<open>bounded_fifo\<close> states the contract
    of a bounded channel, interpreted for the transmit and for the receive queue; every sequence of
    pushes and pops refines a pair of bounded lists.
  \<^item> \<open>Can_Queue_Conc\<close>: the same operations as atomic steps of threads (test, lock, append, unlock). With one
    producer and one consumer every interleaving is a queue; with two producers it is not.
  \<^item> \<open>Spi_Cmd\<close>: \<^verbatim>\<open>spi_cmd.c\<close>, every instruction as the bytes it exchanges.
  \<^item> \<open>Can_State\<close>: the driver's state \<open>can_state\<close> (static variables of \<^verbatim>\<open>prio.c\<close>, \<^verbatim>\<open>irq.c\<close>, \<^verbatim>\<open>queue.c\<close>, the
    dataport, the semaphore of \<^verbatim>\<open>can_recv\<close>) and the register map of \<^verbatim>\<open>mcp2515.h\<close>.
  \<^item> \<open>Can_Prio\<close>: \<^verbatim>\<open>prio.c\<close>, with the ranking it computes.
  \<^item> \<open>Can_Controller\<close>: \<^verbatim>\<open>controller.c\<close>; its laws are in \<open>Can_Frame\<close> (frame layout and round trip), \<open>Can_Timing\<close>
    (search and registers of \<^verbatim>\<open>set_baudrate\<close>) and \<open>Can_Filter_Laws\<close> (filters, masks, overflows).
  \<^item> \<open>Can_Irq\<close>, \<open>Can_Irq_Laws\<close>: \<^verbatim>\<open>irq.c\<close>; what one interrupt does to the queues, and the invariant \<open>can_inv\<close>.
  \<^item> \<open>Can_Dev\<close>, \<open>Can_Dev_Laws\<close>: \<^verbatim>\<open>dev.c\<close>; the RPC calls, the invariant over every interleaving of calls and
    interrupts (\<open>can_reach\<close>), the start-up sequence.
  \<^item> \<open>Can_Stream\<close>: the driver from end to end: for every interleaving (\<open>can_run\<close>) what it loads into the
    controller is what \<^verbatim>\<open>can_send\<close> accepted and what \<^verbatim>\<open>can_recv\<close> returns is what the controller delivered,
    read off the list of bus transactions. \<open>Can_App\<close>: the test application \<^verbatim>\<open>canbus.c\<close>, with the
    reply that \<^verbatim>\<open>CAN_TEST_REPLY\<close> compiles in as a parameter.
  \<^item> \<open>Can_System\<close>: the driver and the GPIO server with the interrupt pin between them (\<open>sys_step\<close>), with all
    the calls of \<^verbatim>\<open>dev.c\<close> that do not leave normal mode (\<open>can_call\<close>): every interrupt delivered is answered
    and enabled again, but a pin that is low when its latch is cleared stalls the driver for as long as
    the controller stays in normal mode and no client calls \<^verbatim>\<open>can_recv_rxb\<close>, the one call that clears a flag
    (the first parameter of \<open>sys_step\<close> says whether any does).
    \<open>Can_Second_Buffer\<close>: so does a frame in the second receive buffer, whose flag neither the handler nor
    any such call clears.
  \<^item> \<open>Can_Xmit_Race\<close>: the transmit loop of \<^verbatim>\<open>irq.c\<close> in steps (the same function when undisturbed), interleaved
    with \<^verbatim>\<open>can_send\<close>: a frame that is left in the queue until a transmit interrupt or another send.
  \<^item> \<open>Can_On_Spi\<close>: the driver over the model of \<^verbatim>\<open>spi.c\<close> instead of a \<open>bus\<close>. Locale \<open>can_bus\<close> holds what the
    driver's proofs use of a bus; \<open>spi_backed\<close>, an SPI driver that completes its transfers with a
    controller in normal mode behind it, gives such a bus (sublocale \<open>on_server\<close>). The device of this bus
    is the server's state, or \<open>None\<close> for good once a transfer has not returned; the results say that it is not
    \<open>None\<close>.

  \<^bold>\<open>Time server.\<close>
  \<^item> \<open>Time_Server\<close>: \<^verbatim>\<open>time_server.c\<close> on a heap of timer objects with their prev and next pointers, and the call
    that the example client makes at start-up.
  \<^item> \<open>Time_List\<close>: the doubly linked list (\<open>dseg\<close>); insertion and removal implement sorted insertion and removal
    on lists, so that they are a \<open>sorted_queue\<close> (locale, interpreted as \<open>tq\<close>).
  \<^item> \<open>Time_Laws\<close>: the specification, a set of armed alarms with a clock and per-client flags, and how
    often an alarm goes off up to a point in time; \<open>Time_Refine\<close>: abstraction \<open>spec_of\<close> and invariant \<open>tm_inv\<close>,
    and that the loop of \<^verbatim>\<open>signal_clients\<close> ends in the specified state; \<open>Time_Contract\<close>: each entry point
    against its specification; \<open>Time_Server_Laws\<close>: the properties.
  \<^item> \<open>Time_Connector\<close>: what \<^verbatim>\<open>templates/seL4TimeServer-to.template.c\<close> generates for a list of badges, and that
    it fits the server: every notification finds its endpoint.

  \<^bold>\<open>Peripherals.\<close>
  \<^item> \<open>Gpio\<close>: \<^verbatim>\<open>gpio.c\<close> and the handshake on the CAN interrupt line over every interleaving.
  \<^item> \<open>Mmio\<close>: register accesses with their log, and locale \<open>forwarder\<close>, the contract of the two forwarders: a
    single request touches only addresses in the allowed set, hence so does every sequence.
  \<^item> \<open>Clkcar\<close>: \<^verbatim>\<open>clkcar.c\<close>, register access by register access. \<open>Clkcar_Fwd\<close>, \<open>Uart_Fwd\<close>: the forwarders,
    interpretations \<open>car\<close> and \<open>uartd\<close> of \<open>forwarder\<close>.
  \<^item> \<open>Spi\<close>: \<^verbatim>\<open>spi.c\<close>; that it implements the \<open>bus\<close> on which the CAN driver is modelled.
  \<^item> \<open>Tk1_Uart\<close>, \<open>Tk1_Uart_Laws\<close>: \<^verbatim>\<open>tk1_uart.c\<close>; the handshake between a transfer and the interrupt handler.
    \<open>Tk1_Uart_Runs\<close>: every interleaving of the server's threads keeps the UARTs apart.
  \<^item> \<open>Uart_Apps\<close>: the echo server \<^verbatim>\<open>tk1_uart_test.c\<close> and the client \<^verbatim>\<open>tk1_uart_test_client.c\<close> over the RPC interface
    of the UART server; \<open>Uart_Apps_Laws\<close>: what they do on a serial line (locale \<open>serial_line\<close>); \<open>Uart_Line\<close>: the
    model of \<^verbatim>\<open>tk1_uart.c\<close> over a driver that completes its transfers (locale \<open>line_driver\<close>) is such a line
    (sublocale), and an interpretation on which the applications run.

  \<^bold>\<open>Not modelled.\<close> Debug output, apart from \<^verbatim>\<open>mcp2515_dumpstatus\<close>. Of the connector templates, the parts that are
  included from CAmkES itself, and \<^verbatim>\<open>seL4TimeServer-from.template.c\<close>, whose one function returns a
  capability. The \<^verbatim>\<open>pre_init\<close> of the time server and of \<^verbatim>\<open>spi_cmd.c\<close>, which set up a heap for the
  allocator and the address of the dataport. Weak memory effects: the interleaving models take each C
  statement on shared data as atomic; \<open>Can_System\<close> takes a run of a handler as one step, in which the
  controller may nevertheless change by what \<open>bus\<close> makes of it.
\<close>

end
